(* ===== verification/Hermes_Prelude.thy ===== *)
theory Hermes_Prelude
  imports Main "HOL-Library.Word" "HOL-Library.Sublist"
begin

text \<open>
  The shared prelude of the development.

  A Rust \<open>String\<close> or \<open>&str\<close> is modelled by \<open>string\<close>, one \<open>char\<close> per byte of its UTF-8
  encoding, so \<open>length\<close> is \<open>str::len\<close> and concatenation is \<open>format!\<close> of adjacent pieces. The
  functions below are the operations of the Rust standard library that the daemon calls on strings
  and options: \<open>Option::filter\<close>, \<open>or_else\<close>, \<open>unwrap_or\<close>, \<open>str::to_ascii_lowercase\<close>,
  \<open>str::strip_prefix\<close>, \<open>str::starts_with\<close>, \<open>str::trim\<close>, \<open>str::trim_end_matches\<close>,
  \<open>chars().take(n)\<close>, and the decimal and two-digit hexadecimal formats of \<open>format!\<close>.

  The collections: \<open>rust_std\<close> holds the unfolding rules of these small functions, \<open>wire\<close> the
  rules that decode what an encoder produced, and \<open>hub\<close> the rules of the channel and bridge
  operations.
\<close>

named_theorems rust_std \<open>unfolding rules of the modelled standard-library functions\<close>
named_theorems wire \<open>decoding rules of the JSON wire format\<close>
named_theorems hub_simps \<open>effects of the channel and bridge operations on the hub\<close>

type_synonym u8 = "8 word"
type_synonym u16 = "16 word"
type_synonym u32 = "32 word"
type_synonym u64 = "64 word"

section \<open>Options\<close>

definition opt_filter :: "('a \<Rightarrow> bool) \<Rightarrow> 'a option \<Rightarrow> 'a option" where
  "opt_filter P v = (case v of None \<Rightarrow> None | Some x \<Rightarrow> if P x then Some x else None)"

definition or_else :: "'a option \<Rightarrow> 'a option \<Rightarrow> 'a option" where
  "or_else a b = (case a of None \<Rightarrow> b | Some x \<Rightarrow> Some x)"

definition unwrap_or :: "'a \<Rightarrow> 'a option \<Rightarrow> 'a" where
  "unwrap_or d v = (case v of None \<Rightarrow> d | Some x \<Rightarrow> x)"

lemma opt_filter_simps [simp, rust_std]:
  "opt_filter P None = None"
  "opt_filter P (Some x) = (if P x then Some x else None)"
  by (simp_all add: opt_filter_def)

lemma or_else_simps [simp, rust_std]:
  "or_else None b = b"
  "or_else (Some x) b = Some x"
  by (simp_all add: or_else_def)

lemma unwrap_or_simps [simp, rust_std]:
  "unwrap_or d None = d"
  "unwrap_or d (Some x) = x"
  by (simp_all add: unwrap_or_def)

lemma opt_filter_Some_iff: "opt_filter P v = Some x \<longleftrightarrow> v = Some x \<and> P x"
  by (cases v) auto

lemma or_else_None_iff: "or_else a b = None \<longleftrightarrow> a = None \<and> b = None"
  by (cases a) auto

section \<open>Prefixes and suffixes\<close>

definition starts_with :: "'a list \<Rightarrow> 'a list \<Rightarrow> bool" where
  "starts_with p s = (take (length p) s = p)"

definition strip_prefix :: "'a list \<Rightarrow> 'a list \<Rightarrow> 'a list option" where
  "strip_prefix p s = (if starts_with p s then Some (drop (length p) s) else None)"

definition trim_end_matches :: "'a \<Rightarrow> 'a list \<Rightarrow> 'a list" where
  "trim_end_matches c s = rev (dropWhile (\<lambda>x. x = c) (rev s))"

lemma starts_with_iff_prefix: "starts_with p s \<longleftrightarrow> prefix p s"
  unfolding starts_with_def by (metis append_eq_conv_conj prefix_def)

lemma starts_with_append [simp]: "starts_with p (p @ s)"
  by (simp add: starts_with_def)

lemma strip_prefix_Some_iff: "strip_prefix p s = Some r \<longleftrightarrow> s = p @ r"
  unfolding strip_prefix_def starts_with_def
  by (auto simp: append_eq_conv_conj) (metis append_take_drop_id)

lemma strip_prefix_append [simp]: "strip_prefix p (p @ s) = Some s"
  by (simp add: strip_prefix_Some_iff)

lemma trim_end_matches_prefix: "prefix (trim_end_matches c s) s"
  unfolding trim_end_matches_def
  by (metis rev_rev_ident suffix_dropWhile suffix_to_prefix)

lemma trim_end_matches_last:
  "trim_end_matches c s \<noteq> [] \<Longrightarrow> last (trim_end_matches c s) \<noteq> c"
  unfolding trim_end_matches_def
  using hd_dropWhile [of "\<lambda>x. x = c" "rev s"] by (simp add: last_rev del: dropWhile_eq_Nil_conv)

lemma trim_end_matches_replicate:
  "\<exists>n. s = trim_end_matches c s @ replicate n c"
proof -
  let ?t = "takeWhile (\<lambda>x. x = c) (rev s)"
  have "rev s = ?t @ dropWhile (\<lambda>x. x = c) (rev s)"
    by simp
  then have "s = trim_end_matches c s @ rev ?t"
    unfolding trim_end_matches_def by (metis rev_append rev_rev_ident)
  moreover have "\<forall>x \<in> set ?t. x = c"
    by (auto dest: set_takeWhileD)
  then have "rev ?t = replicate (length ?t) c"
    by (metis replicate_length_same rev_replicate)
  ultimately show ?thesis by metis
qed

lemma trim_end_matches_idem [simp]:
  "trim_end_matches c (trim_end_matches c s) = trim_end_matches c s"
  by (simp add: trim_end_matches_def)

section \<open>Characters of a UTF-8 string\<close>

text \<open>
  A byte of the form \<open>10xxxxxx\<close> continues a character; every other byte starts one.
\<close>

definition is_cont :: "char \<Rightarrow> bool" where
  "is_cont c = (128 \<le> (of_char c :: nat) \<and> (of_char c :: nat) < 192)"

text \<open>\<open>s.chars().count()\<close> and \<open>s.chars().take(n).collect()\<close>.\<close>

definition char_count :: "string \<Rightarrow> nat" where
  "char_count s = length (filter (\<lambda>c. \<not> is_cont c) s)"

fun take_chars :: "nat \<Rightarrow> string \<Rightarrow> string" where
  "take_chars n [] = []"
| "take_chars n (c # cs) =
     (if is_cont c then c # take_chars n cs
      else case n of 0 \<Rightarrow> [] | Suc m \<Rightarrow> c # take_chars m cs)"

lemma take_chars_prefix: "prefix (take_chars n s) s"
  by (induction n s rule: take_chars.induct) (auto split: nat.splits)

lemma char_count_Nil [simp]: "char_count [] = 0"
  and char_count_Cons [simp]: "char_count (c # s) = (if is_cont c then 0 else 1) + char_count s"
  by (simp_all add: char_count_def)

lemma char_count_take_chars: "char_count (take_chars n s) = min n (char_count s)"
  by (induction n s rule: take_chars.induct) (auto split: nat.splits)

lemma take_chars_all: "char_count s \<le> n \<Longrightarrow> take_chars n s = s"
  by (induction n s rule: take_chars.induct) (auto split: nat.splits if_splits)

text \<open>The cut falls on a character boundary: what is left starts a new character.\<close>

lemma take_chars_boundary:
  "drop (length (take_chars n s)) s = c # r \<Longrightarrow> \<not> is_cont c"
  by (induction n s rule: take_chars.induct) (auto split: if_splits nat.splits)

section \<open>White space and trimming\<close>

text \<open>
  \<open>str::trim\<close> strips the characters with the Unicode property \<open>White_Space\<close>; these are their
  UTF-8 encodings: U+0009 to U+000D, U+0020, U+0085, U+00A0, U+1680, U+2000 to U+200A, U+2028,
  U+2029, U+202F, U+205F and U+3000.
\<close>

definition bytes :: "nat list \<Rightarrow> string" where
  "bytes ns = map char_of ns"

definition white_space :: "string list" where
  "white_space =
     map (\<lambda>n. bytes [n]) [9, 10, 11, 12, 13, 32]
     @ [bytes [0xC2, 0x85], bytes [0xC2, 0xA0], bytes [0xE1, 0x9A, 0x80]]
     @ map (\<lambda>n. bytes [0xE2, 0x80, n])
         [0x80, 0x81, 0x82, 0x83, 0x84, 0x85, 0x86, 0x87, 0x88, 0x89, 0x8A, 0xA8, 0xA9, 0xAF]
     @ [bytes [0xE2, 0x81, 0x9F], bytes [0xE3, 0x80, 0x80]]"

lemma white_space_nonempty: "w \<in> set white_space \<Longrightarrow> w \<noteq> []"
  by (auto simp: white_space_def bytes_def)

text \<open>\<open>strip_any ws s\<close> removes members of \<open>ws\<close> from the front of \<open>s\<close> while there is one.\<close>

function strip_any :: "string list \<Rightarrow> string \<Rightarrow> string" where
  "strip_any ws s =
     (case find (\<lambda>w. w \<noteq> [] \<and> starts_with w s) ws of
        None \<Rightarrow> s
      | Some w \<Rightarrow> strip_any ws (drop (length w) s))"
  by pat_completeness auto
termination
proof (relation "measure (\<lambda>(ws, s). length s)")
  show "wf (measure (\<lambda>(ws, s :: string). length s))" by simp
next
  fix ws s w
  assume "find (\<lambda>w. w \<noteq> [] \<and> starts_with w s) ws = Some w"
  then have "w \<noteq> []" and "prefix w s"
    by (auto simp: find_Some_iff starts_with_iff_prefix)
  then have "0 < length w" and "length w \<le> length s"
    by (simp_all add: prefix_length_le)
  then show "((ws, drop (length w) s), ws, s) \<in> measure (\<lambda>(ws, s). length s)"
    by (cases s) auto
qed

declare strip_any.simps [simp del]

definition trim_start :: "string \<Rightarrow> string" where
  "trim_start s = strip_any white_space s"

definition trim_end :: "string \<Rightarrow> string" where
  "trim_end s = rev (strip_any (map rev white_space) (rev s))"

definition trim :: "string \<Rightarrow> string" where
  "trim s = trim_end (trim_start s)"

lemma strip_any_suffix: "suffix (strip_any ws s) s"
proof (induction ws s rule: strip_any.induct)
  case (1 ws s)
  show ?case
  proof (cases "find (\<lambda>w. w \<noteq> [] \<and> starts_with w s) ws")
    case None
    then show ?thesis by (simp add: strip_any.simps [of ws s])
  next
    case (Some w)
    with "1.IH" have "suffix (strip_any ws (drop (length w) s)) (drop (length w) s)"
      by simp
    then have "suffix (strip_any ws (drop (length w) s)) s"
      by (rule suffix_order.trans) (rule suffix_drop)
    with Some show ?thesis by (simp add: strip_any.simps [of ws s])
  qed
qed

text \<open>Nothing strippable is left, so stripping again changes nothing.\<close>

lemma strip_any_done: "find (\<lambda>w. w \<noteq> [] \<and> starts_with w (strip_any ws s)) ws = None"
proof (induction ws s rule: strip_any.induct)
  case (1 ws s)
  show ?case
  proof (cases "find (\<lambda>w. w \<noteq> [] \<and> starts_with w s) ws")
    case None
    then show ?thesis by (simp add: strip_any.simps [of ws s])
  next
    case (Some w)
    with "1.IH" show ?thesis by (simp add: strip_any.simps [of ws s])
  qed
qed

lemma strip_any_idem [simp]: "strip_any ws (strip_any ws s) = strip_any ws s"
  using strip_any_done [of ws s] by (subst strip_any.simps) simp

lemma strip_any_not_prefix:
  "w \<in> set ws \<Longrightarrow> w \<noteq> [] \<Longrightarrow> \<not> prefix w (strip_any ws s)"
  using strip_any_done [of ws s] by (auto simp: find_None_iff starts_with_iff_prefix)

lemma trim_end_prefix: "prefix (trim_end s) s"
  unfolding trim_end_def
  by (metis rev_rev_ident strip_any_suffix suffix_to_prefix)

lemma trim_sublist: "sublist (trim s) s"
  unfolding trim_def trim_start_def
  by (meson prefix_imp_sublist strip_any_suffix sublist_order.order_trans suffix_imp_sublist
      trim_end_prefix)

lemma trim_no_leading_space: "w \<in> set white_space \<Longrightarrow> \<not> prefix w (trim s)"
  unfolding trim_def trim_start_def
  using prefix_order.order_trans strip_any_not_prefix trim_end_prefix white_space_nonempty by blast

lemma trim_no_trailing_space: "w \<in> set white_space \<Longrightarrow> \<not> suffix w (trim s)"
proof
  assume w: "w \<in> set white_space" and "suffix w (trim s)"
  then have "prefix (rev w) (strip_any (map rev white_space) (rev (trim_start s)))"
    by (simp add: trim_def trim_end_def suffix_to_prefix)
  with w white_space_nonempty [OF w] show False
    using strip_any_not_prefix [of "rev w" "map rev white_space"] by simp
qed

text \<open>
  The first byte decides most cases, which is how a witness evaluates \<open>trim\<close> on a string that
  starts and ends with a printable byte.
\<close>

lemma trim_visible:
  assumes "find (\<lambda>w. w \<noteq> [] \<and> starts_with w s) white_space = None"
    and "find (\<lambda>w. w \<noteq> [] \<and> starts_with w (rev s)) (map rev white_space) = None"
  shows "trim s = s"
  using assms
  by (simp add: trim_def trim_start_def trim_end_def strip_any.simps [of white_space s]
      strip_any.simps [of "map rev white_space" "rev s"])

text \<open>Evaluation of the blanks at the start of a string.\<close>

lemmas white_space_eval = white_space_def bytes_def starts_with_def char_of_def

lemma find_blank: "find (\<lambda>w. w \<noteq> [] \<and> starts_with w (CHR '' '' # s)) white_space = Some [CHR '' '']"
  by (simp add: white_space_eval bit_0)

lemma trim_start_blank: "trim_start (CHR '' '' # s) = trim_start s"
  by (simp add: trim_start_def strip_any.simps [of white_space "CHR '' '' # s"] find_blank)

lemma find_nil: "find (\<lambda>w. w \<noteq> [] \<and> starts_with w []) ws = None"
  by (auto simp: find_None_iff starts_with_def)

lemma trim_nil: "trim_start [] = []" "trim_end [] = []"
  by (simp_all add: trim_start_def trim_end_def strip_any.simps [of _ "[]"] find_nil)

section \<open>ASCII case\<close>

definition ascii_lower :: "char \<Rightarrow> char" where
  "ascii_lower c =
     (if 65 \<le> (of_char c :: nat) \<and> (of_char c :: nat) \<le> 90 then char_of ((of_char c :: nat) + 32)
      else c)"

definition to_ascii_lowercase :: "string \<Rightarrow> string" where
  "to_ascii_lowercase = map ascii_lower"

lemma ascii_lower_idem: "ascii_lower (ascii_lower c) = ascii_lower c"
  by (auto simp: ascii_lower_def)

lemma to_ascii_lowercase_idem [simp]:
  "to_ascii_lowercase (to_ascii_lowercase s) = to_ascii_lowercase s"
  by (simp add: to_ascii_lowercase_def ascii_lower_idem)

section \<open>Formatting numbers\<close>

definition digit :: "nat \<Rightarrow> char" where
  "digit d = char_of (48 + d)"

fun dec :: "nat \<Rightarrow> string" where
  "dec n = (if n < 10 then [digit n] else dec (n div 10) @ [digit (n mod 10)])"

declare dec.simps [simp del]

definition hex_digit :: "nat \<Rightarrow> char" where
  "hex_digit d = (if d < 10 then char_of (48 + d) else char_of (87 + d))"

text \<open>\<open>{b:02x}\<close>\<close>

definition hex02 :: "u8 \<Rightarrow> string" where
  "hex02 b = [hex_digit (unat b div 16), hex_digit (unat b mod 16)]"

definition is_digit :: "char \<Rightarrow> bool" where
  "is_digit c = (48 \<le> (of_char c :: nat) \<and> (of_char c :: nat) \<le> 57)"

definition is_hex_digit :: "char \<Rightarrow> bool" where
  "is_hex_digit c = (is_digit c \<or> 97 \<le> (of_char c :: nat) \<and> (of_char c :: nat) \<le> 102)"

lemma of_char_digit [simp]: "d < 10 \<Longrightarrow> (of_char (digit d) :: nat) = 48 + d"
  by (simp add: digit_def)

lemma is_digit_digit: "d < 10 \<Longrightarrow> is_digit (digit d)"
  by (simp add: is_digit_def)

lemma of_char_hex_digit:
  "d < 16 \<Longrightarrow> (of_char (hex_digit d) :: nat) = (if d < 10 then 48 + d else 87 + d)"
  by (simp add: hex_digit_def)

lemma is_hex_digit_hex_digit: "d < 16 \<Longrightarrow> is_hex_digit (hex_digit d)"
  by (auto simp: is_hex_digit_def is_digit_def of_char_hex_digit)

lemma hex_digit_inj: "d < 16 \<Longrightarrow> e < 16 \<Longrightarrow> hex_digit d = hex_digit e \<longleftrightarrow> d = e"
  by (auto simp: of_char_hex_digit split: if_splits dest!: arg_cong [of _ _ "of_char :: _ \<Rightarrow> nat"])

lemma dec_nonempty [simp]: "dec n \<noteq> []"
  by (subst dec.simps) simp

lemma dec_digits: "c \<in> set (dec n) \<Longrightarrow> is_digit c"
proof (induction n rule: dec.induct)
  case (1 n)
  then show ?case
    by (cases "n < 10") (auto simp: dec.simps [of n] is_digit_digit)
qed

text \<open>Reading the decimal digits back gives the number.\<close>

definition undec :: "string \<Rightarrow> nat" where
  "undec s = foldl (\<lambda>n c. 10 * n + ((of_char c :: nat) - 48)) 0 s"

lemma undec_snoc: "undec (s @ [c]) = 10 * undec s + ((of_char c :: nat) - 48)"
  by (simp add: undec_def)

lemma undec_dec [simp]: "undec (dec n) = n"
proof (induction n rule: dec.induct)
  case (1 n)
  show ?case
  proof (cases "n < 10")
    case True
    then show ?thesis by (simp add: dec.simps [of n] undec_def)
  next
    case False
    with "1.IH" have "undec (dec n) = 10 * (n div 10) + n mod 10"
      by (simp add: dec.simps [of n] undec_snoc)
    then show ?thesis by simp
  qed
qed

lemma dec_inject [simp]: "dec m = dec n \<longleftrightarrow> m = n"
  by (metis undec_dec)

lemma unat_u8_less: "unat (b :: u8) < 256"
  using unsigned_less [of b] by simp

lemma hex02_digits: "c \<in> set (hex02 b) \<Longrightarrow> is_hex_digit c"
  using unat_u8_less [of b] by (auto simp: hex02_def is_hex_digit_hex_digit less_mult_imp_div_less)

lemma length_hex02 [simp]: "length (hex02 b) = 2"
  by (simp add: hex02_def)

lemma hex02_inject [simp]: "hex02 a = hex02 b \<longleftrightarrow> a = b"
proof
  assume eq: "hex02 a = hex02 b"
  have "unat a div 16 < 16" "unat b div 16 < 16"
    using unat_u8_less [of a] unat_u8_less [of b] by (simp_all add: less_mult_imp_div_less)
  with eq have "unat a div 16 = unat b div 16" and "unat a mod 16 = unat b mod 16"
    by (simp_all add: hex02_def hex_digit_inj)
  then have "unat a = unat b" by (metis div_mult_mod_eq)
  then show "a = b" by (simp add: word_unat_eq_iff)
qed simp

section \<open>Generic lemmas\<close>

lemma in_set_tl: "x \<in> set (tl xs) \<Longrightarrow> x \<in> set xs"
  by (cases xs) auto

text \<open>Splitting a list at the first occurrence of a separator.\<close>

lemma append_sep_inject:
  assumes "x \<notin> set as" "x \<notin> set bs" "as @ x # cs = bs @ x # ds"
  shows "as = bs \<and> cs = ds"
  using assms
proof (induction as arbitrary: bs)
  case Nil
  then show ?case by (cases bs) auto
next
  case (Cons a as)
  then show ?case by (cases bs) auto
qed

section \<open>Paths\<close>

text \<open>\<open>PathBuf::join\<close>: an absolute path replaces the base, otherwise one separator stands between.\<close>

definition path_join :: "string \<Rightarrow> string \<Rightarrow> string" where
  "path_join base p =
     (if p \<noteq> [] \<and> hd p = CHR ''/'' then p
      else if base = [] \<or> last base = CHR ''/'' then base @ p
      else base @ ''/'' @ p)"

end
