(* ===== verification/Json_Model.thy ===== *)
theory Json_Model
  imports Hermes_Prelude
begin

text \<open>
  JSON values and the reading of them by derived \<open>Deserialize\<close> implementations.

  The Rust types of \<open>src/ipc/protocol.rs\<close>, \<open>src/bridge.rs\<close>, \<open>src/hermes/client.rs\<close> and
  \<open>src/ollama.rs\<close> go over the wire as their serde attributes say. The attributes used are
  \<open>tag = "type"\<close> with \<open>rename_all = "snake_case"\<close> on enums, \<open>default\<close> and
  \<open>skip_serializing_if = "Option::is_none"\<close> on fields; this theory gives the documented meaning of
  those attributes once, as functions from and to \<open>json\<close>, and the protocol theories apply it to each
  type. The step between \<open>json\<close> values and bytes (\<open>serde_json::to_vec\<close>, \<open>from_str\<close>) is a library the
  sources only call: it is an argument, \<open>parse\<close> or \<open>enc\<close>, of the definitions that use it.

  An object keeps its members in the order of the text, duplicates included, because a derived
  implementation refuses a duplicate of a known field and skips unknown ones.
\<close>

section \<open>Values\<close>

text \<open>
  \<open>f64\<close> values are carried, never computed with: they are their 64 bits. A number of the text is an
  unsigned or negative 64-bit integer or a float, as in \<open>serde_json::Number\<close>.
\<close>

type_synonym f64 = "64 word"

datatype jnum = PosInt u64 | NegInt u64 | Float f64

datatype json =
    JNull
  | JBool bool
  | JNum jnum
  | JStr string
  | JArr "json list"
  | JObj "(string \<times> json) list"

text \<open>The exponent field of a finite \<open>f64\<close> is not all ones.\<close>

definition f64_finite :: "f64 \<Rightarrow> bool" where
  "f64_finite x = ((unat x div 2 ^ 52) mod 2 ^ 11 \<noteq> 2047)"

text \<open>\<open>n as f64\<close> for an unsigned 64-bit \<open>n\<close>: round to nearest, ties to even.\<close>

fun bit_len :: "nat \<Rightarrow> nat" where
  "bit_len n = (if n = 0 then 0 else Suc (bit_len (n div 2)))"

declare bit_len.simps [simp del]

definition round_half_even :: "nat \<Rightarrow> nat \<Rightarrow> nat" where
  "round_half_even n sh =
     (let q = n div 2 ^ sh; r = n mod 2 ^ sh; half = 2 ^ (sh - 1)
      in if half < r \<or> r = half \<and> odd q then Suc q else q)"

definition f64_bits_of_nat :: "nat \<Rightarrow> nat" where
  "f64_bits_of_nat n =
     (if n = 0 then 0
      else let e = bit_len n - 1;
               m = (if e \<le> 52 then n * 2 ^ (52 - e) else round_half_even n (e - 52))
           in (e + 1023) * 2 ^ 52 + (m - 2 ^ 52))"

definition f64_of_u64 :: "u64 \<Rightarrow> f64" where
  "f64_of_u64 n = word_of_nat (f64_bits_of_nat (unat n))"

text \<open>\<open>i as f64\<close> for a negative \<open>i64\<close>, given by its bits: the sign bit and the magnitude.\<close>

definition f64_of_neg :: "u64 \<Rightarrow> f64" where
  "f64_of_neg i = word_of_nat (2 ^ 63 + f64_bits_of_nat (2 ^ 64 - unat i))"

lemma bit_len_bounds: "0 < n \<Longrightarrow> 0 < bit_len n \<and> 2 ^ (bit_len n - 1) \<le> n \<and> n < 2 ^ bit_len n"
proof (induction n rule: bit_len.induct)
  case (1 n)
  show ?case
  proof (cases "n = 1")
    case True
    then show ?thesis by (simp add: bit_len.simps [of "Suc 0"] bit_len.simps [of 0])
  next
    case False
    let ?l = "bit_len (n div 2)"
    from False "1.prems" have "0 < n div 2" by simp
    with "1.IH" "1.prems" have l: "0 < ?l" "2 ^ (?l - 1) \<le> n div 2" "n div 2 < 2 ^ ?l"
      by auto
    have "2 ^ ?l = 2 * (2 :: nat) ^ (?l - 1)"
      using l(1) by (cases ?l) auto
    with l(2) have "2 ^ ?l \<le> n" by linarith
    moreover from l(3) have "n < 2 * 2 ^ ?l" by linarith
    ultimately show ?thesis
      using "1.prems" by (simp add: bit_len.simps [of n])
  qed
qed

lemma bit_len_le: "n \<le> 2 ^ 64 \<Longrightarrow> bit_len n \<le> 65"
proof (rule ccontr)
  assume n: "n \<le> 2 ^ 64" and "\<not> bit_len n \<le> 65"
  then have b: "65 \<le> bit_len n - 1" and "0 < n"
    by (auto simp: bit_len.simps [of 0] intro: ccontr)
  with bit_len_bounds [of n] have "2 ^ (bit_len n - 1) \<le> n" by simp
  moreover have "(2 :: nat) ^ 65 \<le> 2 ^ (bit_len n - 1)"
    using b by (rule power_increasing) simp
  ultimately show False using n by simp
qed

lemma f64_bits_bound:
  assumes "n \<le> 2 ^ 64"
  shows "f64_bits_of_nat n \<le> 1088 * 2 ^ 52"
proof (cases "n = 0")
  case True
  then show ?thesis by (simp add: f64_bits_of_nat_def)
next
  case False
  define e where "e = bit_len n - 1"
  from False have n: "n < 2 ^ Suc e" and "bit_len n = Suc e"
    using bit_len_bounds [of n] by (simp_all add: e_def)
  with bit_len_le [OF assms] have e: "e \<le> 64" by simp
  have top: "(e + 1023) * 2 ^ 52 + 2 ^ 52 \<le> (1088 :: nat) * 2 ^ 52"
    using e by simp
  define m where "m = (if e \<le> 52 then n * 2 ^ (52 - e) else round_half_even n (e - 52))"
  have "m \<le> 2 ^ 53"
  proof (cases "e \<le> 52")
    case True
    have "n * 2 ^ (52 - e) < 2 ^ Suc e * 2 ^ (52 - e)"
      using n by simp
    also have "\<dots> = 2 ^ (Suc e + (52 - e))" by (simp only: power_add)
    also have "Suc e + (52 - e) = 53" using True by simp
    finally show ?thesis using True by (simp add: m_def)
  next
    case False
    then have "Suc e = 53 + (e - 52)" by simp
    with n have "n < 2 ^ 53 * 2 ^ (e - 52)" by (metis power_add)
    then have "n div 2 ^ (e - 52) < 2 ^ 53" by (simp add: less_mult_imp_div_less)
    with False show ?thesis by (simp add: m_def round_half_even_def Let_def)
  qed
  then have "m - 2 ^ 52 \<le> 2 ^ 52" by simp
  with top have "(e + 1023) * 2 ^ 52 + (m - 2 ^ 52) \<le> 1088 * 2 ^ 52" by linarith
  with False show ?thesis
    unfolding f64_bits_of_nat_def Let_def e_def [symmetric] m_def [symmetric] by simp
qed

lemma unat_word_of_nat_u64: "m < 2 ^ 64 \<Longrightarrow> unat (word_of_nat m :: u64) = m"
  by (simp add: unat_of_nat take_bit_nat_eq_self_iff)

lemma f64_finite_converted: "f64_finite (f64_of_u64 n)" "f64_finite (f64_of_neg i)"
proof -
  have small: "b \<le> 1088 * 2 ^ 52 \<Longrightarrow> b div 2 ^ 52 \<le> 1088" for b :: nat
    using div_le_mono [of b "1088 * 2 ^ 52" "2 ^ 52"] by simp
  have "unat n \<le> 2 ^ 64"
    using unsigned_less [of n, where ?'a = nat] by simp
  then have b: "f64_bits_of_nat (unat n) \<le> 1088 * 2 ^ 52" (is "?b \<le> _")
    by (rule f64_bits_bound)
  then have "unat (f64_of_u64 n) = ?b"
    by (simp add: f64_of_u64_def unat_word_of_nat_u64)
  with small [OF b] show "f64_finite (f64_of_u64 n)"
    by (simp add: f64_finite_def)
  let ?c = "f64_bits_of_nat (2 ^ 64 - unat i)"
  have c: "?c \<le> 1088 * 2 ^ 52"
    by (rule f64_bits_bound) simp
  then have "unat (f64_of_neg i) = 2 ^ 63 + ?c"
    unfolding f64_of_neg_def by (subst unat_word_of_nat_u64) simp_all
  moreover have "(2 ^ 63 + ?c) div 2 ^ 52 = 2 ^ 11 + ?c div 2 ^ 52"
    using div_mult_self3 [of "2 ^ 52" "2 ^ 11" ?c] by simp
  ultimately show "f64_finite (f64_of_neg i)"
    using small [OF c] by (simp add: f64_finite_def mod_add_self1)
qed

section \<open>Reading scalars\<close>

definition de_str :: "json \<Rightarrow> string option" where
  "de_str v = (case v of JStr s \<Rightarrow> Some s | _ \<Rightarrow> None)"

definition de_bool :: "json \<Rightarrow> bool option" where
  "de_bool v = (case v of JBool b \<Rightarrow> Some b | _ \<Rightarrow> None)"

definition de_u64 :: "json \<Rightarrow> u64 option" where
  "de_u64 v = (case v of JNum (PosInt n) \<Rightarrow> Some n | _ \<Rightarrow> None)"

definition de_f64 :: "json \<Rightarrow> f64 option" where
  "de_f64 v =
     (case v of
        JNum (Float x) \<Rightarrow> Some x
      | JNum (PosInt n) \<Rightarrow> Some (f64_of_u64 n)
      | JNum (NegInt i) \<Rightarrow> Some (f64_of_neg i)
      | _ \<Rightarrow> None)"

definition de_opt :: "(json \<Rightarrow> 'a option) \<Rightarrow> json \<Rightarrow> 'a option option" where
  "de_opt de v = (if v = JNull then Some None else map_option Some (de v))"

fun de_elems :: "(json \<Rightarrow> 'a option) \<Rightarrow> json list \<Rightarrow> 'a list option" where
  "de_elems de [] = Some []"
| "de_elems de (v # vs) =
     (case de v of
        None \<Rightarrow> None
      | Some x \<Rightarrow> map_option ((#) x) (de_elems de vs))"

definition de_vec :: "(json \<Rightarrow> 'a option) \<Rightarrow> json \<Rightarrow> 'a list option" where
  "de_vec de v = (case v of JArr vs \<Rightarrow> de_elems de vs | _ \<Rightarrow> None)"

text \<open>A non-finite float is written as \<open>null\<close>.\<close>

definition ser_f64 :: "f64 \<Rightarrow> json" where
  "ser_f64 x = (if f64_finite x then JNum (Float x) else JNull)"

lemma de_scalar [simp, wire]:
  "de_str (JStr s) = Some s"
  "de_bool (JBool b) = Some b"
  "de_u64 (JNum (PosInt n)) = Some n"
  "de_f64 (JNum (Float x)) = Some x"
  "de_opt de JNull = Some None"
  "de_opt de_str (JStr s) = Some (Some s)"
  "de_opt de_u64 (JNum k) = map_option Some (de_u64 (JNum k))"
  "de_opt de_f64 (JNum k) = map_option Some (de_f64 (JNum k))"
  "de_vec de (JArr vs) = de_elems de vs"
  by (simp_all add: de_str_def de_bool_def de_u64_def de_f64_def de_opt_def de_vec_def)

lemma de_str_Some_iff: "de_str v = Some s \<longleftrightarrow> v = JStr s"
  by (cases v) (auto simp: de_str_def)

lemma de_elems_map:
  "(\<And>x. x \<in> set xs \<Longrightarrow> de (ser x) = Some x) \<Longrightarrow> de_elems de (map ser xs) = Some xs"
  by (induction xs) auto

lemma de_elems_length: "de_elems de vs = Some xs \<Longrightarrow> length xs = length vs"
  by (induction vs arbitrary: xs) (auto split: option.splits)

lemma de_elems_set:
  "de_elems de vs = Some xs \<Longrightarrow> x \<in> set xs \<Longrightarrow> \<exists>v \<in> set vs. de v = Some x"
  by (induction vs arbitrary: xs) (auto split: option.splits)

section \<open>Reading structs\<close>

text \<open>
  A derived struct with fields \<open>ks\<close> reads an object, in which a field of \<open>ks\<close> may occur only once
  and other members are skipped, or an array that gives the fields in order. The result is the map
  from the fields that are present to their values.
\<close>

definition struct_fields :: "string list \<Rightarrow> json \<Rightarrow> (string \<rightharpoonup> json) option" where
  "struct_fields ks v =
     (case v of
        JObj kvs \<Rightarrow>
          let known = filter (\<lambda>(k, _). k \<in> set ks) kvs in
          if distinct (map fst known) then Some (map_of known) else None
      | JArr vs \<Rightarrow> if length vs \<le> length ks then Some (map_of (zip ks vs)) else None
      | _ \<Rightarrow> None)"

text \<open>A required field, and a field under \<open>default\<close> whose type is an option.\<close>

definition req_field :: "(json \<Rightarrow> 'a option) \<Rightarrow> (string \<rightharpoonup> json) \<Rightarrow> string \<Rightarrow> 'a option" where
  "req_field de f k = Option.bind (f k) de"

definition opt_field ::
    "(json \<Rightarrow> 'a option) \<Rightarrow> (string \<rightharpoonup> json) \<Rightarrow> string \<Rightarrow> 'a option option" where
  "opt_field de f k = (case f k of None \<Rightarrow> Some None | Some v \<Rightarrow> de_opt de v)"

text \<open>
  \<open>tag = "type"\<close>: the variant's name is the member \<open>type\<close> of the object, wherever it stands, or the
  first element of an array; the rest is the variant's content.
\<close>

definition tag_key :: string where
  "tag_key = ''type''"

definition tagged :: "json \<Rightarrow> (string \<times> json) option" where
  "tagged v =
     (case v of
        JObj kvs \<Rightarrow>
          (case filter (\<lambda>(k, _). k = tag_key) kvs of
             [(_, JStr tag)] \<Rightarrow> Some (tag, JObj (filter (\<lambda>(k, _). k \<noteq> tag_key) kvs))
           | _ \<Rightarrow> None)
      | JArr (JStr tag # vs) \<Rightarrow> Some (tag, JArr vs)
      | _ \<Rightarrow> None)"

text \<open>Writing a variant, and a field under \<open>skip_serializing_if = "Option::is_none"\<close>.\<close>

definition ser_variant :: "string \<Rightarrow> (string \<times> json) list \<Rightarrow> json" where
  "ser_variant tag fields = JObj ((tag_key, JStr tag) # fields)"

definition ser_skip_none :: "string \<Rightarrow> ('a \<Rightarrow> json) \<Rightarrow> 'a option \<Rightarrow> (string \<times> json) list" where
  "ser_skip_none k ser v = (case v of None \<Rightarrow> [] | Some x \<Rightarrow> [(k, ser x)])"

lemma ser_skip_none_simps [simp]:
  "ser_skip_none k ser None = []"
  "ser_skip_none k ser (Some x) = [(k, ser x)]"
  by (simp_all add: ser_skip_none_def)

lemma keys_ser_skip_none [simp, wire]:
  "fst ` set (ser_skip_none k ser v) = (if v = None then {} else {k})"
  "distinct (map fst (ser_skip_none k ser v))"
  by (cases v; simp)+

lemma in_ser_skip_none [simp]:
  "(a, b) \<in> set (ser_skip_none k ser v) \<longleftrightarrow> (\<exists>x. v = Some x \<and> a = k \<and> b = ser x)"
  by (cases v) auto

lemma map_of_ser_skip_none [simp, wire]:
  "map_of (ser_skip_none k ser v) x = (if x = k then map_option ser v else None)"
  by (simp add: ser_skip_none_def split: option.splits)

text \<open>An object with only known and distinct keys is read as the map of its members.\<close>

lemma struct_fields_exact:
  assumes "fst ` set kvs \<subseteq> set ks" and "distinct (map fst kvs)"
  shows "struct_fields ks (JObj kvs) = Some (map_of kvs)"
proof -
  from assms(1) have "filter (\<lambda>(k, _). k \<in> set ks) kvs = kvs"
    by (force simp: filter_id_conv)
  with assms(2) show ?thesis by (simp add: struct_fields_def)
qed

text \<open>An optional field that was written by \<open>ser_skip_none\<close> is read back.\<close>

lemma opt_field_written:
  assumes "f k = map_option ser v"
    and "\<And>x. v = Some x \<Longrightarrow> ser x \<noteq> JNull \<and> de (ser x) = Some x"
  shows "opt_field de f k = Some v"
  using assms by (cases v) (auto simp: opt_field_def de_opt_def)

lemma tagged_ser_variant [simp, wire]:
  assumes "tag_key \<notin> fst ` set fields"
  shows "tagged (ser_variant tag fields) = Some (tag, JObj fields)"
proof -
  from assms have "filter (\<lambda>(k, _). k = tag_key) fields = []"
    and "filter (\<lambda>(k, _). k \<noteq> tag_key) fields = fields"
    by (force simp: filter_empty_conv, force simp: filter_id_conv)
  then show ?thesis
    by (simp add: tagged_def ser_variant_def)
qed

lemma field_simps_wire [simp, wire]:
  "f k = Some v \<Longrightarrow> req_field de f k = de v"
  "f k = None \<Longrightarrow> req_field de f k = None"
  "f k = Some v \<Longrightarrow> opt_field de f k = de_opt de v"
  "f k = None \<Longrightarrow> opt_field de f k = Some None"
  by (simp_all add: req_field_def opt_field_def)

text \<open>An unknown member, anywhere in the object, changes nothing that is read.\<close>

lemma struct_fields_unknown:
  "k \<notin> set ks \<Longrightarrow> struct_fields ks (JObj (xs @ (k, v) # ys)) = struct_fields ks (JObj (xs @ ys))"
  by (simp add: struct_fields_def)

lemma tagged_unknown:
  assumes "k \<noteq> tag_key"
  shows "tagged (JObj (xs @ (k, v) # ys)) =
    (case tagged (JObj (xs @ ys)) of
       None \<Rightarrow> None
     | Some (tag, _) \<Rightarrow>
         Some (tag, JObj (filter (\<lambda>(k, _). k \<noteq> tag_key) xs @ (k, v)
                           # filter (\<lambda>(k, _). k \<noteq> tag_key) ys)))"
  using assms by (auto simp: tagged_def split: list.splits json.splits)

lemma tagged_obj_content:
  "tagged (JObj kvs) = Some (tag, c) \<Longrightarrow> c = JObj (filter (\<lambda>(k, _). k \<noteq> tag_key) kvs)"
  by (auto simp: tagged_def split: list.splits json.splits)

section \<open>The text layer\<close>

text \<open>
  What the program relies on from \<open>serde_json\<close>: \<open>enc\<close> stands for \<open>to_vec\<close> / \<open>to_string\<close> and \<open>dec\<close> for
  \<open>from_str\<close> (\<open>None\<close> where it reports an error). Compact output holds no line break and is not blank,
  and reading it gives the value back. Floats that JSON cannot write do not occur in a value.
\<close>

fun json_finite :: "json \<Rightarrow> bool" where
  "json_finite (JNum (Float x)) = f64_finite x"
| "json_finite (JArr vs) = list_all json_finite vs"
| "json_finite (JObj kvs) = list_all (\<lambda>(k, v). json_finite v) kvs"
| "json_finite _ = True"

text \<open>What is read from a finite value is finite.\<close>

lemma struct_fields_finite:
  assumes "struct_fields ks v = Some f" and "json_finite v" and "f k = Some w"
  shows "json_finite w"
proof (cases v)
  case (JArr vs)
  with assms have "map_of (zip ks vs) k = Some w"
    by (simp add: struct_fields_def split: if_splits)
  then have "w \<in> set vs"
    by (meson map_of_SomeD set_zip_rightD)
  with assms(2) JArr show ?thesis by (simp add: list_all_iff)
next
  case (JObj kvs)
  with assms have "map_of (filter (\<lambda>(k, _). k \<in> set ks) kvs) k = Some w"
    by (simp add: struct_fields_def Let_def split: if_splits)
  then have "(k, w) \<in> set kvs"
    by (auto dest: map_of_SomeD)
  with assms(2) JObj show ?thesis by (auto simp: list_all_iff)
qed (use assms(1) in \<open>simp_all add: struct_fields_def\<close>)

lemma tagged_finite:
  "tagged v = Some (tag, c) \<Longrightarrow> json_finite v \<Longrightarrow> json_finite c"
  by (auto simp: tagged_def list_all_iff split: json.splits list.splits)

lemma opt_f64_finite:
  assumes "opt_field de_f64 f k = Some (Some x)" and "\<And>w. f k = Some w \<Longrightarrow> json_finite w"
  shows "f64_finite x"
  using assms
  by (auto simp: opt_field_def de_opt_def de_f64_def f64_finite_converted
      split: option.splits if_splits json.splits jnum.splits)

abbreviation newline :: char where
  "newline \<equiv> CHR 0x0A"

end
