(* ===== verification/Protocol.thy ===== *)
theory Protocol
  imports Json_Model
begin

text \<open>
  \<open>src/ipc/protocol.rs\<close>: the messages between local clients and the daemon, the correlation id of a
  request, and the wire form that the serde attributes give each message. The constructors are the
  source's; \<open>Status\<close> exists in both enums, so the client's one is written \<open>client_message.Status\<close>.
  \<open>client_to_json\<close> and \<open>daemon_to_json\<close> are the derived \<open>Serialize\<close>, \<open>client_of_json\<close> and
  \<open>daemon_of_json\<close> the derived \<open>Deserialize\<close>.
\<close>

section \<open>Messages\<close>

datatype client_message =
    Chat (chat_request: string) (chat_session: "string option") (chat_text: string)
  | SessionCreate string "string option"
  | SessionList string
  | SessionResume string string
  | SessionMessages string string
  | Cancel string
  | Status string
  | Subscribe "string option"
  | ModelList string
  | SetModel "string option" string

fun request_id :: "client_message \<Rightarrow> string option" where
  "request_id (Chat rid _ _) = Some rid"
| "request_id (SessionCreate rid _) = Some rid"
| "request_id (SessionList rid) = Some rid"
| "request_id (SessionResume rid _) = Some rid"
| "request_id (SessionMessages rid _) = Some rid"
| "request_id (Cancel rid) = Some rid"
| "request_id (client_message.Status rid) = Some rid"
| "request_id (ModelList rid) = Some rid"
| "request_id (Subscribe rid) = rid"
| "request_id (SetModel rid _) = rid"

record model_info =
  mi_id :: string
  mi_loaded :: bool
  mi_active :: bool

record session_info =
  si_id :: string
  si_title :: "string option"
  si_model :: "string option"
  si_source :: "string option"
  si_last_active :: "f64 option"
  si_message_count :: "u64 option"
  si_preview :: "string option"

record chat_message =
  cm_role :: string
  cm_content :: string

datatype daemon_message =
    Delta string string
  | Draft string string
  | ToolProgress string string string
  | ChatComplete string string
  | SessionCreated string string "string option" "string option"
  | Sessions string "session_info list"
  | Messages string string "chat_message list"
  | SessionReset "string option" string string
  | Toast string string "string option"
  | Status string string "string option"
  | Error "string option" string
  | Models string "model_info list"

text \<open>\<open>pub mod status\<close>\<close>

definition status_connected :: string where
  "status_connected = ''connected''"

definition status_disconnected :: string where
  "status_disconnected = ''disconnected''"

definition status_ready :: string where
  "status_ready = ''ready''"

text \<open>The request a daemon message is addressed to; \<open>None\<close> for a broadcast.\<close>

fun addressed_to :: "daemon_message \<Rightarrow> string option" where
  "addressed_to (Delta r _) = Some r"
| "addressed_to (Draft r _) = Some r"
| "addressed_to (ToolProgress r _ _) = Some r"
| "addressed_to (ChatComplete r _) = Some r"
| "addressed_to (SessionCreated r _ _ _) = Some r"
| "addressed_to (Sessions r _) = Some r"
| "addressed_to (Messages r _ _) = Some r"
| "addressed_to (SessionReset r _ _) = r"
| "addressed_to (Toast _ _ _) = None"
| "addressed_to (Status _ _ r) = r"
| "addressed_to (Error r _) = r"
| "addressed_to (Models r _) = Some r"

section \<open>The wire form of requests\<close>

fun client_to_json :: "client_message \<Rightarrow> json" where
  "client_to_json (Chat rid session_id message) =
     ser_variant ''chat''
       ((''request_id'', JStr rid)
        # ser_skip_none ''session_id'' JStr session_id
        @ [(''message'', JStr message)])"
| "client_to_json (SessionCreate rid title) =
     ser_variant ''session_create''
       ((''request_id'', JStr rid) # ser_skip_none ''title'' JStr title)"
| "client_to_json (SessionList rid) =
     ser_variant ''session_list'' [(''request_id'', JStr rid)]"
| "client_to_json (SessionResume rid session_id) =
     ser_variant ''session_resume''
       [(''request_id'', JStr rid), (''session_id'', JStr session_id)]"
| "client_to_json (SessionMessages rid session_id) =
     ser_variant ''session_messages''
       [(''request_id'', JStr rid), (''session_id'', JStr session_id)]"
| "client_to_json (Cancel rid) =
     ser_variant ''cancel'' [(''request_id'', JStr rid)]"
| "client_to_json (client_message.Status rid) =
     ser_variant ''status'' [(''request_id'', JStr rid)]"
| "client_to_json (Subscribe rid) =
     ser_variant ''subscribe'' (ser_skip_none ''request_id'' JStr rid)"
| "client_to_json (ModelList rid) =
     ser_variant ''model_list'' [(''request_id'', JStr rid)]"
| "client_to_json (SetModel rid model) =
     ser_variant ''set_model''
       (ser_skip_none ''request_id'' JStr rid @ [(''model'', JStr model)])"

text \<open>The fields of each variant, in declaration order; an unknown tag has none.\<close>

definition client_fields :: "string \<Rightarrow> string list option" where
  "client_fields tag =
     map_of
       [(''chat'', [''request_id'', ''session_id'', ''message'']),
        (''session_create'', [''request_id'', ''title'']),
        (''session_list'', [''request_id'']),
        (''session_resume'', [''request_id'', ''session_id'']),
        (''session_messages'', [''request_id'', ''session_id'']),
        (''cancel'', [''request_id'']),
        (''status'', [''request_id'']),
        (''subscribe'', [''request_id'']),
        (''model_list'', [''request_id'']),
        (''set_model'', [''request_id'', ''model''])] tag"

text \<open>Applying a constructor to fields that may have failed to read.\<close>

definition ap1 :: "('a \<Rightarrow> 'r) \<Rightarrow> 'a option \<Rightarrow> 'r option" where
  "ap1 f a = map_option f a"

definition ap2 :: "('a \<Rightarrow> 'b \<Rightarrow> 'r) \<Rightarrow> 'a option \<Rightarrow> 'b option \<Rightarrow> 'r option" where
  "ap2 f a b = Option.bind a (\<lambda>x. map_option (f x) b)"

definition ap3 :: "('a \<Rightarrow> 'b \<Rightarrow> 'c \<Rightarrow> 'r) \<Rightarrow> 'a option \<Rightarrow> 'b option \<Rightarrow> 'c option \<Rightarrow> 'r option" where
  "ap3 f a b c = Option.bind a (\<lambda>x. ap2 (f x) b c)"

definition ap4 ::
    "('a \<Rightarrow> 'b \<Rightarrow> 'c \<Rightarrow> 'd \<Rightarrow> 'r) \<Rightarrow> 'a option \<Rightarrow> 'b option \<Rightarrow> 'c option \<Rightarrow> 'd option \<Rightarrow> 'r option"
  where
  "ap4 f a b c d = Option.bind a (\<lambda>x. ap3 (f x) b c d)"

lemma ap_simps [simp, wire]:
  "ap1 f (Some x) = Some (f x)"
  "ap2 g (Some x) (Some y) = Some (g x y)"
  "ap3 h (Some x) (Some y) (Some z) = Some (h x y z)"
  "ap4 k (Some x) (Some y) (Some z) (Some w) = Some (k x y z w)"
  by (simp_all add: ap1_def ap2_def ap3_def ap4_def)

lemma ap_Some_iff:
  "ap1 f a = Some r \<longleftrightarrow> (\<exists>x. a = Some x \<and> r = f x)"
  "ap2 g a b = Some r \<longleftrightarrow> (\<exists>x y. a = Some x \<and> b = Some y \<and> r = g x y)"
  by (auto simp: ap1_def ap2_def bind_eq_Some_conv)

definition client_variant :: "string \<Rightarrow> (string \<rightharpoonup> json) \<Rightarrow> client_message option" where
  "client_variant tag f =
     (let rid = req_field de_str f ''request_id'' in
      if tag = ''chat'' then
        ap3 Chat rid (opt_field de_str f ''session_id'') (req_field de_str f ''message'')
      else if tag = ''session_create'' then
        ap2 SessionCreate rid (opt_field de_str f ''title'')
      else if tag = ''session_list'' then ap1 SessionList rid
      else if tag = ''session_resume'' then
        ap2 SessionResume rid (req_field de_str f ''session_id'')
      else if tag = ''session_messages'' then
        ap2 SessionMessages rid (req_field de_str f ''session_id'')
      else if tag = ''cancel'' then ap1 Cancel rid
      else if tag = ''status'' then ap1 client_message.Status rid
      else if tag = ''subscribe'' then ap1 Subscribe (opt_field de_str f ''request_id'')
      else if tag = ''model_list'' then ap1 ModelList rid
      else if tag = ''set_model'' then
        ap2 SetModel (opt_field de_str f ''request_id'') (req_field de_str f ''model'')
      else None)"

definition client_of_json :: "json \<Rightarrow> client_message option" where
  "client_of_json v =
     Option.bind (tagged v) (\<lambda>(tag, content).
       Option.bind (client_fields tag) (\<lambda>ks.
         Option.bind (struct_fields ks content) (client_variant tag)))"

section \<open>The wire form of replies\<close>

definition model_info_to_json :: "model_info \<Rightarrow> json" where
  "model_info_to_json m =
     JObj [(''id'', JStr (mi_id m)), (''loaded'', JBool (mi_loaded m)),
           (''active'', JBool (mi_active m))]"

definition session_info_to_json :: "session_info \<Rightarrow> json" where
  "session_info_to_json s =
     JObj ((''id'', JStr (si_id s))
           # ser_skip_none ''title'' JStr (si_title s)
           @ ser_skip_none ''model'' JStr (si_model s)
           @ ser_skip_none ''source'' JStr (si_source s)
           @ ser_skip_none ''last_active'' ser_f64 (si_last_active s)
           @ ser_skip_none ''message_count'' (\<lambda>n. JNum (PosInt n)) (si_message_count s)
           @ ser_skip_none ''preview'' JStr (si_preview s))"

definition chat_message_to_json :: "chat_message \<Rightarrow> json" where
  "chat_message_to_json m =
     JObj [(''role'', JStr (cm_role m)), (''content'', JStr (cm_content m))]"

fun daemon_to_json :: "daemon_message \<Rightarrow> json" where
  "daemon_to_json (Delta rid content) =
     ser_variant ''delta'' [(''request_id'', JStr rid), (''content'', JStr content)]"
| "daemon_to_json (Draft rid content) =
     ser_variant ''draft'' [(''request_id'', JStr rid), (''content'', JStr content)]"
| "daemon_to_json (ToolProgress rid tool_name status) =
     ser_variant ''tool_progress''
       [(''request_id'', JStr rid), (''tool_name'', JStr tool_name),
        (''status'', JStr status)]"
| "daemon_to_json (ChatComplete rid content) =
     ser_variant ''chat_complete'' [(''request_id'', JStr rid), (''content'', JStr content)]"
| "daemon_to_json (SessionCreated rid session_id title model) =
     ser_variant ''session_created''
       ((''request_id'', JStr rid) # (''session_id'', JStr session_id)
        # ser_skip_none ''title'' JStr title @ ser_skip_none ''model'' JStr model)"
| "daemon_to_json (Sessions rid data) =
     ser_variant ''sessions''
       [(''request_id'', JStr rid), (''data'', JArr (map session_info_to_json data))]"
| "daemon_to_json (Messages rid session_id data) =
     ser_variant ''messages''
       [(''request_id'', JStr rid), (''session_id'', JStr session_id),
        (''data'', JArr (map chat_message_to_json data))]"
| "daemon_to_json (SessionReset rid old_id new_id) =
     ser_variant ''session_reset''
       (ser_skip_none ''request_id'' JStr rid
        @ [(''old_id'', JStr old_id), (''new_id'', JStr new_id)])"
| "daemon_to_json (Toast title body icon) =
     ser_variant ''toast''
       ((''title'', JStr title) # (''body'', JStr body) # ser_skip_none ''icon'' JStr icon)"
| "daemon_to_json (Status hermes daemon rid) =
     ser_variant ''status''
       ((''hermes'', JStr hermes) # (''daemon'', JStr daemon)
        # ser_skip_none ''request_id'' JStr rid)"
| "daemon_to_json (Error rid message) =
     ser_variant ''error''
       (ser_skip_none ''request_id'' JStr rid @ [(''message'', JStr message)])"
| "daemon_to_json (Models rid data) =
     ser_variant ''models''
       [(''request_id'', JStr rid), (''data'', JArr (map model_info_to_json data))]"

definition model_info_of_json :: "json \<Rightarrow> model_info option" where
  "model_info_of_json v =
     Option.bind (struct_fields [''id'', ''loaded'', ''active''] v) (\<lambda>f.
       ap3 (\<lambda>i l a. \<lparr>mi_id = i, mi_loaded = l, mi_active = a\<rparr>)
         (req_field de_str f ''id'') (req_field de_bool f ''loaded'')
         (req_field de_bool f ''active''))"

definition session_fields :: "string list" where
  "session_fields =
     [''id'', ''title'', ''model'', ''source'', ''last_active'', ''message_count'', ''preview'']"

definition session_info_of_json :: "json \<Rightarrow> session_info option" where
  "session_info_of_json v =
     Option.bind (struct_fields session_fields v) (\<lambda>f.
     Option.bind (req_field de_str f ''id'') (\<lambda>i.
     Option.bind (opt_field de_str f ''title'') (\<lambda>t.
     Option.bind (opt_field de_str f ''model'') (\<lambda>m.
     Option.bind (opt_field de_str f ''source'') (\<lambda>s.
     Option.bind (opt_field de_f64 f ''last_active'') (\<lambda>l.
     Option.bind (opt_field de_u64 f ''message_count'') (\<lambda>c.
     Option.bind (opt_field de_str f ''preview'') (\<lambda>p.
       Some \<lparr>si_id = i, si_title = t, si_model = m, si_source = s, si_last_active = l,
             si_message_count = c, si_preview = p\<rparr>))))))))"

definition chat_message_of_json :: "json \<Rightarrow> chat_message option" where
  "chat_message_of_json v =
     Option.bind (struct_fields [''role'', ''content''] v) (\<lambda>f.
       ap2 (\<lambda>r c. \<lparr>cm_role = r, cm_content = c\<rparr>)
         (req_field de_str f ''role'') (req_field de_str f ''content''))"

definition daemon_fields :: "string \<Rightarrow> string list option" where
  "daemon_fields tag =
     map_of
       [(''delta'', [''request_id'', ''content'']),
        (''draft'', [''request_id'', ''content'']),
        (''tool_progress'', [''request_id'', ''tool_name'', ''status'']),
        (''chat_complete'', [''request_id'', ''content'']),
        (''session_created'', [''request_id'', ''session_id'', ''title'', ''model'']),
        (''sessions'', [''request_id'', ''data'']),
        (''messages'', [''request_id'', ''session_id'', ''data'']),
        (''session_reset'', [''request_id'', ''old_id'', ''new_id'']),
        (''toast'', [''title'', ''body'', ''icon'']),
        (''status'', [''hermes'', ''daemon'', ''request_id'']),
        (''error'', [''request_id'', ''message'']),
        (''models'', [''request_id'', ''data''])] tag"

definition daemon_variant :: "string \<Rightarrow> (string \<rightharpoonup> json) \<Rightarrow> daemon_message option" where
  "daemon_variant tag f =
     (let str = req_field de_str f; opt = opt_field de_str f in
      if tag = ''delta'' then ap2 Delta (str ''request_id'') (str ''content'')
      else if tag = ''draft'' then ap2 Draft (str ''request_id'') (str ''content'')
      else if tag = ''tool_progress'' then
        ap3 ToolProgress (str ''request_id'') (str ''tool_name'') (str ''status'')
      else if tag = ''chat_complete'' then ap2 ChatComplete (str ''request_id'') (str ''content'')
      else if tag = ''session_created'' then
        ap4 SessionCreated (str ''request_id'') (str ''session_id'') (opt ''title'') (opt ''model'')
      else if tag = ''sessions'' then
        ap2 Sessions (str ''request_id'') (req_field (de_vec session_info_of_json) f ''data'')
      else if tag = ''messages'' then
        ap3 Messages (str ''request_id'') (str ''session_id'')
          (req_field (de_vec chat_message_of_json) f ''data'')
      else if tag = ''session_reset'' then
        ap3 SessionReset (opt ''request_id'') (str ''old_id'') (str ''new_id'')
      else if tag = ''toast'' then ap3 Toast (str ''title'') (str ''body'') (opt ''icon'')
      else if tag = ''status'' then ap3 Status (str ''hermes'') (str ''daemon'') (opt ''request_id'')
      else if tag = ''error'' then ap2 Error (opt ''request_id'') (str ''message'')
      else if tag = ''models'' then
        ap2 Models (str ''request_id'') (req_field (de_vec model_info_of_json) f ''data'')
      else None)"

definition daemon_of_json :: "json \<Rightarrow> daemon_message option" where
  "daemon_of_json v =
     Option.bind (tagged v) (\<lambda>(tag, content).
       Option.bind (daemon_fields tag) (\<lambda>ks.
         Option.bind (struct_fields ks content) (daemon_variant tag)))"

section \<open>Round trips\<close>

text \<open>The members an encoder writes, and the keys they use.\<close>

fun members :: "json \<Rightarrow> (string \<times> json) list" where
  "members (JObj kvs) = kvs"
| "members _ = []"

definition member_keys :: "json \<Rightarrow> string set" where
  "member_keys v = fst ` set (members v)"

lemma members_ser_variant [simp]: "members (ser_variant tag fs) = (tag_key, JStr tag) # fs"
  by (simp add: ser_variant_def)

lemmas decode_defs =
  struct_fields_def tag_key_def client_fields_def client_variant_def daemon_fields_def
  daemon_variant_def

lemma client_roundtrip [wire]: "client_of_json (client_to_json m) = Some m"
  by (cases m)
    (auto simp: client_of_json_def decode_defs ser_skip_none_def split: option.splits)

lemma client_to_json_inject: "client_to_json m = client_to_json n \<longleftrightarrow> m = n"
  by (metis client_roundtrip option.inject)

lemma model_info_roundtrip [wire]: "model_info_of_json (model_info_to_json m) = Some m"
  by (cases m) (simp add: model_info_of_json_def model_info_to_json_def struct_fields_def)

lemma chat_message_roundtrip [wire]: "chat_message_of_json (chat_message_to_json m) = Some m"
  by (cases m) (simp add: chat_message_of_json_def chat_message_to_json_def struct_fields_def)

definition session_finite :: "session_info \<Rightarrow> bool" where
  "session_finite s = (case si_last_active s of None \<Rightarrow> True | Some x \<Rightarrow> f64_finite x)"

fun daemon_finite :: "daemon_message \<Rightarrow> bool" where
  "daemon_finite (Sessions _ data) = list_all session_finite data"
| "daemon_finite _ = True"

lemma session_info_roundtrip [wire]:
  assumes "session_finite s"
  shows "session_info_of_json (session_info_to_json s) = Some s"
proof -
  let ?kvs = "members (session_info_to_json s)"
  have fields: "struct_fields session_fields (session_info_to_json s) = Some (map_of ?kvs)"
    unfolding session_info_to_json_def members.simps
    by (rule struct_fields_exact) (auto simp: session_fields_def)
  have str: "opt_field de_str (map_of ?kvs) k = Some v" if "map_of ?kvs k = map_option JStr v" for k v
    using that by (rule opt_field_written) simp
  have finite: "opt_field de_f64 (map_of ?kvs) ''last_active'' = Some (si_last_active s)"
    using assms
    by (intro opt_field_written [where ser = ser_f64])
      (auto simp: session_info_to_json_def map_add_def session_finite_def ser_f64_def
        split: option.splits)
  have count: "opt_field de_u64 (map_of ?kvs) ''message_count'' = Some (si_message_count s)"
    by (rule opt_field_written [where ser = "\<lambda>n. JNum (PosInt n)"])
      (simp_all add: session_info_to_json_def map_add_def split: option.splits)
  have "opt_field de_str (map_of ?kvs) ''title'' = Some (si_title s)"
    and "opt_field de_str (map_of ?kvs) ''model'' = Some (si_model s)"
    and "opt_field de_str (map_of ?kvs) ''source'' = Some (si_source s)"
    and "opt_field de_str (map_of ?kvs) ''preview'' = Some (si_preview s)"
    by (rule str, simp add: session_info_to_json_def map_add_def split: option.splits)+
  moreover have "req_field de_str (map_of ?kvs) ''id'' = Some (si_id s)"
    by (simp add: req_field_def session_info_to_json_def map_add_def split: option.splits)
  ultimately show ?thesis
    by (simp add: session_info_of_json_def fields finite count)
qed

lemma de_infos [wire]:
  "list_all session_finite xs \<Longrightarrow>
     de_elems session_info_of_json (map session_info_to_json xs) = Some xs"
  "de_elems chat_message_of_json (map chat_message_to_json ys) = Some ys"
  "de_elems model_info_of_json (map model_info_to_json zs) = Some zs"
  by (auto intro!: de_elems_map simp: list_all_iff wire)

lemma daemon_roundtrip_finite [wire]:
  "daemon_finite m \<Longrightarrow> daemon_of_json (daemon_to_json m) = Some m"
  by (cases m)
    (auto simp: daemon_of_json_def decode_defs ser_skip_none_def wire split: option.splits)

section \<open>What a reader accepts\<close>

text \<open>A value read from finite JSON is finite, so it can be written and read again.\<close>

lemma session_info_of_json_finite:
  assumes "session_info_of_json v = Some s" and "json_finite v"
  shows "session_finite s"
proof -
  from assms(1) obtain f where f: "struct_fields session_fields v = Some f"
    and l: "opt_field de_f64 f ''last_active'' = Some (si_last_active s)"
    by (auto simp: session_info_of_json_def bind_eq_Some_conv)
  show ?thesis
  proof (cases "si_last_active s")
    case None
    then show ?thesis by (simp add: session_finite_def)
  next
    case (Some x)
    with l struct_fields_finite [OF f assms(2)] have "f64_finite x"
      by (metis opt_f64_finite)
    with Some show ?thesis by (simp add: session_finite_def)
  qed
qed

lemma sessions_of_json_finite:
  assumes "de_vec session_info_of_json v = Some xs" and "json_finite v"
  shows "list_all session_finite xs"
proof -
  from assms(1) obtain vs where "v = JArr vs" and "de_elems session_info_of_json vs = Some xs"
    by (auto simp: de_vec_def split: json.splits)
  with assms(2) show ?thesis
    using de_elems_set session_info_of_json_finite by (fastforce simp: list_all_iff)
qed

lemma daemon_of_json_finite:
  assumes "daemon_of_json v = Some m" and "json_finite v"
  shows "daemon_finite m"
proof -
  from assms(1) obtain tag c ks f where tagged: "tagged v = Some (tag, c)"
    and fields: "struct_fields ks c = Some f" and variant: "daemon_variant tag f = Some m"
    by (auto simp: daemon_of_json_def bind_eq_Some_conv)
  have "daemon_finite (Sessions r xs)" if "daemon_variant tag f = Some (Sessions r xs)" for r xs
  proof -
    from that have "req_field (de_vec session_info_of_json) f ''data'' = Some xs"
      by (auto simp: daemon_variant_def Let_def ap_Some_iff ap1_def ap2_def ap3_def ap4_def
          bind_eq_Some_conv split: if_splits)
    then show ?thesis
      using struct_fields_finite [OF fields tagged_finite [OF tagged assms(2)]]
        sessions_of_json_finite
      by (auto simp: req_field_def bind_eq_Some_conv)
  qed
  with variant show ?thesis by (cases m) auto
qed

text \<open>A member that is neither the tag nor a field of any variant is skipped wherever it stands.\<close>

definition client_keys :: "string set" where
  "client_keys = {''request_id'', ''session_id'', ''message'', ''title'', ''model''}"

lemma client_fields_keys: "client_fields tag = Some ks \<Longrightarrow> set ks \<subseteq> client_keys"
  by (auto simp: client_fields_def client_keys_def split: if_splits)

lemma client_of_json_unknown:
  assumes "k \<noteq> tag_key" and "k \<notin> client_keys"
  shows "client_of_json (JObj (xs @ (k, v) # ys)) = client_of_json (JObj (xs @ ys))"
proof (cases "tagged (JObj (xs @ ys))")
  case None
  with assms(1) show ?thesis by (simp add: client_of_json_def tagged_unknown)
next
  case (Some p)
  then obtain tag c where p: "tagged (JObj (xs @ ys)) = Some (tag, c)"
    by (cases p) auto
  let ?drop = "filter (\<lambda>(k, _). k \<noteq> tag_key)"
  from p have c: "c = JObj (?drop xs @ ?drop ys)"
    using tagged_obj_content [OF p] by simp
  from p assms(1) have q: "tagged (JObj (xs @ (k, v) # ys)) =
      Some (tag, JObj (?drop xs @ (k, v) # ?drop ys))"
    by (simp add: tagged_unknown)
  have "struct_fields ks (JObj (?drop xs @ (k, v) # ?drop ys)) = struct_fields ks c"
    if "client_fields tag = Some ks" for ks
    unfolding c using that client_fields_keys assms(2) by (intro struct_fields_unknown) auto
  then show ?thesis
    by (cases "client_fields tag") (auto simp: client_of_json_def p q)
qed

text \<open>The member \<open>request_id\<close> is written exactly for messages addressed to a request.\<close>

lemma request_id_member:
  "map_of (members (daemon_to_json m)) ''request_id'' = map_option JStr (addressed_to m)"
  by (cases m) (auto simp: tag_key_def map_add_def split: option.splits)

lemma session_id_member_chat:
  "map_of (members (client_to_json (Chat r sid t))) ''session_id'' = map_option JStr sid"
  by (simp add: tag_key_def map_add_def split: option.splits)

section \<open>The wire protocol's guarantees\<close>

lemma json_finite_skip [simp]:
  "(\<And>x. json_finite (ser x)) \<Longrightarrow> list_all (\<lambda>(_, v). json_finite v) (ser_skip_none k ser x)"
  by (simp add: ser_skip_none_def split: option.splits)

lemma session_info_to_json_is_finite: "json_finite (session_info_to_json s)"
  by (auto simp: session_info_to_json_def ser_skip_none_def ser_f64_def split: option.splits)

lemma daemon_to_json_is_finite: "json_finite (daemon_to_json m)"
  by (cases m)
    (auto simp: ser_variant_def ser_skip_none_def list_all_iff session_info_to_json_is_finite
      chat_message_to_json_def model_info_to_json_def split: option.splits)

text \<open>
  C24: a request that a client writes is read back by the daemon as the very same request, and two
  different requests never have the same wire form.
\<close>

theorem client_message_roundtrip:
  "client_of_json (client_to_json m) = Some m
   \<and> (client_to_json m = client_to_json n \<longleftrightarrow> m = n)"
  using client_roundtrip client_to_json_inject by blast

text \<open>
  C25: a daemon message is read back by a client as the very same message exactly when the floats it
  carries are finite numbers; JSON has no other ones, and \<open>serde_json\<close> writes them as \<open>null\<close>.
\<close>

theorem daemon_message_roundtrip:
  "daemon_of_json (daemon_to_json m) = Some m \<longleftrightarrow> daemon_finite m"
  using daemon_roundtrip_finite daemon_of_json_finite daemon_to_json_is_finite by blast

text \<open>
  A member of a request that no variant knows changes nothing, wherever it stands and whatever
  its value: newer clients can talk to an older daemon.
\<close>

theorem unknown_members_ignored:
  assumes "k \<noteq> ''type''"
    and "k \<notin> {''request_id'', ''session_id'', ''message'', ''title'', ''model''}"
  shows "client_of_json (JObj (xs @ (k, v) # ys)) = client_of_json (JObj (xs @ ys))"
  using assms client_of_json_unknown [of k xs v ys] by (simp add: tag_key_def client_keys_def)

theorem unknown_members_ignored_witness:
  "client_of_json (JObj ([(''type'', JStr ''status'')] @ (''trace'', JArr []) # [(''request_id'', JStr ''r'')]))
     = client_of_json (JObj ([(''type'', JStr ''status'')] @ [(''request_id'', JStr ''r'')]))"
  by (rule unknown_members_ignored) simp_all

text \<open>
  Every reply carries a member \<open>request_id\<close> exactly if it is addressed to a request, with that
  request's id; broadcasts carry none. So a client can correlate replies by that one member.
\<close>

theorem reply_correlation:
  "map_of (members (daemon_to_json m)) ''request_id'' = map_option JStr (addressed_to m)"
  by (rule request_id_member)

end
