(* ===== verification/Mpsc.thy ===== *)
theory Mpsc
  imports Hermes_Prelude
begin

text \<open>
  The channels the daemon's tasks talk over. \<open>tokio::sync::mpsc\<close> is a library the sources only call;
  its documented contract is the locale \<open>fifo_channel\<close>: messages arrive in the order they were sent,
  a send fails exactly when the receiver is gone, and a receive reports the end of the stream exactly
  when every sender is gone and nothing is left in the queue. \<open>chan\<close> is the queue with its two
  liveness facts that the component theories use as the state of one channel, and the locale is
  interpreted on it.
\<close>

datatype 'a recv = Item 'a | Closed | Pending

locale fifo_channel =
  fixes new :: "'c"
    and send :: "'a \<Rightarrow> 'c \<Rightarrow> 'c \<times> bool"
    and recv :: "'c \<Rightarrow> 'c \<times> 'a recv"
    and drop_tx :: "'c \<Rightarrow> 'c"
    and drop_rx :: "'c \<Rightarrow> 'c"
    and contents :: "'c \<Rightarrow> 'a list"
    and senders :: "'c \<Rightarrow> nat"
    and receiving :: "'c \<Rightarrow> bool"
  assumes new_state: "contents new = []" "senders new = 1" "receiving new"
    and send_live: "receiving c \<Longrightarrow> snd (send x c) \<and> contents (fst (send x c)) = contents c @ [x]"
    and send_dead: "\<not> receiving c \<Longrightarrow> send x c = (c, False)"
    and send_frame: "senders (fst (send x c)) = senders c" "receiving (fst (send x c)) = receiving c"
    and recv_item: "contents c = x # xs \<Longrightarrow> snd (recv c) = Item x \<and> contents (fst (recv c)) = xs"
    and recv_none: "contents c = [] \<Longrightarrow> recv c = (c, if senders c = 0 then Closed else Pending)"
    and recv_frame: "senders (fst (recv c)) = senders c" "receiving (fst (recv c)) = receiving c"
    and drop_tx_state: "contents (drop_tx c) = contents c" "senders (drop_tx c) = senders c - 1"
      "receiving (drop_tx c) = receiving c"
    and drop_rx_state: "contents (drop_rx c) = []" "senders (drop_rx c) = senders c"
      "\<not> receiving (drop_rx c)"
begin

text \<open>A burst of sends, and a number of receives.\<close>

lemma contents_send_all:
  "receiving c \<Longrightarrow> contents (fold (\<lambda>x c. fst (send x c)) xs c) = contents c @ xs"
  by (induction xs arbitrary: c) (simp_all add: send_live send_frame)

lemma recv_closed_iff: "snd (recv c) = Closed \<longleftrightarrow> contents c = [] \<and> senders c = 0"
  by (cases "contents c") (simp_all add: recv_none recv_item)

lemma recv_item_iff: "snd (recv c) = Item x \<longleftrightarrow> (\<exists>xs. contents c = x # xs)"
  by (cases "contents c") (auto simp: recv_none recv_item)

lemma recv_all:
  "n \<le> length (contents c) \<Longrightarrow> contents (((\<lambda>c. fst (recv c)) ^^ n) c) = drop n (contents c)"
proof (induction n)
  case (Suc n)
  then have "contents (((\<lambda>c. fst (recv c)) ^^ n) c) = drop n (contents c)" by simp
  moreover from Suc.prems have "drop n (contents c) = contents c ! n # drop (Suc n) (contents c)"
    by (simp add: Cons_nth_drop_Suc)
  ultimately show ?case by (simp add: recv_item)
qed simp

text \<open>Whatever was sent before the last sender went away is received before the end is reported.\<close>

lemma senders_recv_all: "senders (((\<lambda>c. fst (recv c)) ^^ n) c) = senders c"
  by (induction n) (simp_all add: recv_frame)

lemma drained_then_closed:
  assumes "senders c = 1"
  shows "snd (recv (((\<lambda>c. fst (recv c)) ^^ length (contents c)) (drop_tx c))) = Closed"
proof -
  have "length (contents c) \<le> length (contents (drop_tx c))"
    by (simp add: drop_tx_state)
  from recv_all [OF this] assms show ?thesis
    by (simp add: recv_closed_iff senders_recv_all drop_tx_state)
qed

end

section \<open>The channel state\<close>

record 'a chan =
  queue :: "'a list"
  tx_count :: nat
  rx_live :: bool

definition chan_new :: "'a chan" where
  "chan_new = \<lparr>queue = [], tx_count = 1, rx_live = True\<rparr>"

text \<open>A channel that was never created: nothing can be sent or received.\<close>

definition chan_dead :: "'a chan" where
  "chan_dead = \<lparr>queue = [], tx_count = 0, rx_live = False\<rparr>"

definition chan_send :: "'a \<Rightarrow> 'a chan \<Rightarrow> 'a chan \<times> bool" where
  "chan_send x c = (if rx_live c then (c\<lparr>queue := queue c @ [x]\<rparr>, True) else (c, False))"

definition chan_recv :: "'a chan \<Rightarrow> 'a chan \<times> 'a recv" where
  "chan_recv c =
     (case queue c of
        x # xs \<Rightarrow> (c\<lparr>queue := xs\<rparr>, Item x)
      | [] \<Rightarrow> (c, if tx_count c = 0 then Closed else Pending))"

definition chan_drop_tx :: "'a chan \<Rightarrow> 'a chan" where
  "chan_drop_tx c = c\<lparr>tx_count := tx_count c - 1\<rparr>"

definition chan_drop_rx :: "'a chan \<Rightarrow> 'a chan" where
  "chan_drop_rx c = c\<lparr>queue := [], rx_live := False\<rparr>"

interpretation mpsc: fifo_channel chan_new chan_send chan_recv chan_drop_tx chan_drop_rx
    queue tx_count rx_live
  by unfold_locales
    (auto simp: chan_new_def chan_send_def chan_recv_def chan_drop_tx_def chan_drop_rx_def
      split: list.splits)

lemma chan_new_simps [simp, hub_simps]:
  "queue chan_new = []" "tx_count chan_new = 1" "rx_live chan_new"
  by (simp_all add: chan_new_def)

lemma chan_dead_simps [simp, hub_simps]:
  "queue chan_dead = []" "tx_count chan_dead = 0" "\<not> rx_live chan_dead"
  by (simp_all add: chan_dead_def)

lemma chan_send_simps [simp, hub_simps]:
  "queue (fst (chan_send x c)) = (if rx_live c then queue c @ [x] else queue c)"
  "tx_count (fst (chan_send x c)) = tx_count c"
  "rx_live (fst (chan_send x c)) = rx_live c"
  "snd (chan_send x c) = rx_live c"
  by (simp_all add: chan_send_def)

lemma chan_recv_simps [simp, hub_simps]:
  "queue (fst (chan_recv c)) = tl (queue c)"
  "tx_count (fst (chan_recv c)) = tx_count c"
  "rx_live (fst (chan_recv c)) = rx_live c"
  by (simp_all add: chan_recv_def split: list.splits)

lemma chan_drop_simps [simp, hub_simps]:
  "queue (chan_drop_tx c) = queue c"
  "tx_count (chan_drop_tx c) = tx_count c - 1"
  "rx_live (chan_drop_tx c) = rx_live c"
  "queue (chan_drop_rx c) = []"
  "tx_count (chan_drop_rx c) = tx_count c"
  "\<not> rx_live (chan_drop_rx c)"
  by (simp_all add: chan_drop_tx_def chan_drop_rx_def)

lemma chan_recv_ItemD: "snd (chan_recv c) = Item x \<Longrightarrow> queue c = x # tl (queue c)"
  by (auto simp: chan_recv_def split: list.splits if_splits)

end
