(* ===== verification/Bridge.thy ===== *)
theory Bridge
  imports Json_Model Mpsc
begin

text \<open>
  \<open>src/bridge.rs\<close>: the hub that owns the one adapter connection and routes response frames to the
  chats that await them.

  \<open>BridgeHub\<close> holds two mutexes: the sender into the connected adapter's write task, and the map
  from \<open>chat_id\<close> to the sender of that chat's channel. Each method locks one of them for its whole
  effect, so each is one atomic operation here. A sender is a channel number; \<open>to_chans\<close> and
  \<open>from_chans\<close> are the channels themselves with their queues and sender counts, so that replacing
  or removing a sender closes its channel as dropping it does in Rust.
\<close>

section \<open>Frames\<close>

datatype to_adapter =
    Inbound (inbound_chat_id: string) (inbound_text: string) (inbound_message_id: string)

datatype from_adapter =
    Draft string string
  | Send string string
  | Typing string

fun chat_id :: "from_adapter \<Rightarrow> string" where
  "chat_id (Draft cid _) = cid"
| "chat_id (Send cid _) = cid"
| "chat_id (Typing cid) = cid"

fun to_adapter_to_json :: "to_adapter \<Rightarrow> json" where
  "to_adapter_to_json (Inbound cid text mid) =
     ser_variant ''inbound''
       [(''chat_id'', JStr cid), (''text'', JStr text), (''message_id'', JStr mid)]"

definition from_adapter_fields :: "string \<Rightarrow> string list option" where
  "from_adapter_fields tag =
     map_of
       [(''draft'', [''chat_id'', ''text'']), (''send'', [''chat_id'', ''text'']),
        (''typing'', [''chat_id''])] tag"

definition from_adapter_variant :: "string \<Rightarrow> (string \<rightharpoonup> json) \<Rightarrow> from_adapter option" where
  "from_adapter_variant tag f =
     Option.bind (req_field de_str f ''chat_id'') (\<lambda>cid.
       if tag = ''draft'' then map_option (Draft cid) (req_field de_str f ''text'')
       else if tag = ''send'' then map_option (Send cid) (req_field de_str f ''text'')
       else if tag = ''typing'' then Some (Typing cid)
       else None)"

definition from_adapter_of_json :: "json \<Rightarrow> from_adapter option" where
  "from_adapter_of_json v =
     Option.bind (tagged v) (\<lambda>(tag, content).
       Option.bind (from_adapter_fields tag) (\<lambda>ks.
         Option.bind (struct_fields ks content) (from_adapter_variant tag)))"

section \<open>The hub\<close>

record hub =
  adapter :: "nat option"
  routes :: "string \<rightharpoonup> nat"
  to_chans :: "nat \<Rightarrow> to_adapter chan"
  from_chans :: "nat \<Rightarrow> from_adapter chan"
  next_to :: nat
  next_from :: nat

definition hub_new :: hub where
  "hub_new =
     \<lparr>adapter = None, routes = Map.empty, to_chans = (\<lambda>_. chan_dead),
      from_chans = (\<lambda>_. chan_dead), next_to = 0, next_from = 0\<rparr>"

definition is_connected :: "hub \<Rightarrow> bool" where
  "is_connected h = (adapter h \<noteq> None)"

text \<open>Dropping the sender an \<open>Option\<close> or the map held before it was overwritten.\<close>

definition drop_sender :: "nat option \<Rightarrow> (nat \<Rightarrow> 'a chan) \<Rightarrow> nat \<Rightarrow> 'a chan" where
  "drop_sender old cs = (case old of None \<Rightarrow> cs | Some c \<Rightarrow> cs(c := chan_drop_tx (cs c)))"

definition set_adapter :: "nat \<Rightarrow> hub \<Rightarrow> hub" where
  "set_adapter tx h =
     h\<lparr>adapter := Some tx, to_chans := drop_sender (adapter h) (to_chans h)\<rparr>"

definition clear_adapter :: "hub \<Rightarrow> hub" where
  "clear_adapter h = h\<lparr>adapter := None, to_chans := drop_sender (adapter h) (to_chans h)\<rparr>"

definition open_chat :: "string \<Rightarrow> hub \<Rightarrow> nat \<times> hub" where
  "open_chat cid h =
     (let c = next_from h in
      (c, h\<lparr>routes := (routes h)(cid \<mapsto> c),
            from_chans := drop_sender (routes h cid) ((from_chans h)(c := chan_new)),
            next_from := Suc c\<rparr>))"

definition close_chat :: "string \<Rightarrow> hub \<Rightarrow> hub" where
  "close_chat cid h =
     h\<lparr>routes := (routes h)(cid := None), from_chans := drop_sender (routes h cid) (from_chans h)\<rparr>"

definition send_inbound :: "string \<Rightarrow> string \<Rightarrow> string \<Rightarrow> hub \<Rightarrow> hub \<times> bool" where
  "send_inbound cid text message_id h =
     (case adapter h of
        Some tx \<Rightarrow>
          let (c, ok) = chan_send (Inbound cid text message_id) (to_chans h tx)
          in (h\<lparr>to_chans := (to_chans h)(tx := c)\<rparr>, ok)
      | None \<Rightarrow> (h, False))"

definition dispatch :: "from_adapter \<Rightarrow> hub \<Rightarrow> hub" where
  "dispatch frame h =
     (case routes h (chat_id frame) of
        Some tx \<Rightarrow> h\<lparr>from_chans := (from_chans h)(tx := fst (chan_send frame (from_chans h tx)))\<rparr>
      | None \<Rightarrow> h)"

text \<open>The receiving end a chat holds: \<open>frames.next()\<close>, and dropping it when the chat returns.\<close>

definition recv_frame :: "nat \<Rightarrow> hub \<Rightarrow> hub \<times> from_adapter recv" where
  "recv_frame c h =
     (let (ch, r) = chan_recv (from_chans h c) in (h\<lparr>from_chans := (from_chans h)(c := ch)\<rparr>, r))"

definition drop_frames :: "nat \<Rightarrow> hub \<Rightarrow> hub" where
  "drop_frames c h = h\<lparr>from_chans := (from_chans h)(c := chan_drop_rx (from_chans h c))\<rparr>"

section \<open>The adapter's WebSocket\<close>

datatype ws_message = Text string | Close | OtherMessage

text \<open>An item of the socket's stream: a message or a transport error.\<close>

datatype ws_item = WsOk ws_message | WsErr

text \<open>
  \<open>handle_socket\<close>: register a fresh channel as the adapter, read until the peer closes, the stream
  fails or ends, then clear the adapter and abort the writer, which drops the receiving end.
  \<open>parse\<close> stands for the JSON reader.
\<close>

definition socket_open :: "hub \<Rightarrow> nat \<times> hub" where
  "socket_open h =
     (let c = next_to h in
      (c, set_adapter c (h\<lparr>to_chans := (to_chans h)(c := chan_new), next_to := Suc c\<rparr>)))"

definition socket_text :: "(string \<Rightarrow> json option) \<Rightarrow> string \<Rightarrow> hub \<Rightarrow> hub" where
  "socket_text parse t h =
     (case Option.bind (parse t) from_adapter_of_json of
        Some frame \<Rightarrow> dispatch frame h
      | None \<Rightarrow> h)"

fun read_loop :: "(string \<Rightarrow> json option) \<Rightarrow> ws_item list \<Rightarrow> hub \<Rightarrow> hub" where
  "read_loop parse [] h = h"
| "read_loop parse (item # items) h =
     (case item of
        WsOk (Text t) \<Rightarrow> read_loop parse items (socket_text parse t h)
      | WsOk Close \<Rightarrow> h
      | WsErr \<Rightarrow> h
      | WsOk OtherMessage \<Rightarrow> read_loop parse items h)"

definition socket_close :: "nat \<Rightarrow> hub \<Rightarrow> hub" where
  "socket_close c h =
     (let h' = clear_adapter h
      in h'\<lparr>to_chans := (to_chans h')(c := chan_drop_rx (to_chans h' c))\<rparr>)"

definition handle_socket :: "(string \<Rightarrow> json option) \<Rightarrow> ws_item list \<Rightarrow> hub \<Rightarrow> hub" where
  "handle_socket parse items h =
     (let (c, h') = socket_open h in socket_close c (read_loop parse items h'))"

text \<open>\<open>gateway_ws_handler\<close>: the upgraded connection is served by \<open>handle_socket\<close>.\<close>

definition gateway_ws_handler ::
    "((ws_item list \<Rightarrow> hub \<Rightarrow> hub) \<Rightarrow> 'r) \<Rightarrow> (string \<Rightarrow> json option) \<Rightarrow> 'r" where
  "gateway_ws_handler on_upgrade parse = on_upgrade (\<lambda>items h. handle_socket parse items h)"

text \<open>
  One round of the write task: the frame it puts on the socket, or its end when every sender is gone
  or the socket refuses the write (\<open>sent = False\<close>); an ended task drops its receiver.
\<close>

definition writer_round :: "bool \<Rightarrow> nat \<Rightarrow> hub \<Rightarrow> hub \<times> json option" where
  "writer_round sent c h =
     (let (ch, r) = chan_recv (to_chans h c);
          next = h\<lparr>to_chans := (to_chans h)(c := ch)\<rparr>;
          ended = h\<lparr>to_chans := (to_chans h)(c := chan_drop_rx ch)\<rparr>
      in case r of
           Item frame \<Rightarrow>
             if sent then (next, Some (to_adapter_to_json frame)) else (ended, None)
         | Closed \<Rightarrow> (ended, None)
         | Pending \<Rightarrow> (h, None))"

section \<open>Effects of the operations\<close>

lemma drop_sender_apply [simp, hub_simps]:
  "drop_sender old cs c = (if old = Some c then chan_drop_tx (cs c) else cs c)"
  by (simp add: drop_sender_def split: option.splits)

lemma open_chat_simps [simp, hub_simps]:
  "fst (open_chat cid h) = next_from h"
  "adapter (snd (open_chat cid h)) = adapter h"
  "routes (snd (open_chat cid h)) = (routes h)(cid \<mapsto> next_from h)"
  "to_chans (snd (open_chat cid h)) = to_chans h"
  "from_chans (snd (open_chat cid h)) =
     drop_sender (routes h cid) ((from_chans h)(next_from h := chan_new))"
  "next_to (snd (open_chat cid h)) = next_to h"
  "next_from (snd (open_chat cid h)) = Suc (next_from h)"
  by (simp_all add: open_chat_def Let_def)

lemma close_chat_simps [simp, hub_simps]:
  "adapter (close_chat cid h) = adapter h"
  "routes (close_chat cid h) = (routes h)(cid := None)"
  "to_chans (close_chat cid h) = to_chans h"
  "from_chans (close_chat cid h) = drop_sender (routes h cid) (from_chans h)"
  "next_to (close_chat cid h) = next_to h"
  "next_from (close_chat cid h) = next_from h"
  by (simp_all add: close_chat_def)

lemma send_inbound_simps [simp, hub_simps]:
  "adapter (fst (send_inbound cid text mid h)) = adapter h"
  "routes (fst (send_inbound cid text mid h)) = routes h"
  "from_chans (fst (send_inbound cid text mid h)) = from_chans h"
  "next_to (fst (send_inbound cid text mid h)) = next_to h"
  "next_from (fst (send_inbound cid text mid h)) = next_from h"
  by (simp_all add: send_inbound_def Let_def case_prod_beta split: option.splits)

lemma dispatch_simps [simp, hub_simps]:
  "adapter (dispatch f h) = adapter h"
  "routes (dispatch f h) = routes h"
  "to_chans (dispatch f h) = to_chans h"
  "next_to (dispatch f h) = next_to h"
  "next_from (dispatch f h) = next_from h"
  by (simp_all add: dispatch_def split: option.splits)

lemma from_chans_dispatch [simp, hub_simps]:
  "from_chans (dispatch f h) c =
     (if routes h (chat_id f) = Some c then fst (chan_send f (from_chans h c)) else from_chans h c)"
  by (simp add: dispatch_def split: option.splits)

lemma recv_frame_simps [simp, hub_simps]:
  "adapter (fst (recv_frame c h)) = adapter h"
  "routes (fst (recv_frame c h)) = routes h"
  "to_chans (fst (recv_frame c h)) = to_chans h"
  "from_chans (fst (recv_frame c h)) = (from_chans h)(c := fst (chan_recv (from_chans h c)))"
  "next_to (fst (recv_frame c h)) = next_to h"
  "next_from (fst (recv_frame c h)) = next_from h"
  "snd (recv_frame c h) = snd (chan_recv (from_chans h c))"
  by (simp_all add: recv_frame_def Let_def case_prod_beta)

lemma drop_frames_simps [simp, hub_simps]:
  "adapter (drop_frames c h) = adapter h"
  "routes (drop_frames c h) = routes h"
  "to_chans (drop_frames c h) = to_chans h"
  "from_chans (drop_frames c h) = (from_chans h)(c := chan_drop_rx (from_chans h c))"
  "next_to (drop_frames c h) = next_to h"
  "next_from (drop_frames c h) = next_from h"
  by (simp_all add: drop_frames_def)

lemma socket_open_simps [simp, hub_simps]:
  "fst (socket_open h) = next_to h"
  "adapter (snd (socket_open h)) = Some (next_to h)"
  "routes (snd (socket_open h)) = routes h"
  "to_chans (snd (socket_open h)) = drop_sender (adapter h) ((to_chans h)(next_to h := chan_new))"
  "from_chans (snd (socket_open h)) = from_chans h"
  "next_to (snd (socket_open h)) = Suc (next_to h)"
  "next_from (snd (socket_open h)) = next_from h"
  by (simp_all add: socket_open_def set_adapter_def Let_def)

lemma socket_close_simps [simp, hub_simps]:
  "adapter (socket_close c h) = None"
  "routes (socket_close c h) = routes h"
  "from_chans (socket_close c h) = from_chans h"
  "next_to (socket_close c h) = next_to h"
  "next_from (socket_close c h) = next_from h"
  by (simp_all add: socket_close_def clear_adapter_def Let_def)

lemma to_chans_socket_close [simp, hub_simps]:
  "to_chans (socket_close c h) d =
     (let ch = drop_sender (adapter h) (to_chans h) d in if d = c then chan_drop_rx ch else ch)"
  by (simp add: socket_close_def clear_adapter_def Let_def)

lemma writer_round_simps [simp, hub_simps]:
  "adapter (fst (writer_round sent c h)) = adapter h"
  "routes (fst (writer_round sent c h)) = routes h"
  "from_chans (fst (writer_round sent c h)) = from_chans h"
  "next_to (fst (writer_round sent c h)) = next_to h"
  "next_from (fst (writer_round sent c h)) = next_from h"
  by (simp_all add: writer_round_def Let_def case_prod_beta split: recv.splits)

lemma tx_count_writer_round [simp, hub_simps]:
  "tx_count (to_chans (fst (writer_round sent c h)) d) = tx_count (to_chans h d)"
  by (simp add: writer_round_def Let_def case_prod_beta split: recv.splits)

lemma tx_count_send_inbound [simp, hub_simps]:
  "tx_count (to_chans (fst (send_inbound cid text mid h)) d) = tx_count (to_chans h d)"
  by (simp add: send_inbound_def Let_def case_prod_beta split: option.splits)

lemma recv_frame_pair:
  "recv_frame c h = (h', r) \<longleftrightarrow> h' = fst (recv_frame c h) \<and> r = snd (chan_recv (from_chans h c))"
  by (metis fst_conv prod.collapse recv_frame_simps(7) snd_conv)

section \<open>The invariant of the hub\<close>

text \<open>
  Every routed channel has exactly one sender, the one in the map, and a live receiver; no two chat
  ids share a channel; a channel that no id routes to has no sender left, so its chat sees the end of
  its stream; and only frames of the chat's own id wait in its channel. The adapter's sender is the
  only one of its channel.
\<close>

definition route_ok :: "hub \<Rightarrow> string \<Rightarrow> nat \<Rightarrow> bool" where
  "route_ok h k c =
     (c < next_from h \<and> tx_count (from_chans h c) = 1 \<and> rx_live (from_chans h c)
      \<and> (\<forall>f \<in> set (queue (from_chans h c)). chat_id f = k))"

definition hub_inv :: "hub \<Rightarrow> bool" where
  "hub_inv h =
     ((\<forall>k c. routes h k = Some c \<longrightarrow> route_ok h k c)
      \<and> (\<forall>k k' c. routes h k = Some c \<and> routes h k' = Some c \<longrightarrow> k = k')
      \<and> (\<forall>c. (\<forall>k. routes h k \<noteq> Some c) \<longrightarrow> tx_count (from_chans h c) = 0)
      \<and> (\<forall>a. adapter h = Some a \<longrightarrow> a < next_to h \<and> tx_count (to_chans h a) = 1)
      \<and> (\<forall>a. adapter h \<noteq> Some a \<longrightarrow> tx_count (to_chans h a) = 0))"

lemma hub_invD:
  assumes "hub_inv h"
  shows "routes h k = Some c \<Longrightarrow> route_ok h k c"
    and "routes h k = Some c \<Longrightarrow> routes h k' = Some c \<Longrightarrow> k = k'"
    and "(\<And>k. routes h k \<noteq> Some c) \<Longrightarrow> tx_count (from_chans h c) = 0"
    and "adapter h = Some a \<Longrightarrow> a < next_to h \<and> tx_count (to_chans h a) = 1"
    and "adapter h \<noteq> Some a \<Longrightarrow> tx_count (to_chans h a) = 0"
  using assms unfolding hub_inv_def by blast+

lemma hub_inv_fresh: "hub_inv h \<Longrightarrow> routes h k \<noteq> Some (next_from h)"
  using hub_invD(1) [of h k "next_from h"] by (auto simp: route_ok_def)

lemma hub_inv_new: "hub_inv hub_new"
  by (simp add: hub_inv_def hub_new_def)

lemma hub_inv_open_chat:
  assumes inv: "hub_inv h"
  shows "hub_inv (snd (open_chat cid h))"
proof -
  note [simp] = hub_inv_fresh [OF inv] hub_inv_fresh [OF inv, THEN not_sym]
  show ?thesis
    using inv unfolding hub_inv_def route_ok_def
    by (auto simp: less_Suc_eq)
qed

lemma hub_inv_close_chat: "hub_inv h \<Longrightarrow> hub_inv (close_chat cid h)"
  unfolding hub_inv_def route_ok_def by auto

lemma hub_inv_dispatch: "hub_inv h \<Longrightarrow> hub_inv (dispatch f h)"
  unfolding hub_inv_def route_ok_def by auto

lemma hub_inv_recv_frame: "hub_inv h \<Longrightarrow> hub_inv (fst (recv_frame c h))"
  unfolding hub_inv_def route_ok_def by (auto dest: in_set_tl)

lemma hub_inv_drop_frames:
  "hub_inv h \<Longrightarrow> (\<And>k. routes h k \<noteq> Some c) \<Longrightarrow> hub_inv (drop_frames c h)"
  unfolding hub_inv_def route_ok_def by auto

lemma hub_inv_send_inbound: "hub_inv h \<Longrightarrow> hub_inv (fst (send_inbound cid text mid h))"
  unfolding hub_inv_def route_ok_def by auto

lemma hub_inv_socket_open: "hub_inv h \<Longrightarrow> hub_inv (snd (socket_open h))"
  unfolding hub_inv_def route_ok_def by (auto simp: less_Suc_eq)

lemma hub_inv_socket_close: "hub_inv h \<Longrightarrow> hub_inv (socket_close c h)"
  unfolding hub_inv_def route_ok_def by (auto simp: Let_def)

lemma hub_inv_writer_round: "hub_inv h \<Longrightarrow> hub_inv (fst (writer_round sent c h))"
  unfolding hub_inv_def route_ok_def by auto

lemma hub_inv_socket_text: "hub_inv h \<Longrightarrow> hub_inv (socket_text parse t h)"
  by (simp add: socket_text_def hub_inv_dispatch split: option.splits)

lemma hub_inv_read_loop: "hub_inv h \<Longrightarrow> hub_inv (read_loop parse items h)"
  by (induction parse items h rule: read_loop.induct)
    (auto simp: hub_inv_socket_text split: ws_item.splits ws_message.splits)

lemmas hub_inv_intros =
  hub_inv_new hub_inv_open_chat hub_inv_close_chat hub_inv_dispatch hub_inv_recv_frame
  hub_inv_drop_frames hub_inv_send_inbound hub_inv_socket_open hub_inv_socket_close
  hub_inv_writer_round hub_inv_read_loop

lemma hub_inv_handle_socket: "hub_inv h \<Longrightarrow> hub_inv (handle_socket parse items h)"
  by (simp add: handle_socket_def Let_def case_prod_beta hub_inv_intros)

section \<open>The routing contract\<close>

text \<open>
  What a chat relies on from the hub. \<open>routed\<close> is the channel an id leads to, \<open>pending\<close> the frames
  that wait in a channel.
\<close>

locale chat_routing =
  fixes inv :: "'h \<Rightarrow> bool"
    and routed :: "'h \<Rightarrow> string \<Rightarrow> nat option"
    and pending :: "'h \<Rightarrow> nat \<Rightarrow> 'f list"
    and key :: "'f \<Rightarrow> string"
    and opn :: "string \<Rightarrow> 'h \<Rightarrow> nat \<times> 'h"
    and cls :: "string \<Rightarrow> 'h \<Rightarrow> 'h"
    and disp :: "'f \<Rightarrow> 'h \<Rightarrow> 'h"
  assumes inv_opn: "inv h \<Longrightarrow> inv (snd (opn k h))"
    and inv_cls: "inv h \<Longrightarrow> inv (cls k h)"
    and inv_disp: "inv h \<Longrightarrow> inv (disp f h)"
    and routed_inj: "inv h \<Longrightarrow> routed h k = Some c \<Longrightarrow> routed h k' = Some c \<Longrightarrow> k = k'"
    and opn_fresh: "inv h \<Longrightarrow> routed h k' \<noteq> Some (fst (opn k h))"
    and opn_routed: "routed (snd (opn k h)) = (routed h)(k \<mapsto> fst (opn k h))"
    and opn_pending: "pending (snd (opn k h)) = (pending h)(fst (opn k h) := [])"
    and cls_routed: "routed (cls k h) = (routed h)(k := None)"
    and cls_pending: "pending (cls k h) = pending h"
    and disp_routed: "routed (disp f h) = routed h"
    and disp_pending: "inv h \<Longrightarrow> pending (disp f h) =
      (case routed h (key f) of
         None \<Rightarrow> pending h
       | Some c \<Rightarrow> (pending h)(c := pending h c @ [f]))"
begin

lemma inv_disps: "inv h \<Longrightarrow> inv (fold disp fs h)"
  by (induction fs arbitrary: h) (simp_all add: inv_disp)

lemma routed_disps: "routed (fold disp fs h) = routed h"
  by (induction fs arbitrary: h) (simp_all add: disp_routed)

text \<open>A routed chat is handed exactly the frames of its own id, in the order they came.\<close>

lemma pending_disps:
  assumes "inv h" and "routed h k = Some c"
  shows "pending (fold disp fs h) c = pending h c @ filter (\<lambda>f. key f = k) fs"
  using assms
proof (induction fs arbitrary: h)
  case (Cons f fs)
  have other: "routed h (key f) = Some c \<Longrightarrow> key f = k"
    using routed_inj [OF Cons.prems(1) _ Cons.prems(2)] .
  have "pending (disp f h) c = pending h c @ (if key f = k then [f] else [])"
  proof (cases "key f = k")
    case True
    with Cons.prems show ?thesis by (simp add: disp_pending)
  next
    case False
    with other have "routed h (key f) \<noteq> Some c" by blast
    with False Cons.prems(1) show ?thesis by (simp add: disp_pending split: option.split)
  qed
  with Cons.IH [of "disp f h"] Cons.prems show ?case
    by (simp add: inv_disp disp_routed)
qed simp

text \<open>A chat that has just opened starts from nothing: old frames of its id are not replayed.\<close>

lemma opened_relay:
  assumes "inv h"
  shows "pending (fold disp fs (snd (opn k h))) (fst (opn k h)) = filter (\<lambda>f. key f = k) fs"
  using pending_disps [of "snd (opn k h)" k "fst (opn k h)" fs] assms
  by (simp add: inv_opn opn_routed opn_pending)

text \<open>A channel no id leads to receives nothing any more.\<close>

lemma unrouted_silent:
  assumes "inv h" and "Some c \<notin> range (routed h)"
  shows "pending (fold disp fs h) c = pending h c"
  using assms
proof (induction fs arbitrary: h)
  case (Cons f fs)
  from Cons.prems(2) have "routed h (key f) \<noteq> Some c" by (metis rangeI)
  with Cons.prems(1) have "pending (disp f h) c = pending h c"
    by (simp add: disp_pending split: option.splits)
  with Cons show ?case by (simp add: inv_disp disp_routed)
qed simp

end

definition pending_frames :: "hub \<Rightarrow> nat \<Rightarrow> from_adapter list" where
  "pending_frames h c = queue (from_chans h c)"

interpretation routing: chat_routing hub_inv routes pending_frames chat_id open_chat close_chat
    dispatch
proof
  fix h :: hub and k k' c
  show "hub_inv h \<Longrightarrow> routes h k = Some c \<Longrightarrow> routes h k' = Some c \<Longrightarrow> k = k'"
    by (rule hub_invD(2))
  show "hub_inv h \<Longrightarrow> routes h k' \<noteq> Some (fst (open_chat k h))"
    by (simp add: hub_inv_fresh)
next
  fix h :: hub and f
  assume "hub_inv h"
  then show "pending_frames (dispatch f h) =
      (case routes h (chat_id f) of None \<Rightarrow> pending_frames h
       | Some c \<Rightarrow> (pending_frames h)(c := pending_frames h c @ [f]))"
    using hub_invD(1) [of h "chat_id f"]
    by (auto simp: pending_frames_def fun_eq_iff route_ok_def split: option.splits)
qed (auto simp: hub_inv_intros pending_frames_def fun_eq_iff)

section \<open>The abstract hub\<close>

text \<open>
  What the bridge promises, without channels: whether an adapter is connected, and a mailbox for each
  chat id with a turn in flight.
\<close>

record mailboxes =
  connected :: bool
  mail :: "string \<rightharpoonup> from_adapter list"

definition hub_abs :: "hub \<Rightarrow> mailboxes" where
  "hub_abs h =
     \<lparr>connected = is_connected h, mail = (\<lambda>k. map_option (pending_frames h) (routes h k))\<rparr>"

definition spec_open :: "string \<Rightarrow> mailboxes \<Rightarrow> mailboxes" where
  "spec_open k m = m\<lparr>mail := (mail m)(k \<mapsto> [])\<rparr>"

definition spec_close :: "string \<Rightarrow> mailboxes \<Rightarrow> mailboxes" where
  "spec_close k m = m\<lparr>mail := (mail m)(k := None)\<rparr>"

definition spec_dispatch :: "from_adapter \<Rightarrow> mailboxes \<Rightarrow> mailboxes" where
  "spec_dispatch f m =
     m\<lparr>mail := (mail m)(chat_id f := map_option (\<lambda>fs. fs @ [f]) (mail m (chat_id f)))\<rparr>"

lemma hub_abs_open: "hub_inv h \<Longrightarrow> hub_abs (snd (open_chat k h)) = spec_open k (hub_abs h)"
  by (auto simp: hub_abs_def spec_open_def is_connected_def routing.opn_pending fun_eq_iff
      pending_frames_def hub_inv_fresh intro!: option.map_cong)

lemma hub_abs_close: "hub_abs (close_chat k h) = spec_close k (hub_abs h)"
  by (auto simp: hub_abs_def spec_close_def is_connected_def routing.cls_pending fun_eq_iff)

lemma hub_abs_dispatch:
  assumes inv: "hub_inv h"
  shows "hub_abs (dispatch f h) = spec_dispatch f (hub_abs h)"
proof -
  have "map_option (pending_frames (dispatch f h)) (routes h k) =
      (if k = chat_id f then map_option (\<lambda>fs. fs @ [f]) (map_option (pending_frames h) (routes h k))
       else map_option (pending_frames h) (routes h k))" for k
    using hub_invD(2) [OF inv, of k _ "chat_id f"]
    by (cases "routes h k") (auto simp: routing.disp_pending [OF inv] split: option.splits)
  then show ?thesis
    by (simp add: hub_abs_def spec_dispatch_def is_connected_def fun_eq_iff)
qed

lemma hub_abs_sockets:
  "hub_abs (snd (socket_open h)) = (hub_abs h)\<lparr>connected := True\<rparr>"
  "hub_abs (socket_close c h) = (hub_abs h)\<lparr>connected := False\<rparr>"
  "hub_abs (fst (send_inbound cid text mid h)) = hub_abs h"
  by (simp_all add: hub_abs_def is_connected_def pending_frames_def [abs_def])

section \<open>The bridge's guarantees\<close>

text \<open>
  C18: seen through \<open>hub_abs\<close>, the hub is a set of mailboxes: opening a chat gives it an empty mailbox
  in place of any older one, closing removes it, a frame goes to the end of its chat's mailbox if
  there is one and is dropped otherwise, and adapters come and go without touching any mailbox.
\<close>

theorem hub_refines_mailboxes:
  assumes "hub_inv h"
  shows "hub_abs (snd (open_chat k h)) = spec_open k (hub_abs h)
    \<and> hub_abs (close_chat k h) = spec_close k (hub_abs h)
    \<and> hub_abs (dispatch f h) = spec_dispatch f (hub_abs h)
    \<and> hub_abs (snd (socket_open h)) = (hub_abs h)\<lparr>connected := True\<rparr>
    \<and> hub_abs (socket_close c h) = (hub_abs h)\<lparr>connected := False\<rparr>"
  using assms hub_abs_open hub_abs_close hub_abs_dispatch hub_abs_sockets(1,2) by simp

theorem hub_refines_mailboxes_witness:
  "hub_abs (dispatch (Typing ''c'') hub_new) = spec_dispatch (Typing ''c'') (hub_abs hub_new)"
  using hub_refines_mailboxes [OF hub_inv_new, where f = "Typing ''c''"] by blast

text \<open>
  Whatever waited for a chat id before, a chat that opens it is handed exactly the frames of its
  own id that arrive afterwards, all of them and in order.
\<close>

theorem opened_chat_gets_own_frames:
  assumes "hub_inv h"
  shows "pending_frames (fold dispatch fs (snd (open_chat k h))) (fst (open_chat k h))
    = filter (\<lambda>f. chat_id f = k) fs"
  using assms by (rule routing.opened_relay)

theorem opened_chat_gets_own_frames_witness:
  "pending_frames (fold dispatch [Send ''a'' ''x'', Typing ''b'', Typing ''a'']
       (snd (open_chat ''a'' hub_new))) (fst (open_chat ''a'' hub_new))
     = [Send ''a'' ''x'', Typing ''a'']"
  using opened_chat_gets_own_frames [OF hub_inv_new,
      of "[Send ''a'' ''x'', Typing ''b'', Typing ''a'']" "''a''"] by simp

text \<open>
  A message handed to the hub is accepted exactly if an adapter is connected whose write task
  still runs; then it is the last frame in that adapter's queue, and otherwise nothing changes.
\<close>

theorem inbound_accepted_iff_adapter:
  "snd (send_inbound cid body mid h) = (\<exists>a. adapter h = Some a \<and> rx_live (to_chans h a))
   \<and> (case adapter h of
        None \<Rightarrow> fst (send_inbound cid body mid h) = h
      | Some a \<Rightarrow> queue (to_chans (fst (send_inbound cid body mid h)) a) =
          queue (to_chans h a) @ (if rx_live (to_chans h a) then [Inbound cid body mid] else []))"
  by (simp add: send_inbound_def Let_def case_prod_beta split: option.split)

end
