(* ===== verification/Rest_Clients.thy ===== *)
theory Rest_Clients
  imports Protocol
begin

text \<open>
  The HTTP clients: \<open>src/hermes/client.rs\<close> (sessions, history, health of the Hermes API server),
  \<open>src/hermes/session.rs\<close> (chat ids the daemon mints) and \<open>src/ollama.rs\<close> (the model catalog).

  \<open>reqwest\<close> and the JSON reader are libraries: \<open>http\<close> collects what a client uses of them, and is an
  argument of every operation. \<open>http_send\<close> gives the transport error or the response of a GET
  request, \<open>http_parse\<close> the value of a body, and \<open>http_body_error\<close> the text of the error that
  \<open>Response::json\<close> reports for a body that cannot be read or decoded.
\<close>

record http_request =
  rq_url :: string
  rq_bearer :: "string option"
  rq_timeout :: nat

record http_response =
  rs_status :: u16
  rs_body :: "string option"

record http =
  http_send :: "http_request \<Rightarrow> string + http_response"
  http_parse :: "string \<Rightarrow> json option"
  http_body_error :: string

text \<open>\<open>StatusCode::is_success\<close>\<close>

definition is_success :: "u16 \<Rightarrow> bool" where
  "is_success s = (200 \<le> s \<and> s < 300)"

text \<open>\<open>resp.json::<T>()\<close> with the reader of \<open>T\<close>\<close>

definition json_body :: "http \<Rightarrow> (json \<Rightarrow> 'a option) \<Rightarrow> http_response \<Rightarrow> string + 'a" where
  "json_body env de resp =
     (case Option.bind (Option.bind (rs_body resp) (http_parse env)) de of
        Some x \<Rightarrow> Inr x
      | None \<Rightarrow> Inl (http_body_error env))"

text \<open>The wrapper structs read the member \<open>data\<close>.\<close>

definition de_data :: "(json \<Rightarrow> 'a option) \<Rightarrow> json \<Rightarrow> 'a list option" where
  "de_data de v =
     Option.bind (struct_fields [''data''] v) (\<lambda>f. req_field (de_vec de) f ''data'')"

section \<open>The Hermes client\<close>

datatype hermes_error =
    HermesTransport string
  | HermesAuth
  | HermesSessionNotFound
  | HermesStatus u16 string

fun hermes_error_text :: "hermes_error \<Rightarrow> string" where
  "hermes_error_text (HermesTransport e) = ''HTTP transport error: '' @ e"
| "hermes_error_text HermesAuth = ''authentication failed (401): check the Hermes API key''"
| "hermes_error_text HermesSessionNotFound = ''session not found (404)''"
| "hermes_error_text (HermesStatus status body) =
     ''Hermes returned '' @ dec (unat status) @ '': '' @ body"

record hermes_client =
  hc_base_url :: string
  hc_api_key :: string

text \<open>\<open>build\<close> is what \<open>reqwest::Client::builder().build()\<close> answers.\<close>

definition hermes_client_new ::
    "string + unit \<Rightarrow> string \<Rightarrow> string \<Rightarrow> hermes_error + hermes_client" where
  "hermes_client_new build base_url api_key =
     (case build of
        Inl e \<Rightarrow> Inl (HermesTransport e)
      | Inr _ \<Rightarrow>
          Inr \<lparr>hc_base_url = trim_end_matches (CHR ''/'') base_url, hc_api_key = api_key\<rparr>)"

definition hermes_url :: "hermes_client \<Rightarrow> string \<Rightarrow> string" where
  "hermes_url c path = hc_base_url c @ path"

definition health :: "http \<Rightarrow> hermes_client \<Rightarrow> bool" where
  "health env c =
     (case http_send env
        \<lparr>rq_url = hermes_url c ''/health'', rq_bearer = None, rq_timeout = 5\<rparr> of
        Inr r \<Rightarrow> is_success (rs_status r)
      | Inl _ \<Rightarrow> False)"

definition check_status :: "http_response \<Rightarrow> hermes_error + http_response" where
  "check_status resp =
     (let status = rs_status resp in
      if is_success status then Inr resp
      else if status = 401 then Inl HermesAuth
      else if status = 404 then Inl HermesSessionNotFound
      else Inl (HermesStatus status (unwrap_or [] (rs_body resp))))"

text \<open>An authenticated GET, its status check and the reading of its body.\<close>

definition hermes_get ::
    "http \<Rightarrow> hermes_client \<Rightarrow> string \<Rightarrow> (json \<Rightarrow> 'a option) \<Rightarrow> hermes_error + 'a" where
  "hermes_get env c path de =
     (case http_send env
        \<lparr>rq_url = hermes_url c path, rq_bearer = Some (hc_api_key c), rq_timeout = 15\<rparr> of
        Inl e \<Rightarrow> Inl (HermesTransport e)
      | Inr resp \<Rightarrow>
          (case check_status resp of
             Inl e \<Rightarrow> Inl e
           | Inr resp \<Rightarrow>
               (case json_body env de resp of
                  Inl e \<Rightarrow> Inl (HermesTransport e)
                | Inr x \<Rightarrow> Inr x)))"

definition list_sessions :: "http \<Rightarrow> hermes_client \<Rightarrow> hermes_error + session_info list" where
  "list_sessions env c = hermes_get env c ''/api/sessions'' (de_data session_info_of_json)"

text \<open>A history row: \<open>content\<close> may be any value and is \<open>null\<close> when absent.\<close>

record raw_msg =
  rm_role :: string
  rm_content :: json

definition raw_msg_of_json :: "json \<Rightarrow> raw_msg option" where
  "raw_msg_of_json v =
     Option.bind (struct_fields [''role'', ''content''] v) (\<lambda>f.
       map_option (\<lambda>r. \<lparr>rm_role = r, rm_content = unwrap_or JNull (f ''content'')\<rparr>)
         (req_field de_str f ''role''))"

definition is_chat_role :: "string \<Rightarrow> bool" where
  "is_chat_role r = (r = ''user'' \<or> r = ''assistant'')"

definition keep_text :: "raw_msg \<Rightarrow> chat_message option" where
  "keep_text m =
     (case de_str (rm_content m) of
        None \<Rightarrow> None
      | Some s \<Rightarrow>
          let content = trim s in
          if content \<noteq> [] then Some \<lparr>cm_role = rm_role m, cm_content = content\<rparr> else None)"

definition chat_rows :: "raw_msg list \<Rightarrow> chat_message list" where
  "chat_rows rows = List.map_filter keep_text (filter (\<lambda>m. is_chat_role (rm_role m)) rows)"

definition get_messages ::
    "http \<Rightarrow> hermes_client \<Rightarrow> string \<Rightarrow> hermes_error + chat_message list" where
  "get_messages env c session_id =
     (case hermes_get env c (''/api/sessions/'' @ session_id @ ''/messages'')
             (de_data raw_msg_of_json) of
        Inl e \<Rightarrow> Inl e
      | Inr rows \<Rightarrow> Inr (chat_rows rows))"

section \<open>Minted chat ids\<close>

definition desktop_session_prefix :: string where
  "desktop_session_prefix = ''desktop_''"

text \<open>
  \<open>now\<close> is the number of seconds since the epoch, \<open>None\<close> for a clock set before it; \<open>rand\<close> gives the
  bytes of the random UUID.
\<close>

definition new_desktop_session_id :: "u64 option \<Rightarrow> (nat \<Rightarrow> u8) \<Rightarrow> string" where
  "new_desktop_session_id now rand =
     (let ts = unwrap_or 0 now in
      desktop_session_prefix @ dec (unat ts) @ ''_''
      @ hex02 (rand 0) @ hex02 (rand 1) @ hex02 (rand 2) @ hex02 (rand 3))"

section \<open>The ollama-router client\<close>

datatype ollama_error = OllamaTransport string | OllamaStatus u16

fun ollama_error_text :: "ollama_error \<Rightarrow> string" where
  "ollama_error_text (OllamaTransport e) = ''HTTP transport error: '' @ e"
| "ollama_error_text (OllamaStatus status) = ''ollama-router returned '' @ dec (unat status)"

record ollama_client =
  oc_base_url :: string
  oc_token :: "string option"

definition ollama_client_new ::
    "string + unit \<Rightarrow> string \<Rightarrow> string option \<Rightarrow> ollama_error + ollama_client" where
  "ollama_client_new build base_url token =
     (case build of
        Inl e \<Rightarrow> Inl (OllamaTransport e)
      | Inr _ \<Rightarrow> Inr \<lparr>oc_base_url = trim_end_matches (CHR ''/'') base_url, oc_token = token\<rparr>)"

definition ollama_request :: "ollama_client \<Rightarrow> string \<Rightarrow> http_request" where
  "ollama_request c path =
     \<lparr>rq_url = oc_base_url c @ path, rq_bearer = oc_token c, rq_timeout = 10\<rparr>"

definition ollama_get ::
    "http \<Rightarrow> ollama_client \<Rightarrow> string \<Rightarrow> (json \<Rightarrow> 'a option) \<Rightarrow> ollama_error + 'a" where
  "ollama_get env c path de =
     (case http_send env (ollama_request c path) of
        Inl e \<Rightarrow> Inl (OllamaTransport e)
      | Inr resp \<Rightarrow>
          if \<not> is_success (rs_status resp) then Inl (OllamaStatus (rs_status resp))
          else (case json_body env de resp of
                  Inl e \<Rightarrow> Inl (OllamaTransport e)
                | Inr x \<Rightarrow> Inr x))"

definition v1_model_of_json :: "json \<Rightarrow> string option" where
  "v1_model_of_json v =
     Option.bind (struct_fields [''id''] v) (\<lambda>f. req_field de_str f ''id'')"

text \<open>The names one row of \<open>/api/ps\<close> contributes: \<open>name\<close> and \<open>model\<close>, where present.\<close>

definition ps_model_of_json :: "json \<Rightarrow> string list option" where
  "ps_model_of_json v =
     Option.bind (struct_fields [''name'', ''model''] v) (\<lambda>f.
       ap2 (\<lambda>n m. List.map_filter id [n, m])
         (opt_field de_str f ''name'') (opt_field de_str f ''model''))"

definition api_ps_of_json :: "json \<Rightarrow> string list list option" where
  "api_ps_of_json v =
     Option.bind (struct_fields [''models''] v) (\<lambda>f.
       case f ''models'' of None \<Rightarrow> Some [] | Some w \<Rightarrow> de_vec ps_model_of_json w)"

definition loaded_set :: "http \<Rightarrow> ollama_client \<Rightarrow> ollama_error + string list" where
  "loaded_set env c =
     (case ollama_get env c ''/api/ps'' api_ps_of_json of
        Inl e \<Rightarrow> Inl e
      | Inr rows \<Rightarrow> Inr (concat rows))"

definition list_models :: "http \<Rightarrow> ollama_client \<Rightarrow> ollama_error + model_info list" where
  "list_models env c =
     (case ollama_get env c ''/v1/models'' (de_data v1_model_of_json) of
        Inl e \<Rightarrow> Inl e
      | Inr catalog \<Rightarrow>
          let loaded = (case loaded_set env c of Inr l \<Rightarrow> l | Inl _ \<Rightarrow> []) in
          Inr (map (\<lambda>m. \<lparr>mi_id = m, mi_loaded = (m \<in> set loaded), mi_active = False\<rparr>) catalog))"

section \<open>Properties of the clients\<close>

lemma check_status_simps [simp]:
  "is_success (rs_status r) \<Longrightarrow> check_status r = Inr r"
  "\<not> is_success (rs_status r) \<Longrightarrow> \<exists>e. check_status r = Inl e"
  by (auto simp: check_status_def Let_def)

text \<open>The digits of the time stamp end at the second underscore, so an id determines its parts.\<close>

lemma underscore_not_digit: "CHR ''_'' \<notin> set (dec n)"
  using dec_digits [of "CHR ''_''" n] by (auto simp: is_digit_def)

lemma session_id_inject:
  "new_desktop_session_id t r = new_desktop_session_id t' r' \<longleftrightarrow>
     unwrap_or 0 t = unwrap_or 0 t' \<and> r 0 = r' 0 \<and> r 1 = r' 1 \<and> r 2 = r' 2 \<and> r 3 = r' 3"
proof -
  let ?tail = "\<lambda>r :: nat \<Rightarrow> u8. hex02 (r 0) @ hex02 (r 1) @ hex02 (r 2) @ hex02 (r 3)"
  have "dec m @ CHR ''_'' # ?tail r = dec n @ CHR ''_'' # ?tail r'
      \<longleftrightarrow> m = n \<and> ?tail r = ?tail r'" for m n
    using append_sep_inject [OF underscore_not_digit underscore_not_digit, of m "?tail r" n "?tail r'"]
    by auto
  then show ?thesis
    by (auto simp: new_desktop_session_id_def Let_def word_unat_eq_iff)
qed

lemma session_id_shape:
  "\<exists>ts hx. new_desktop_session_id now rand = desktop_session_prefix @ ts @ ''_'' @ hx
     \<and> ts \<noteq> [] \<and> list_all is_digit ts \<and> length hx = 8 \<and> list_all is_hex_digit hx"
proof -
  let ?ts = "dec (unat (unwrap_or 0 now))"
  let ?hx = "hex02 (rand 0) @ hex02 (rand 1) @ hex02 (rand 2) @ hex02 (rand 3)"
  have "new_desktop_session_id now rand = desktop_session_prefix @ ?ts @ ''_'' @ ?hx"
    by (simp add: new_desktop_session_id_def Let_def)
  moreover have "list_all is_digit ?ts" and "list_all is_hex_digit ?hx"
    by (auto simp: list_all_iff dec_digits hex02_digits)
  moreover have "length ?hx = 8" and "?ts \<noteq> []" by simp_all
  ultimately show ?thesis by blast
qed

lemma list_models_ids:
  assumes "list_models env c = Inr ms"
  shows "ollama_get env c ''/v1/models'' (de_data v1_model_of_json) = Inr (map mi_id ms)"
    and "m \<in> set ms \<Longrightarrow> \<not> mi_active m"
    and "m \<in> set ms \<Longrightarrow> mi_loaded m \<longleftrightarrow> (\<exists>l. loaded_set env c = Inr l \<and> mi_id m \<in> set l)"
  using assms by (cases "loaded_set env c"; auto simp: list_models_def Let_def comp_def split: sum.splits)+

section \<open>The REST clients' guarantees\<close>

text \<open>
  The id minted for a conversation is \<open>desktop_\<close>, the seconds since the epoch in decimal, an
  underscore and eight hexadecimal digits.
\<close>

theorem minted_id_shape:
  "\<exists>ts hx. new_desktop_session_id now rand = ''desktop_'' @ ts @ ''_'' @ hx
     \<and> ts = dec (unat (unwrap_or 0 now)) \<and> list_all is_digit ts
     \<and> length hx = 8 \<and> list_all is_hex_digit hx"
proof -
  let ?hx = "hex02 (rand 0) @ hex02 (rand 1) @ hex02 (rand 2) @ hex02 (rand 3)"
  have "list_all is_digit (dec (unat (unwrap_or 0 now)))" and "list_all is_hex_digit ?hx"
    by (auto simp: list_all_iff dec_digits hex02_digits)
  moreover have "new_desktop_session_id now rand =
      ''desktop_'' @ dec (unat (unwrap_or 0 now)) @ ''_'' @ ?hx"
    by (simp add: new_desktop_session_id_def desktop_session_prefix_def Let_def)
  moreover have "length ?hx = 8" by simp
  ultimately show ?thesis by blast
qed

text \<open>
  C40: Two minted ids are equal only when minted in the same second from the same four random bytes:
  nothing is lost in the formatting. (A clock before the epoch counts as second 0.)
\<close>

theorem minted_ids_collide_iff:
  "new_desktop_session_id t r = new_desktop_session_id t' r' \<longleftrightarrow>
     unwrap_or 0 t = unwrap_or 0 t' \<and> (\<forall>i \<in> {0, 1, 2, 3}. r i = r' i)"
  by (simp add: session_id_inject)

theorem minted_ids_collide_iff_witness:
  "new_desktop_session_id (Some 7) (\<lambda>_. 1) \<noteq> new_desktop_session_id (Some 7) (\<lambda>i. if i = 3 then 2 else 1)"
  by (subst minted_ids_collide_iff) simp

text \<open>
  An authenticated call succeeds exactly when the transport does, the status is 2xx and the body
  reads as expected; 401 and 404 have their own errors, every other status is reported with its body,
  whatever the body is.
\<close>

theorem hermes_get_outcome:
  "hermes_get env c path de =
     (case http_send env \<lparr>rq_url = hc_base_url c @ path, rq_bearer = Some (hc_api_key c), rq_timeout = 15\<rparr> of
        Inl e \<Rightarrow> Inl (HermesTransport e)
      | Inr r \<Rightarrow>
          if rs_status r = 401 then Inl HermesAuth
          else if rs_status r = 404 then Inl HermesSessionNotFound
          else if rs_status r < 200 \<or> 300 \<le> rs_status r
            then Inl (HermesStatus (rs_status r) (unwrap_or [] (rs_body r)))
          else (case json_body env de r of Inl e \<Rightarrow> Inl (HermesTransport e) | Inr x \<Rightarrow> Inr x))"
  by (auto simp: hermes_get_def hermes_url_def check_status_def is_success_def Let_def
      split: sum.splits)

text \<open>The rows that are kept, written as a comprehension over the server's rows.\<close>

lemma chat_rows_comprehension:
  "chat_rows rows =
     [\<lparr>cm_role = rm_role row, cm_content = trim s\<rparr>.
        row \<leftarrow> rows, rm_role row \<in> {''user'', ''assistant''}, JStr s \<leftarrow> [rm_content row], trim s \<noteq> []]"
proof (induction rows)
  case (Cons row rows)
  then show ?case
    by (cases "rm_content row")
      (simp_all add: chat_rows_def keep_text_def de_str_def is_chat_role_def List.map_filter_simps Let_def)
qed (simp add: chat_rows_def List.map_filter_simps)

text \<open>
  C37: the history a client is given is, row for row in the server's order, what a user or the assistant
  said, trimmed: every row of the server's reply with one of these roles and a text that is not blank gives
  exactly one entry, with its role and its trimmed text, and no other row gives any.
\<close>

theorem history_is_chat_text:
  assumes "get_messages env c session_id = Inr ms"
  shows "\<exists>rows. hermes_get env c (''/api/sessions/'' @ session_id @ ''/messages'')
           (de_data raw_msg_of_json) = Inr rows
    \<and> ms = [\<lparr>cm_role = rm_role row, cm_content = trim s\<rparr>.
             row \<leftarrow> rows, rm_role row \<in> {''user'', ''assistant''}, JStr s \<leftarrow> [rm_content row], trim s \<noteq> []]"
proof -
  from assms obtain rows where "hermes_get env c (''/api/sessions/'' @ session_id @ ''/messages'')
      (de_data raw_msg_of_json) = Inr rows" and "ms = chat_rows rows"
    by (auto simp: get_messages_def split: sum.splits)
  with chat_rows_comprehension show ?thesis by blast
qed

text \<open>A server that answers every call with the same value.\<close>

definition fixed_http :: "json \<Rightarrow> http" where
  "fixed_http v =
     \<lparr>http_send = (\<lambda>_. Inr \<lparr>rs_status = 200, rs_body = Some ''body''\<rparr>), http_parse = (\<lambda>_. Some v),
      http_body_error = ''unreadable''\<rparr>"

lemma hermes_get_fixed:
  "de v = Some x \<Longrightarrow> hermes_get (fixed_http v) c path de = Inr x"
  by (simp add: hermes_get_def fixed_http_def check_status_def is_success_def json_body_def
      word_le_nat_alt word_less_nat_alt)

lemma ollama_get_fixed:
  "de v = Some x \<Longrightarrow> ollama_get (fixed_http v) c path de = Inr x"
  by (simp add: ollama_get_def fixed_http_def is_success_def json_body_def
      word_le_nat_alt word_less_nat_alt)

theorem history_is_chat_text_witness:
  "\<exists>env rows. hermes_get env \<lparr>hc_base_url = ''http://h'', hc_api_key = ''k''\<rparr> ''/api/sessions/s/messages''
       (de_data raw_msg_of_json) = Inr rows
     \<and> [\<lparr>cm_role = rm_role row, cm_content = trim s\<rparr>.
          row \<leftarrow> rows, rm_role row \<in> {''user'', ''assistant''}, JStr s \<leftarrow> [rm_content row], trim s \<noteq> []]
       = [\<lparr>cm_role = ''user'', cm_content = ''hi''\<rparr>, \<lparr>cm_role = ''assistant'', cm_content = ''yes''\<rparr>]"
proof -
  let ?row = "\<lambda>r v. JObj [(''role'', JStr r), (''content'', v)]"
  let ?v = "JObj [(''data'', JArr [?row ''user'' (JStr '' hi ''), ?row ''tool'' JNull, ?row ''assistant'' (JStr ''yes'')])]"
  have "de_data raw_msg_of_json ?v = Some [\<lparr>rm_role = ''user'', rm_content = JStr '' hi ''\<rparr>,
      \<lparr>rm_role = ''tool'', rm_content = JNull\<rparr>, \<lparr>rm_role = ''assistant'', rm_content = JStr ''yes''\<rparr>]"
    by (simp add: de_data_def struct_fields_def req_field_def raw_msg_of_json_def de_vec_def)
  note got = hermes_get_fixed [where de = "de_data raw_msg_of_json", OF this]
  have "trim '' hi '' = ''hi''" "trim ''yes'' = ''yes''" by code_simp+
  with got have "get_messages (fixed_http ?v) \<lparr>hc_base_url = ''http://h'', hc_api_key = ''k''\<rparr> ''s''
      = Inr [\<lparr>cm_role = ''user'', cm_content = ''hi''\<rparr>, \<lparr>cm_role = ''assistant'', cm_content = ''yes''\<rparr>]"
    by (simp add: get_messages_def chat_rows_def keep_text_def is_chat_role_def List.map_filter_simps)
  from history_is_chat_text [OF this] show ?thesis by force
qed

text \<open>
  The model list has the catalog's ids in the catalog's order; a model is marked loaded exactly
  if the list of running models could be read and names it, and a failure of that second call does
  not fail the listing.
\<close>

theorem model_list_is_catalog:
  assumes "ollama_get env c ''/v1/models'' (de_data v1_model_of_json) = Inr catalog"
  shows "\<exists>ms. list_models env c = Inr ms \<and> map mi_id ms = catalog
    \<and> (\<forall>m \<in> set ms. \<not> mi_active m
         \<and> (mi_loaded m \<longleftrightarrow> (\<exists>l. loaded_set env c = Inr l \<and> mi_id m \<in> set l)))"
  using assms by (cases "loaded_set env c") (auto simp: list_models_def Let_def comp_def)

theorem model_list_is_catalog_witness:
  "\<exists>ms. list_models (fixed_http (JObj [(''data'', JArr [JObj [(''id'', JStr ''m'')]])]))
     \<lparr>oc_base_url = ''http://o'', oc_token = None\<rparr> = Inr ms \<and> map mi_id ms = [''m'']"
proof -
  let ?v = "JObj [(''data'', JArr [JObj [(''id'', JStr ''m'')]])]"
  have "de_data v1_model_of_json ?v = Some [''m'']"
    by (simp add: de_data_def struct_fields_def req_field_def v1_model_of_json_def de_vec_def)
  from model_list_is_catalog [where c = "\<lparr>oc_base_url = ''http://o'', oc_token = None\<rparr>", OF ollama_get_fixed [where de = "de_data v1_model_of_json", OF this]] show ?thesis by auto
qed

end
