(* ===== verification/Config_Resolve.thy ===== *)
theory Config_Resolve
  imports Hermes_Prelude
begin

text \<open>
  \<open>src/config.rs\<close> and the choice of the config file in \<open>src/main.rs\<close>: where the configuration comes
  from and how the raw file and the environment are resolved into a \<open>Config\<close>.

  \<open>env\<close> is the process environment (\<open>None\<close> for an unset variable). The TOML reader and the file are
  arguments of \<open>load\<close>. \<open>SocketAddr\<close> parsing is the argument \<open>parse_addr\<close>: the program only passes the
  text on and looks at success or failure, so \<open>'a\<close> is the type of addresses.
\<close>

type_synonym env = "string \<Rightarrow> string option"

definition default_mcp_listen_addr :: string where
  "default_mcp_listen_addr = ''127.0.0.1:9721''"

definition default_hermes_api_url :: string where
  "default_hermes_api_url = ''https://hermes.example.com/direct''"

definition default_ollama_router_url :: string where
  "default_ollama_router_url = ''https://ollama.example.com''"

record 'a config =
  hermes_api_url :: string
  hermes_api_key :: string
  mcp_listen_addr :: 'a
  socket_path :: string
  mcp_auth_token :: "string option"
  ollama_router_url :: string
  ollama_router_token :: "string option"

record raw_config =
  raw_hermes_api_url :: "string option"
  raw_hermes_api_key :: "string option"
  raw_mcp_listen_addr :: "string option"
  raw_socket_path :: "string option"
  raw_mcp_auth_token :: "string option"
  raw_ollama_router_url :: "string option"
  raw_ollama_router_token :: "string option"

definition raw_default :: raw_config where
  "raw_default =
     \<lparr>raw_hermes_api_url = None, raw_hermes_api_key = None, raw_mcp_listen_addr = None,
      raw_socket_path = None, raw_mcp_auth_token = None, raw_ollama_router_url = None,
      raw_ollama_router_token = None\<rparr>"

datatype config_error =
    ReadError string string
  | ParseError string string
  | BadAddr string string
  | MissingKey

definition default_path :: "env \<Rightarrow> string option" where
  "default_path env =
     (case env ''XDG_CONFIG_HOME'' of
        Some xdg \<Rightarrow> Some (path_join xdg ''hermes-dms/config.toml'')
      | None \<Rightarrow>
          map_option (\<lambda>h. path_join h ''.config/hermes-dms/config.toml'') (env ''HOME''))"

definition default_socket_path :: "env \<Rightarrow> string" where
  "default_socket_path env =
     path_join (unwrap_or ''/tmp'' (env ''XDG_RUNTIME_DIR'')) ''hermes-dms.sock''"

definition nonempty :: "string option \<Rightarrow> string option" where
  "nonempty = opt_filter (\<lambda>s. s \<noteq> [])"

definition resolve ::
    "(string \<Rightarrow> string + 'a) \<Rightarrow> env \<Rightarrow> raw_config \<Rightarrow> string option \<Rightarrow> config_error + 'a config"
  where
  "resolve parse_addr env raw env_key =
     (case or_else (nonempty env_key) (nonempty (raw_hermes_api_key raw)) of
        None \<Rightarrow> Inl MissingKey
      | Some key \<Rightarrow>
          let addr_str = unwrap_or default_mcp_listen_addr (raw_mcp_listen_addr raw) in
          (case parse_addr addr_str of
             Inl source \<Rightarrow> Inl (BadAddr addr_str source)
           | Inr addr \<Rightarrow>
               Inr \<lparr>hermes_api_url = unwrap_or default_hermes_api_url (raw_hermes_api_url raw),
                    hermes_api_key = key,
                    mcp_listen_addr = addr,
                    socket_path = unwrap_or (default_socket_path env) (raw_socket_path raw),
                    mcp_auth_token =
                      or_else (nonempty (env ''MCP_AUTH_TOKEN''))
                        (nonempty (raw_mcp_auth_token raw)),
                    ollama_router_url =
                      unwrap_or default_ollama_router_url (nonempty (raw_ollama_router_url raw)),
                    ollama_router_token =
                      or_else (nonempty (env ''OLLAMA_ROUTER_TOKEN''))
                        (nonempty (raw_ollama_router_token raw))\<rparr>))"

text \<open>\<open>read\<close> is the file system, \<open>parse_toml\<close> the TOML reader of \<open>RawConfig\<close>.\<close>

definition load ::
    "(string \<Rightarrow> string + string) \<Rightarrow> (string \<Rightarrow> string + raw_config) \<Rightarrow> (string \<Rightarrow> string + 'a)
     \<Rightarrow> env \<Rightarrow> string \<Rightarrow> config_error + 'a config" where
  "load read parse_toml parse_addr env path =
     (case read path of
        Inl source \<Rightarrow> Inl (ReadError path source)
      | Inr txt \<Rightarrow>
          (case parse_toml txt of
             Inl source \<Rightarrow> Inl (ParseError path source)
           | Inr raw \<Rightarrow> resolve parse_addr env raw (env ''HERMES_API_KEY'')))"

text \<open>\<open>main\<close>: the \<open>--config\<close> argument, else the default path, else a file of the working directory.\<close>

definition config_path :: "env \<Rightarrow> string option \<Rightarrow> string" where
  "config_path env cli_config =
     unwrap_or ''hermes-dms.toml'' (or_else cli_config (default_path env))"

section \<open>Properties\<close>

lemma nonempty_Some_iff [simp]: "nonempty v = Some s \<longleftrightarrow> v = Some s \<and> s \<noteq> []"
  by (simp add: nonempty_def opt_filter_Some_iff)

lemma nonempty_simps [simp]:
  "nonempty None = None"
  "nonempty (Some s) = (if s = [] then None else Some s)"
  by (simp_all add: nonempty_def)

lemma nonempty_None_iff: "nonempty v = None \<longleftrightarrow> v = None \<or> v = Some []"
  by (cases v) (auto simp: nonempty_def)

text \<open>A secret taken from the environment first and from the file otherwise.\<close>

lemma secret_Some_iff:
  "or_else (nonempty e) (nonempty f) = Some s \<longleftrightarrow>
     s \<noteq> [] \<and> (e = Some s \<or> (e = None \<or> e = Some []) \<and> f = Some s)"
  by (cases e; cases f) auto

lemma secret_None_iff:
  "or_else (nonempty e) (nonempty f) = None \<longleftrightarrow>
     (e = None \<or> e = Some []) \<and> (f = None \<or> f = Some [])"
  by (simp add: or_else_None_iff nonempty_None_iff)

lemma resolve_Inr_iff:
  "(\<exists>cfg. resolve parse_addr env raw env_key = Inr cfg) \<longleftrightarrow>
     or_else (nonempty env_key) (nonempty (raw_hermes_api_key raw)) \<noteq> None
     \<and> (\<exists>a. parse_addr (unwrap_or default_mcp_listen_addr (raw_mcp_listen_addr raw)) = Inr a)"
  by (auto simp: resolve_def Let_def split: option.splits sum.splits)

lemma resolve_fields:
  assumes "resolve parse_addr env raw env_key = Inr cfg"
  shows "or_else (nonempty env_key) (nonempty (raw_hermes_api_key raw)) = Some (hermes_api_key cfg)"
    and "parse_addr (unwrap_or default_mcp_listen_addr (raw_mcp_listen_addr raw))
           = Inr (mcp_listen_addr cfg)"
    and "mcp_auth_token cfg =
           or_else (nonempty (env ''MCP_AUTH_TOKEN'')) (nonempty (raw_mcp_auth_token raw))"
    and "ollama_router_token cfg =
           or_else (nonempty (env ''OLLAMA_ROUTER_TOKEN'')) (nonempty (raw_ollama_router_token raw))"
    and "socket_path cfg = unwrap_or (default_socket_path env) (raw_socket_path raw)"
    and "hermes_api_url cfg = unwrap_or default_hermes_api_url (raw_hermes_api_url raw)"
    and "ollama_router_url cfg =
           unwrap_or default_ollama_router_url (nonempty (raw_ollama_router_url raw))"
  using assms by (auto simp: resolve_def Let_def split: option.splits sum.splits)

lemma resolve_Inl:
  "resolve parse_addr env raw env_key = Inl e \<longleftrightarrow>
     (if or_else (nonempty env_key) (nonempty (raw_hermes_api_key raw)) = None then e = MissingKey
      else let a = unwrap_or default_mcp_listen_addr (raw_mcp_listen_addr raw)
           in \<exists>source. parse_addr a = Inl source \<and> e = BadAddr a source)"
  by (auto simp: resolve_def Let_def split: option.splits sum.splits)

section \<open>The configuration's guarantees\<close>

text \<open>
  A configuration is produced exactly when there is a nonempty API key, in the environment or in
  the file, and the listen address can be read; a missing key is reported before a bad address.
\<close>

theorem resolve_outcome:
  "(resolve parse_addr env raw env_key = Inl MissingKey \<longleftrightarrow>
      env_key \<in> {None, Some []} \<and> raw_hermes_api_key raw \<in> {None, Some []})
   \<and> (resolve parse_addr env raw env_key = Inl (BadAddr a e) \<longleftrightarrow>
      \<not> (env_key \<in> {None, Some []} \<and> raw_hermes_api_key raw \<in> {None, Some []})
      \<and> a = unwrap_or ''127.0.0.1:9721'' (raw_mcp_listen_addr raw) \<and> parse_addr a = Inl e)
   \<and> ((\<exists>cfg. resolve parse_addr env raw env_key = Inr cfg) \<longleftrightarrow>
      \<not> (env_key \<in> {None, Some []} \<and> raw_hermes_api_key raw \<in> {None, Some []})
      \<and> (\<exists>addr. parse_addr (unwrap_or ''127.0.0.1:9721'' (raw_mcp_listen_addr raw)) = Inr addr))"
proof -
  have absent: "or_else (nonempty env_key) (nonempty (raw_hermes_api_key raw)) = None \<longleftrightarrow>
      env_key \<in> {None, Some []} \<and> raw_hermes_api_key raw \<in> {None, Some []}"
    by (simp add: secret_None_iff)
  show ?thesis
    unfolding resolve_Inl resolve_Inr_iff absent by (auto simp: default_mcp_listen_addr_def Let_def)
qed

text \<open>
  C30: in a resolved configuration every secret is nonempty, and it is the environment's value if that
  is nonempty, else the file's; an empty value counts as absent everywhere.
\<close>

theorem secrets_from_env_then_file:
  assumes "resolve parse_addr env raw env_key = Inr cfg"
  shows "hermes_api_key cfg \<noteq> []
    \<and> (env_key = Some (hermes_api_key cfg)
       \<or> env_key \<in> {None, Some []} \<and> raw_hermes_api_key raw = Some (hermes_api_key cfg))
    \<and> (\<forall>tok. mcp_auth_token cfg = Some tok \<longleftrightarrow>
         tok \<noteq> [] \<and> (env ''MCP_AUTH_TOKEN'' = Some tok
           \<or> env ''MCP_AUTH_TOKEN'' \<in> {None, Some []} \<and> raw_mcp_auth_token raw = Some tok))
    \<and> (\<forall>tok. ollama_router_token cfg = Some tok \<longleftrightarrow>
         tok \<noteq> [] \<and> (env ''OLLAMA_ROUTER_TOKEN'' = Some tok
           \<or> env ''OLLAMA_ROUTER_TOKEN'' \<in> {None, Some []} \<and> raw_ollama_router_token raw = Some tok))"
  using resolve_fields(1,3,4) [OF assms] by (simp add: secret_Some_iff)

theorem secrets_from_env_then_file_witness:
  "\<exists>cfg. resolve (\<lambda>_. Inr ()) (\<lambda>_. None) (raw_default\<lparr>raw_hermes_api_key := Some ''file''\<rparr>) (Some [])
     = Inr cfg \<and> hermes_api_key cfg \<noteq> []"
proof -
  obtain cfg where "resolve (\<lambda>_. Inr ()) (\<lambda>_. None) (raw_default\<lparr>raw_hermes_api_key := Some ''file''\<rparr>)
      (Some []) = Inr cfg"
    by (simp add: resolve_def raw_default_def)
  with secrets_from_env_then_file [OF this] show ?thesis by blast
qed

text \<open>
  The settings that are not secrets come from the file as they are, and otherwise are the
  documented defaults; only an empty router URL counts as absent. The default socket lies in
  \<open>XDG_RUNTIME_DIR\<close>, or in \<open>/tmp\<close>.
\<close>

theorem settings_from_file_or_default:
  assumes "resolve parse_addr env raw env_key = Inr cfg"
  shows "hermes_api_url cfg =
      (case raw_hermes_api_url raw of None \<Rightarrow> ''https://hermes.example.com/direct'' | Some u \<Rightarrow> u)
    \<and> socket_path cfg =
      (case raw_socket_path raw of
         Some p \<Rightarrow> p
       | None \<Rightarrow>
           (case env ''XDG_RUNTIME_DIR'' of
              Some d \<Rightarrow> path_join d ''hermes-dms.sock''
            | None \<Rightarrow> ''/tmp/hermes-dms.sock''))
    \<and> ollama_router_url cfg =
      (case raw_ollama_router_url raw of
         Some (x # xs) \<Rightarrow> x # xs
       | _ \<Rightarrow> ''https://ollama.example.com'')"
  using resolve_fields(5,6,7) [OF assms]
  by (auto simp: default_socket_path_def default_hermes_api_url_def default_ollama_router_url_def
      path_join_def split: option.split list.split)

theorem settings_from_file_or_default_witness:
  "\<exists>cfg. resolve (\<lambda>_. Inr ()) (\<lambda>_. None) raw_default (Some ''k'') = Inr cfg
     \<and> socket_path cfg = ''/tmp/hermes-dms.sock''"
proof -
  obtain cfg where "resolve (\<lambda>_. Inr ()) (\<lambda>_. None) raw_default (Some ''k'') = Inr cfg"
    by (simp add: resolve_def raw_default_def)
  with settings_from_file_or_default [OF this] show ?thesis by (simp add: raw_default_def)
qed

end
