(* ===== verification/Desktop.thy ===== *)
theory Desktop
  imports Hermes_Prelude
begin

text \<open>
  The desktop backends: \<open>src/desktop/notify.rs\<close> (urgency and the D-Bus call), \<open>launch.rs\<close> (what is
  spawned, and how) and \<open>screenshot.rs\<close> (the lock check, the request to niri and the polling loop
  for the file). D-Bus, the kernel's \<open>spawn\<close>, \<open>loginctl\<close>, niri and the file system are arguments.
\<close>

section \<open>Notifications\<close>

datatype urgency = Low | Normal | Critical

definition urgency_from_opt :: "string option \<Rightarrow> urgency" where
  "urgency_from_opt s =
     (case map_option to_ascii_lowercase s of
        Some l \<Rightarrow> if l = ''low'' then Low else if l = ''critical'' then Critical else Normal
      | None \<Rightarrow> Normal)"

fun hint :: "urgency \<Rightarrow> u8" where
  "hint Low = 0"
| "hint Normal = 1"
| "hint Critical = 2"

text \<open>Urgencies are ordered as their byte hints are.\<close>

instantiation urgency :: linorder
begin

definition less_eq_urgency :: "urgency \<Rightarrow> urgency \<Rightarrow> bool" where
  "u \<le> v \<longleftrightarrow> hint u \<le> hint v"

definition less_urgency :: "urgency \<Rightarrow> urgency \<Rightarrow> bool" where
  "u < v \<longleftrightarrow> hint u < hint v"

instance
proof
  fix u v :: urgency
  show "u \<le> v \<Longrightarrow> v \<le> u \<Longrightarrow> u = v"
    by (cases u; cases v) (simp_all add: less_eq_urgency_def word_le_nat_alt)
qed (auto simp: less_eq_urgency_def less_urgency_def)

end

text \<open>The arguments of the \<open>Notify\<close> method, with the one hint that is set.\<close>

record notify_call =
  nc_app_name :: string
  nc_replaces_id :: u32
  nc_app_icon :: string
  nc_summary :: string
  nc_body :: string
  nc_actions :: "string list"
  nc_hints :: "(string \<times> u8) list"
  nc_expire_timeout :: int

definition notify_send ::
    "(notify_call \<Rightarrow> string + u32) \<Rightarrow> string \<Rightarrow> string \<Rightarrow> urgency \<Rightarrow> string option \<Rightarrow> string + u32"
  where
  "notify_send dbus title body urgency icon =
     dbus \<lparr>nc_app_name = ''Roci'', nc_replaces_id = 0, nc_app_icon = unwrap_or [] icon,
           nc_summary = title, nc_body = body, nc_actions = [],
           nc_hints = [(''urgency'', hint urgency)], nc_expire_timeout = -1\<rparr>"

section \<open>Launching\<close>

datatype stdio = StdioNull | StdioInherit

text \<open>The command handed to the kernel: argv[0], the arguments, the standard streams, the group.\<close>

record spawn_spec =
  sp_program :: string
  sp_args :: "string list"
  sp_stdin :: stdio
  sp_stdout :: stdio
  sp_stderr :: stdio
  sp_process_group :: "int option"

text \<open>\<open>spawn\<close> answers with the error or with \<open>Child::id()\<close>.\<close>

definition launch_detached ::
    "(spawn_spec \<Rightarrow> string + u32 option) \<Rightarrow> string \<Rightarrow> string list \<Rightarrow> string + u32" where
  "launch_detached spawn command args =
     (case spawn \<lparr>sp_program = command, sp_args = args, sp_stdin = StdioNull,
                  sp_stdout = StdioNull, sp_stderr = StdioNull, sp_process_group = Some 0\<rparr> of
        Inl e \<Rightarrow> Inl e
      | Inr child_id \<Rightarrow>
          (case child_id of
             None \<Rightarrow> Inl ''child exited before its PID could be read''
           | Some pid \<Rightarrow> Inr pid))"

section \<open>Screenshots\<close>

definition png_magic :: string where
  "png_magic = bytes [0x89, 0x50, 0x4E, 0x47, 0x0D, 0x0A, 0x1A, 0x0A]"

datatype target = Screen | Window

definition target_from_opt :: "string option \<Rightarrow> target" where
  "target_from_opt s = (if s = Some ''window'' then Window else Screen)"

datatype screenshot_error =
    Locked
  | NiriConnect string
  | Niri string
  | Timeout string

fun screenshot_error_text :: "screenshot_error \<Rightarrow> string" where
  "screenshot_error_text Locked = ''the session is locked''"
| "screenshot_error_text (NiriConnect e) = ''connecting to niri: '' @ e"
| "screenshot_error_text (Niri e) = ''niri screenshot failed: '' @ e"
| "screenshot_error_text (Timeout p) = ''screenshot file never materialized at '' @ p"

text \<open>
  \<open>loginctl\<close> is the outcome of running it for a session: \<open>None\<close> if it cannot be run or fails,
  otherwise its standard output.
\<close>

definition session_locked :: "(string \<Rightarrow> string option) \<Rightarrow> (string \<Rightarrow> string option) \<Rightarrow> bool" where
  "session_locked env loginctl =
     (case env ''XDG_SESSION_ID'' of
        None \<Rightarrow> False
      | Some session_id \<Rightarrow>
          (case loginctl session_id of
             Some out \<Rightarrow> trim out = ''yes''
           | None \<Rightarrow> False))"

datatype niri_action =
    ScreenshotWindow bool bool string
  | ScreenshotScreen bool bool string

text \<open>The action for a target: written to disk, without the pointer, at the path chosen here.\<close>

fun niri_action_for :: "target \<Rightarrow> string \<Rightarrow> niri_action" where
  "niri_action_for Window path = ScreenshotWindow True False path"
| "niri_action_for Screen path = ScreenshotScreen True False path"

text \<open>A fresh file in the runtime directory, else in the system's temporary directory.\<close>

definition temp_path :: "(string \<Rightarrow> string option) \<Rightarrow> string \<Rightarrow> string \<Rightarrow> string" where
  "temp_path env temp_dir uuid =
     path_join (unwrap_or temp_dir (env ''XDG_RUNTIME_DIR''))
       (''hermes-dms-shot-'' @ uuid @ ''.png'')"

text \<open>
  The polling loop. \<open>read i\<close> is what reading the file gives in round \<open>i\<close> and \<open>clock i\<close> the time of the
  deadline check of that round, in milliseconds since the deadline was set. Whether it returns depends
  on the clock, so its result is an option; the second component tells that the file was removed.
\<close>

definition is_png :: "string \<Rightarrow> bool" where
  "is_png b = starts_with png_magic b"

partial_function (option) poll ::
    "(nat \<Rightarrow> string option) \<Rightarrow> (nat \<Rightarrow> nat) \<Rightarrow> string \<Rightarrow> nat
     \<Rightarrow> ((screenshot_error + string) \<times> bool) option" where
  "poll read clock path i =
     (case opt_filter is_png (read i) of
        Some b \<Rightarrow> Some (Inr b, True)
      | None \<Rightarrow>
          if 5000 \<le> clock i then Some (Inl (Timeout path), True)
          else poll read clock path (Suc i))"

text \<open>\<open>niri\<close> is the answer to the request: a connection or send error, or niri's own reply.\<close>

definition capture ::
    "bool \<Rightarrow> (niri_action \<Rightarrow> string + (string + unit)) \<Rightarrow> (nat \<Rightarrow> string option) \<Rightarrow> (nat \<Rightarrow> nat)
     \<Rightarrow> string \<Rightarrow> target \<Rightarrow> (screenshot_error + string) option" where
  "capture locked niri read clock path target =
     (if locked then Some (Inl Locked)
      else case niri (niri_action_for target path) of
             Inl e \<Rightarrow> Some (Inl (NiriConnect e))
           | Inr (Inl msg) \<Rightarrow> Some (Inl (Niri msg))
           | Inr (Inr _) \<Rightarrow> map_option fst (poll read clock path 0))"

section \<open>Properties\<close>

lemma urgency_from_opt_case: "urgency_from_opt (Some s) = urgency_from_opt (Some (to_ascii_lowercase s))"
  by (simp add: urgency_from_opt_def)

lemma hint_le_2: "hint u \<le> 2"
  by (cases u) (simp_all add: word_le_nat_alt)

lemma launch_detached_Inr_iff:
  "launch_detached spawn command args = Inr pid \<longleftrightarrow>
     spawn \<lparr>sp_program = command, sp_args = args, sp_stdin = StdioNull, sp_stdout = StdioNull,
            sp_stderr = StdioNull, sp_process_group = Some 0\<rparr> = Inr (Some pid)"
  by (auto simp: launch_detached_def split: sum.splits option.splits)

text \<open>
  Every round sleeps at least 50 ms before the next, so the clock reaches the deadline: the loop
  returns within 101 rounds, whatever the file does.
\<close>

lemma clock_progress:
  assumes "\<And>i. clock i + 50 \<le> clock (Suc i)"
  shows "50 * i \<le> clock i"
proof (induction i)
  case (Suc i)
  with assms [of i] show ?case by simp
qed simp

text \<open>The round in which the loop stops: the first that reads a PNG signature or is past the deadline.\<close>

definition stops_at :: "(nat \<Rightarrow> string option) \<Rightarrow> (nat \<Rightarrow> nat) \<Rightarrow> nat \<Rightarrow> bool" where
  "stops_at read clock i = (opt_filter is_png (read i) \<noteq> None \<or> 5000 \<le> clock i)"

lemma poll_result:
  assumes "i \<le> n" and "stops_at read clock n" and "\<And>j. i \<le> j \<Longrightarrow> j < n \<Longrightarrow> \<not> stops_at read clock j"
  shows "poll read clock path i =
    Some (case opt_filter is_png (read n) of Some b \<Rightarrow> Inr b | None \<Rightarrow> Inl (Timeout path), True)"
  using assms
proof (induction "n - i" arbitrary: i)
  case 0
  then have "i = n" by simp
  with 0 show ?case
    by (auto simp: poll.simps [of read clock path n] stops_at_def split: option.splits)
next
  case (Suc d)
  then have "i < n" and "\<not> stops_at read clock i" by simp_all
  then have "poll read clock path i = poll read clock path (Suc i)"
    by (simp add: poll.simps [of read clock path i] stops_at_def)
  with Suc.hyps(1) [of "Suc i"] Suc.hyps(2) Suc.prems \<open>i < n\<close> show ?case by simp
qed

lemma poll_stops:
  assumes "\<And>i. clock i + 50 \<le> clock (Suc i)"
  obtains n where "n \<le> 100" and "stops_at read clock n" and "\<And>j. j < n \<Longrightarrow> \<not> stops_at read clock j"
proof -
  have "stops_at read clock 100"
    using clock_progress [of clock 100, OF assms] by (simp add: stops_at_def)
  then have "stops_at read clock (LEAST n. stops_at read clock n)"
    and "(LEAST n. stops_at read clock n) \<le> 100"
    by (rule LeastI, rule Least_le)
  moreover have "\<not> stops_at read clock j" if "j < (LEAST n. stops_at read clock n)" for j
    using that by (rule not_less_Least)
  ultimately show ?thesis using that by blast
qed

section \<open>The desktop backends' guarantees\<close>

text \<open>
  C28: a capture of an unlocked session that niri accepted always returns, because each round sleeps at
  least 50 ms: it gives the first file content that begins with the PNG signature, if a round reads one
  no later than the deadline's round, else the timeout error; and it takes at most 101 rounds.
\<close>

theorem capture_returns:
  assumes sleeps: "\<And>i. clock i + 50 \<le> clock (Suc i)"
    and accepted: "niri (niri_action_for target path) = Inr (Inr ())"
  shows "\<exists>n \<le> 100. (\<forall>j < n. clock j < 5000 \<and> (\<forall>b. read j = Some b \<longrightarrow> \<not> is_png b))
    \<and> capture False niri read clock path target =
        Some (case read n of
                Some b \<Rightarrow> if is_png b then Inr b else Inl (Timeout path)
              | None \<Rightarrow> Inl (Timeout path))"
proof -
  obtain n where n: "n \<le> 100" "stops_at read clock n" and before: "\<And>j. j < n \<Longrightarrow> \<not> stops_at read clock j"
    using poll_stops [of clock read, OF sleeps] by metis
  have "poll read clock path 0 =
      Some (case opt_filter is_png (read n) of Some b \<Rightarrow> Inr b | None \<Rightarrow> Inl (Timeout path), True)"
    by (rule poll_result) (use n before in auto)
  then have "capture False niri read clock path target =
        Some (case read n of
                Some b \<Rightarrow> if is_png b then Inr b else Inl (Timeout path)
              | None \<Rightarrow> Inl (Timeout path))"
    by (auto simp: capture_def accepted opt_filter_def split: option.splits)
  moreover have "clock j < 5000 \<and> (\<forall>b. read j = Some b \<longrightarrow> \<not> is_png b)" if "j < n" for j
    using before [OF that] by (auto simp: stops_at_def opt_filter_def)
  ultimately show ?thesis using n(1) by blast
qed

theorem capture_returns_witness:
  "\<exists>r. capture False (\<lambda>_. Inr (Inr ())) (\<lambda>_. None) (\<lambda>i. 60 * i) ''/tmp/s.png'' Screen = Some r"
  using capture_returns [of "\<lambda>i. 60 * i" "\<lambda>_. Inr (Inr ())" Screen "''/tmp/s.png''" "\<lambda>_. None"]
  by auto

lemma poll_png:
  assumes "poll read clock path i = Some r"
  shows "\<forall>b z. r = (Inr b, z) \<longrightarrow> is_png b \<and> (\<exists>j. read j = Some b)"
proof (rule poll.raw_induct [OF _ assms])
  fix poll' :: "(nat \<Rightarrow> string option) \<Rightarrow> (nat \<Rightarrow> nat) \<Rightarrow> string \<Rightarrow> nat
    \<Rightarrow> ((screenshot_error + string) \<times> bool) option"
    and read :: "nat \<Rightarrow> string option" and clock path i r
  assume IH: "\<And>read clock path i r. poll' read clock path i = Some r \<Longrightarrow>
      \<forall>b z. r = (Inr b, z) \<longrightarrow> is_png b \<and> (\<exists>j. read j = Some b)"
    and step: "(case opt_filter is_png (read i) of
       Some b \<Rightarrow> Some (Inr b, True)
     | None \<Rightarrow>
         if 5000 \<le> clock i then Some (Inl (Timeout path), True)
         else poll' read clock path (Suc i)) = Some r"
  show "\<forall>b z. r = (Inr b, z) \<longrightarrow> is_png b \<and> (\<exists>j. read j = Some b)"
  proof (cases "opt_filter is_png (read i)")
    case None
    with step IH [of read clock path "Suc i" r] show ?thesis by (auto split: if_splits)
  next
    case (Some b)
    then have "is_png b" "read i = Some b" by (auto simp: opt_filter_Some_iff)
    with step Some show ?thesis by auto
  qed
qed

text \<open>
  What \<open>capture\<close> answers is an image only if it begins with the PNG signature, and never for a
  locked session, which does not even ask niri.
\<close>

theorem capture_gives_png:
  assumes "capture locked niri read clock path target = Some (Inr b)"
  shows "\<not> locked \<and> is_png b \<and> niri (niri_action_for target path) = Inr (Inr ()) \<and> (\<exists>i. read i = Some b)"
proof -
  from assms have open_session: "\<not> locked" and niri: "niri (niri_action_for target path) = Inr (Inr ())"
    and poll: "\<exists>z. poll read clock path 0 = Some (Inr b, z)"
    by (auto simp: capture_def split: if_splits sum.splits)
  from poll have "is_png b \<and> (\<exists>i. read i = Some b)" by (auto dest: poll_png)
  with open_session niri show ?thesis by blast
qed

theorem capture_gives_png_witness:
  "\<exists>b. capture False (\<lambda>_. Inr (Inr ())) (\<lambda>_. Some png_magic) (\<lambda>i. 50 * i) ''/tmp/s.png'' Window
     = Some (Inr b) \<and> is_png b"
proof -
  have "capture False (\<lambda>_. Inr (Inr ())) (\<lambda>_. Some png_magic) (\<lambda>i. 50 * i) ''/tmp/s.png'' Window
      = Some (Inr png_magic)"
    by (simp add: capture_def poll.simps [of _ _ _ 0] is_png_def starts_with_iff_prefix opt_filter_def)
  with capture_gives_png [OF this] show ?thesis by blast
qed

text \<open>
  The signature is all that is checked: a file of which only the first eight bytes have been written
  is answered as the screenshot, although later rounds would read the whole image.
\<close>

theorem partial_file_returned:
  assumes "niri (niri_action_for target path) = Inr (Inr ())" and "read 0 = Some (png_magic @ part)"
  shows "capture False niri read clock path target = Some (Inr (png_magic @ part))"
  using assms
  by (simp add: capture_def poll.simps [of _ _ _ 0] is_png_def starts_with_iff_prefix opt_filter_def)

end
