(* ===== verification/Daemon_Chat.thy ===== *)
theory Daemon_Chat
  imports Protocol Bridge Rest_Clients Desktop
begin

text \<open>
  \<open>handle_chat\<close>, \<open>chat_via_bridge\<close> and \<open>notify_launcher\<close> of \<open>src/daemon.rs\<close>: one chat turn over the
  bridge.

  A turn is a task that runs beside the other turns, the adapter's socket and the cancel requests, so
  it is a state machine whose steps are its accesses to the hub: \<open>chat_open\<close> registers the route,
  \<open>chat_push\<close> hands the message to the adapter, \<open>chat_reject\<close> is the early return when that fails,
  \<open>chat_cancelled\<close> and \<open>chat_frame\<close> are the two arms of the \<open>select!\<close>, \<open>chat_finish\<close> the
  \<open>close_chat\<close> after the loop. Between two steps anything may happen to the hub. A step's effects are
  the messages queued for the client and the notification asked of D-Bus.
\<close>

section \<open>The turn\<close>

datatype phase = Opening | Sending | Rejecting | Looping | Closing | Done

record chat =
  ch_request :: string
  ch_chat :: string
  ch_message :: string
  ch_notify :: bool
  ch_rx :: nat
  ch_phase :: phase

datatype effect = ToConn daemon_message | NotifyUser string string urgency

definition notify_max_len :: nat where
  "notify_max_len = 280"

text \<open>\<open>handle_chat\<close>: a launcher chat has no session, gets a minted id and a notification.\<close>

definition handle_chat ::
    "u64 option \<Rightarrow> (nat \<Rightarrow> u8) \<Rightarrow> string \<Rightarrow> string option \<Rightarrow> string \<Rightarrow> chat" where
  "handle_chat now rand rid session_id message =
     (let notify_on_complete = (session_id = None);
          cid = unwrap_or (new_desktop_session_id now rand) session_id
      in \<lparr>ch_request = rid, ch_chat = cid, ch_message = message, ch_notify = notify_on_complete,
          ch_rx = 0, ch_phase = Opening\<rparr>)"

text \<open>\<open>send_error\<close> addresses the error to the request.\<close>

definition send_error :: "string \<Rightarrow> string \<Rightarrow> effect" where
  "send_error rid message = ToConn (Error (Some rid) message)"

definition notify_launcher :: "bool \<Rightarrow> string \<Rightarrow> effect list" where
  "notify_launcher dbus content =
     (if dbus \<and> content \<noteq> []
      then [NotifyUser ''Roci'' (take_chars notify_max_len content) Normal] else [])"

definition chat_open :: "chat \<Rightarrow> hub \<Rightarrow> chat \<times> hub" where
  "chat_open c h =
     (let (rx, h') = open_chat (ch_chat c) h in (c\<lparr>ch_rx := rx, ch_phase := Sending\<rparr>, h'))"

definition chat_push :: "chat \<Rightarrow> hub \<Rightarrow> chat \<times> hub" where
  "chat_push c h =
     (let (h', ok) = send_inbound (ch_chat c) (ch_message c) (ch_request c) h
      in (c\<lparr>ch_phase := if ok then Looping else Rejecting\<rparr>, h'))"

definition chat_reject :: "chat \<Rightarrow> hub \<Rightarrow> effect list \<times> chat \<times> hub" where
  "chat_reject c h =
     (let h' = close_chat (ch_chat c) h
      in ([send_error (ch_request c) ''desktop platform offline''],
          c\<lparr>ch_phase := Done\<rparr>, drop_frames (ch_rx c) h'))"

definition chat_cancelled :: "chat \<Rightarrow> effect list \<times> chat" where
  "chat_cancelled c = ([send_error (ch_request c) ''cancelled''], c\<lparr>ch_phase := Closing\<rparr>)"

text \<open>What the loop body does with \<open>frames.next()\<close>; \<open>None\<close> while there is nothing to take.\<close>

definition frame_arm :: "bool \<Rightarrow> chat \<Rightarrow> from_adapter recv \<Rightarrow> (effect list \<times> chat) option" where
  "frame_arm dbus c item =
     (case item of
        Item (from_adapter.Draft _ text) \<Rightarrow>
          Some ([ToConn (daemon_message.Draft (ch_request c) text)], c)
      | Item (Send _ text) \<Rightarrow>
          Some ((if ch_notify c then notify_launcher dbus text else [])
                @ [ToConn (ChatComplete (ch_request c) text)],
                c\<lparr>ch_phase := Closing\<rparr>)
      | Item (Typing _) \<Rightarrow> Some ([], c)
      | Closed \<Rightarrow>
          Some ([send_error (ch_request c) ''desktop platform disconnected''],
                c\<lparr>ch_phase := Closing\<rparr>)
      | Pending \<Rightarrow> None)"

definition chat_frame :: "bool \<Rightarrow> chat \<Rightarrow> hub \<Rightarrow> (effect list \<times> chat \<times> hub) option" where
  "chat_frame dbus c h =
     (let (h', item) = recv_frame (ch_rx c) h
      in map_option (\<lambda>(es, c'). (es, c', h')) (frame_arm dbus c item))"

definition chat_finish :: "chat \<Rightarrow> hub \<Rightarrow> chat \<times> hub" where
  "chat_finish c h =
     (let h' = close_chat (ch_chat c) h in (c\<lparr>ch_phase := Done\<rparr>, drop_frames (ch_rx c) h'))"

section \<open>Steps of a turn\<close>

text \<open>
  \<open>chat_step dbus cancelled c h es c' h'\<close>: the task makes one step. When a cancel request and a frame
  are both ready, \<open>select!\<close> may take either arm.
\<close>

inductive chat_step ::
    "bool \<Rightarrow> bool \<Rightarrow> chat \<Rightarrow> hub \<Rightarrow> effect list \<Rightarrow> chat \<Rightarrow> hub \<Rightarrow> bool" for dbus cancelled
where
  step_open: "ch_phase c = Opening \<Longrightarrow> chat_open c h = (c', h') \<Longrightarrow>
    chat_step dbus cancelled c h [] c' h'"
| step_push: "ch_phase c = Sending \<Longrightarrow> chat_push c h = (c', h') \<Longrightarrow>
    chat_step dbus cancelled c h [] c' h'"
| step_reject: "ch_phase c = Rejecting \<Longrightarrow> chat_reject c h = (es, c', h') \<Longrightarrow>
    chat_step dbus cancelled c h es c' h'"
| step_cancel: "ch_phase c = Looping \<Longrightarrow> cancelled \<Longrightarrow> chat_cancelled c = (es, c') \<Longrightarrow>
    chat_step dbus cancelled c h es c' h"
| step_frame: "ch_phase c = Looping \<Longrightarrow> chat_frame dbus c h = Some (es, c', h') \<Longrightarrow>
    chat_step dbus cancelled c h es c' h'"
| step_finish: "ch_phase c = Closing \<Longrightarrow> chat_finish c h = (c', h') \<Longrightarrow>
    chat_step dbus cancelled c h [] c' h'"

inductive_cases chat_stepE: "chat_step dbus cancelled c h es c' h'"

inductive_simps chat_step_done: "chat_step dbus cancelled (c\<lparr>ch_phase := Done\<rparr>) h es c' h'"

text \<open>
  A turn seen from outside: its effects from start to \<open>c'\<close>, with the hub and the cancel flag as any
  other task leaves them before each step.
\<close>

inductive chat_trace :: "bool \<Rightarrow> chat \<Rightarrow> effect list \<Rightarrow> chat \<Rightarrow> bool" for dbus c where
  trace_start: "chat_trace dbus c [] c"
| trace_step: "chat_trace dbus c es c' \<Longrightarrow> chat_step dbus cancelled c' h fs c'' h' \<Longrightarrow>
    chat_trace dbus c (es @ fs) c''"

section \<open>What a turn says\<close>

fun conn_message :: "effect \<Rightarrow> daemon_message option" where
  "conn_message (ToConn m) = Some m"
| "conn_message (NotifyUser _ _ _) = None"

definition said :: "effect list \<Rightarrow> daemon_message list" where
  "said es = List.map_filter conn_message es"

lemma said_simps [simp]:
  "said [] = []"
  "said (ToConn m # es) = m # said es"
  "said (NotifyUser t b u # es) = said es"
  "said (es @ fs) = said es @ said fs"
  by (simp_all add: said_def List.map_filter_def)

lemma said_notify [simp]: "said (notify_launcher dbus text) = []"
  by (simp add: notify_launcher_def)

text \<open>The message that ends a turn: the final reply or an error.\<close>

fun is_terminal :: "daemon_message \<Rightarrow> bool" where
  "is_terminal (ChatComplete _ _) = True"
| "is_terminal (Error _ _) = True"
| "is_terminal _ = False"

fun is_draft :: "daemon_message \<Rightarrow> bool" where
  "is_draft (daemon_message.Draft _ _) = True"
| "is_draft _ = False"

definition ended :: "phase \<Rightarrow> bool" where
  "ended p = (p = Closing \<or> p = Done)"

lemma chat_step_frame:
  assumes "chat_step dbus cancelled c h es c' h'"
  shows "ch_request c' = ch_request c" "ch_chat c' = ch_chat c" "ch_notify c' = ch_notify c"
    "ch_message c' = ch_message c"
  using assms
  by (cases rule: chat_step.cases;
      auto simp: chat_open_def chat_push_def chat_reject_def chat_cancelled_def chat_frame_def
        frame_arm_def chat_finish_def Let_def case_prod_beta
        split: recv.splits from_adapter.splits)+

text \<open>
  The shape of one step: before the end it says nothing or one draft and stays before the end, or it
  says one terminal message and ends; after the end it is silent.
\<close>

lemma chat_step_said:
  assumes "chat_step dbus cancelled c h es c' h'"
  shows "(if ended (ch_phase c) then said es = [] \<and> ended (ch_phase c')
          else if ended (ch_phase c')
            then \<exists>m. said es = [m] \<and> is_terminal m \<and> addressed_to m = Some (ch_request c)
          else said es = []
            \<or> (\<exists>text. said es = [daemon_message.Draft (ch_request c) text]))"
  using assms
  by (cases rule: chat_step.cases)
    (auto simp: chat_open_def chat_push_def chat_reject_def chat_cancelled_def chat_frame_def
      frame_arm_def chat_finish_def send_error_def ended_def Let_def case_prod_beta
      split: recv.splits from_adapter.splits if_splits)

definition turn_shape :: "string \<Rightarrow> bool \<Rightarrow> daemon_message list \<Rightarrow> bool" where
  "turn_shape rid fin ms =
     (\<exists>texts. let drafts = map (daemon_message.Draft rid) texts in
        if fin then \<exists>m. ms = drafts @ [m] \<and> is_terminal m \<and> addressed_to m = Some rid
        else ms = drafts)"

lemma turn_shape_addressed: "turn_shape rid fin ms \<Longrightarrow> m \<in> set ms \<Longrightarrow> addressed_to m = Some rid"
  by (auto simp: turn_shape_def Let_def split: if_splits)

lemma turn_shape_terminals:
  "turn_shape rid fin ms \<Longrightarrow> length (filter is_terminal ms) = (if fin then 1 else 0)"
  by (auto simp: turn_shape_def Let_def filter_empty_conv split: if_splits)

lemma turn_shape_step:
  assumes shape: "turn_shape rid (ended p) ms"
    and step: "if ended p then fs = [] \<and> ended p'
          else if ended p' then \<exists>m. fs = [m] \<and> is_terminal m \<and> addressed_to m = Some rid
          else fs = [] \<or> (\<exists>text. fs = [daemon_message.Draft rid text])"
  shows "turn_shape rid (ended p') (ms @ fs)"
proof (cases "ended p \<or> fs = []")
  case True
  with shape step show ?thesis by (auto split: if_splits)
next
  case ne: False
  with shape obtain texts where ms: "ms = map (daemon_message.Draft rid) texts"
    by (auto simp: turn_shape_def Let_def)
  show ?thesis
  proof (cases "ended p'")
    case True
    with ne step ms show ?thesis by (auto simp: turn_shape_def Let_def)
  next
    case False
    with ne step obtain s where "fs = [daemon_message.Draft rid s]"
      by auto
    then have "ms @ fs = map (daemon_message.Draft rid) (texts @ [s])"
      by (simp add: ms)
    with False show ?thesis unfolding turn_shape_def Let_def by metis
  qed
qed

lemma chat_trace_turn:
  assumes "chat_trace dbus c es c'" and "ch_phase c = Opening"
  shows "ch_request c' = ch_request c \<and> ch_chat c' = ch_chat c \<and> ch_notify c' = ch_notify c
    \<and> turn_shape (ch_request c) (ended (ch_phase c')) (said es)"
  using assms
proof (induction rule: chat_trace.induct)
  case trace_start
  then show ?case by (simp add: turn_shape_def ended_def)
next
  case (trace_step es c' cancelled h fs c'' h')
  from trace_step.IH [OF trace_step.prems]
  have frame: "ch_request c' = ch_request c" "ch_chat c' = ch_chat c" "ch_notify c' = ch_notify c"
    and shape: "turn_shape (ch_request c) (ended (ch_phase c')) (said es)"
    by simp_all
  from turn_shape_step [OF shape chat_step_said [OF trace_step.hyps(2), unfolded frame]]
  show ?case
    by (simp add: chat_step_frame [OF trace_step.hyps(2)] frame)
qed

section \<open>Notifications\<close>

fun notified :: "effect \<Rightarrow> bool" where
  "notified (NotifyUser _ _ _) = True"
| "notified (ToConn _) = False"

lemma chat_step_notified:
  assumes "chat_step dbus cancelled c h es c' h'" and "e \<in> set es" and "notified e"
  shows "ch_notify c \<and> dbus \<and> (\<exists>text. text \<noteq> [] \<and> e = NotifyUser ''Roci'' (take_chars 280 text) Normal
           \<and> said es = [ChatComplete (ch_request c) text])"
  using assms
  by (cases rule: chat_step.cases)
    (auto simp: chat_open_def chat_push_def chat_reject_def chat_cancelled_def chat_frame_def
      frame_arm_def chat_finish_def send_error_def notify_launcher_def notify_max_len_def
      Let_def case_prod_beta split: recv.splits from_adapter.splits if_splits)

lemma handle_chat_fields:
  "ch_phase (handle_chat now rand rid session_id message) = Opening"
  "ch_request (handle_chat now rand rid session_id message) = rid"
  by (simp_all add: handle_chat_def Let_def)

text \<open>Only the step that ends a turn with its reply raises a notification, and only one.\<close>

lemma chat_step_notifies:
  assumes "chat_step dbus cancelled c h es c' h'"
  shows "length (filter notified es) \<le> (if ended (ch_phase c') \<and> \<not> ended (ch_phase c) then 1 else 0)
    \<and> (ended (ch_phase c) \<longrightarrow> ended (ch_phase c'))"
  using assms
  by (cases rule: chat_step.cases)
    (auto simp: chat_open_def chat_push_def chat_reject_def chat_cancelled_def chat_frame_def
      frame_arm_def chat_finish_def send_error_def notify_launcher_def ended_def Let_def case_prod_beta
      split: recv.splits from_adapter.splits if_splits)

lemma chat_trace_notified:
  assumes "chat_trace dbus c es c'" and "ch_phase c = Opening"
  shows "length (filter notified es) \<le> (if ended (ch_phase c') then 1 else 0)
    \<and> ch_notify c' = ch_notify c \<and> ch_request c' = ch_request c
    \<and> (\<forall>e \<in> set es. notified e \<longrightarrow> ch_notify c \<and> dbus
         \<and> (\<exists>text. text \<noteq> [] \<and> e = NotifyUser ''Roci'' (take_chars 280 text) Normal
              \<and> ChatComplete (ch_request c) text \<in> set (said es)))"
  using assms
proof (induction rule: chat_trace.induct)
  case (trace_step es c' cancelled h fs c'' h')
  note IH = trace_step.IH [OF trace_step.prems]
  from chat_step_notifies [OF trace_step.hyps(2)] IH
  have "length (filter notified (es @ fs)) \<le> (if ended (ch_phase c'') then 1 else 0)"
    by (auto split: if_splits)
  moreover have "ch_notify c \<and> dbus \<and> (\<exists>text. text \<noteq> [] \<and> e = NotifyUser ''Roci'' (take_chars 280 text) Normal
              \<and> ChatComplete (ch_request c) text \<in> set (said (es @ fs)))"
    if "e \<in> set (es @ fs)" "notified e" for e
    using that IH chat_step_notified [OF trace_step.hyps(2) _ that(2)] by fastforce
  ultimately show ?case using IH chat_step_frame [OF trace_step.hyps(2)] by simp
qed (simp add: ended_def)

section \<open>Progress\<close>

text \<open>
  A turn waits only in its loop, with no cancel request and an open channel with nothing in it.
\<close>

lemma chat_progress:
  "(\<exists>es c' h'. chat_step dbus cancelled c h es c' h') \<longleftrightarrow>
     ch_phase c \<noteq> Done
     \<and> (ch_phase c = Looping \<longrightarrow>
          cancelled \<or> queue (from_chans h (ch_rx c)) \<noteq> [] \<or> tx_count (from_chans h (ch_rx c)) = 0)"
    (is "?step \<longleftrightarrow> ?ready")
proof
  assume ?step
  then obtain es c' h' where "chat_step dbus cancelled c h es c' h'" by blast
  then show ?ready
    by (cases rule: chat_step.cases)
      (auto simp: chat_frame_def frame_arm_def recv_frame_def chan_recv_def Let_def case_prod_beta
        split: list.splits if_splits)
next
  assume ready: ?ready
  have frame: "\<exists>r. chat_frame dbus c h = Some r"
    if "queue (from_chans h (ch_rx c)) \<noteq> [] \<or> tx_count (from_chans h (ch_rx c)) = 0"
    using that
    by (auto simp: chat_frame_def frame_arm_def recv_frame_def chan_recv_def Let_def case_prod_beta
        neq_Nil_conv split: list.splits from_adapter.splits)
  show ?step
  proof (cases "ch_phase c")
    case Looping
    with ready frame show ?thesis
      by (metis chat_step.step_cancel chat_step.step_frame prod.collapse)
  qed (use ready in \<open>metis chat_step.intros prod.collapse\<close>)+
qed

section \<open>The turn's guarantees\<close>

text \<open>
  C8: whatever the other tasks do to the hub and whenever the client cancels, a chat request is told a
  number of drafts of its own, in the order they were relayed, and then, when the turn ends, exactly
  one final message of its own, the complete reply or an error; after that the turn says nothing.
\<close>

theorem turn_ends_once:
  assumes "chat_trace dbus (handle_chat now rand rid session_id message) es c'"
  shows "\<exists>texts. if ended (ch_phase c')
    then \<exists>m. said es = map (daemon_message.Draft rid) texts @ [m] \<and> is_terminal m
           \<and> addressed_to m = Some rid
    else said es = map (daemon_message.Draft rid) texts"
proof -
  have "ch_phase (handle_chat now rand rid session_id message) = Opening"
    and "ch_request (handle_chat now rand rid session_id message) = rid"
    by (simp_all add: handle_chat_def Let_def)
  with chat_trace_turn [OF assms] show ?thesis
    by (auto simp: turn_shape_def Let_def split: if_splits)
qed

text \<open>A turn that finds no adapter.\<close>

definition offline_effects :: "string \<Rightarrow> effect list" where
  "offline_effects rid = [send_error rid ''desktop platform offline'']"

lemma offline_trace:
  assumes "ch_phase c = Opening"
  shows "\<exists>c'. chat_trace dbus c (offline_effects (ch_request c)) c' \<and> ch_phase c' = Done"
proof -
  let ?c1 = "fst (chat_open c hub_new)" let ?h1 = "snd (chat_open c hub_new)"
  let ?c2 = "fst (chat_push ?c1 ?h1)" let ?h2 = "snd (chat_push ?c1 ?h1)"
  have 1: "chat_step dbus False c hub_new [] ?c1 ?h1"
    using assms by (intro chat_step.step_open) simp_all
  have p1: "ch_phase ?c1 = Sending"
    by (simp add: chat_open_def Let_def case_prod_beta)
  have 2: "chat_step dbus False ?c1 ?h1 [] ?c2 ?h2"
    using p1 by (intro chat_step.step_push) simp_all
  have p2: "ch_phase ?c2 = Rejecting" "ch_request ?c2 = ch_request c"
    by (simp_all add: chat_open_def chat_push_def send_inbound_def hub_new_def open_chat_def Let_def
        case_prod_beta)
  obtain es c3 h3 where r: "chat_reject ?c2 ?h2 = (es, c3, h3)" by (cases "chat_reject ?c2 ?h2")
  have 3: "chat_step dbus False ?c2 ?h2 es c3 h3"
    using p2 r by (intro chat_step.step_reject)
  from r p2 have "es = offline_effects (ch_request c)" "ch_phase c3 = Done"
    by (auto simp: chat_reject_def offline_effects_def Let_def)
  moreover have "chat_trace dbus c ((([] @ []) @ []) @ es) c3"
    by (intro chat_trace.trace_step [OF _ 3] chat_trace.trace_step [OF _ 2]
        chat_trace.trace_step [OF _ 1] chat_trace.trace_start)
  ultimately show ?thesis by auto
qed

theorem turn_ends_once_witness:
  "\<exists>c' texts m. chat_trace True (handle_chat None (\<lambda>_. 0) ''r'' None ''hi'') (offline_effects ''r'') c'
     \<and> said (offline_effects ''r'') = map (daemon_message.Draft ''r'') texts @ [m] \<and> is_terminal m"
proof -
  obtain c' where tr: "chat_trace True (handle_chat None (\<lambda>_. 0) ''r'' None ''hi'') (offline_effects ''r'') c'"
    and d: "ch_phase c' = Done"
    using offline_trace [of "handle_chat None (\<lambda>_. 0) ''r'' None ''hi''" True]
    by (auto simp: handle_chat_fields)
  from turn_ends_once [OF tr] tr d show ?thesis by (auto simp: ended_def)
qed

text \<open>
  C39: over a whole turn, whatever the other tasks do to the hub and whenever the client cancels, at most one desktop
  notification is raised, and only for a chat request without a session, when there is a session bus:
  it shows the complete reply that is told to the client, its first 280 characters or all of it when it
  is shorter, under the title \<open>Roci\<close> and with normal urgency, and never for an empty reply.
\<close>

theorem notification_shows_reply:
  assumes "chat_trace dbus (handle_chat now rand rid session_id message) es c'"
  shows "length (filter notified es) \<le> 1
    \<and> (\<forall>summary body urgency. NotifyUser summary body urgency \<in> set es \<longrightarrow>
         session_id = None \<and> dbus \<and> summary = ''Roci'' \<and> urgency = Normal
         \<and> (\<exists>text. ChatComplete rid text \<in> set (said es) \<and> text \<noteq> [] \<and> prefix body text
              \<and> char_count body = min 280 (char_count text)))"
proof -
  note inv = chat_trace_notified [OF assms handle_chat_fields(1)]
  have "session_id = None \<and> dbus \<and> summary = ''Roci'' \<and> urgency = Normal
         \<and> (\<exists>text. ChatComplete rid text \<in> set (said es) \<and> text \<noteq> [] \<and> prefix body text
              \<and> char_count body = min 280 (char_count text))"
    if e: "NotifyUser summary body urgency \<in> set es" for summary body urgency
  proof -
    from inv e have "ch_notify (handle_chat now rand rid session_id message)" dbus
      and "\<exists>text. text \<noteq> [] \<and> NotifyUser summary body urgency = NotifyUser ''Roci'' (take_chars 280 text) Normal
        \<and> ChatComplete rid text \<in> set (said es)"
      by (auto simp: handle_chat_fields)
    then show ?thesis
      by (auto simp: handle_chat_def Let_def char_count_take_chars take_chars_prefix)
  qed
  with inv show ?thesis by (auto split: if_splits)
qed

text \<open>A launcher chat that is answered at once.\<close>

lemma answered_trace:
  "\<exists>c'. chat_trace True (handle_chat None (\<lambda>_. 0) ''r'' None ''hi'')
     [NotifyUser ''Roci'' ''done'' Normal, ToConn (ChatComplete ''r'' ''done'')] c'"
proof -
  let ?c = "handle_chat None (\<lambda>_. 0) ''r'' None ''hi''" let ?h1 = "snd (socket_open hub_new)"
  let ?c1 = "fst (chat_open ?c hub_new)" let ?c2 = "fst (chat_push ?c1 ?h1)"
  let ?h = "hub_new\<lparr>from_chans := (\<lambda>_. \<lparr>queue = [Send ''c'' ''done''], tx_count = 1, rx_live = True\<rparr>)\<rparr>"
  let ?es = "[NotifyUser ''Roci'' ''done'' Normal, ToConn (ChatComplete ''r'' ''done'')]"
  have 1: "chat_step True False ?c hub_new [] ?c1 (snd (chat_open ?c hub_new))"
    by (intro chat_step.step_open) (simp_all add: handle_chat_fields)
  have c1: "ch_phase ?c1 = Sending" "ch_notify ?c1" "ch_request ?c1 = ''r''"
    by (simp_all add: chat_open_def handle_chat_def Let_def case_prod_beta)
  have 2: "chat_step True False ?c1 ?h1 [] ?c2 (snd (chat_push ?c1 ?h1))"
    by (intro chat_step.step_push) (simp_all add: c1)
  have c2: "ch_phase ?c2 = Looping" "ch_notify ?c2" "ch_request ?c2 = ''r''"
    using c1 by (simp_all add: chat_push_def send_inbound_def hub_new_def Let_def case_prod_beta)
  have "take_chars 280 ''done'' = ''done''" by (rule take_chars_all) simp
  with c2 obtain c' h' where "chat_frame True ?c2 ?h = Some (?es, c', h')"
    by (simp add: chat_frame_def frame_arm_def recv_frame_def chan_recv_def notify_launcher_def
        notify_max_len_def Let_def)
  with c2(1) have 3: "chat_step True False ?c2 ?h ?es c' h'" by (intro chat_step.step_frame)
  have "chat_trace True ?c (([] @ []) @ []) ?c2"
    by (intro chat_trace.trace_step [OF _ 2] chat_trace.trace_step [OF _ 1] chat_trace.trace_start)
  from chat_trace.trace_step [OF this 3] show ?thesis by auto
qed

theorem notification_shows_reply_witness:
  "\<exists>text. ChatComplete ''r'' text \<in> set [ChatComplete ''r'' ''done''] \<and> prefix ''done'' text
     \<and> length (filter notified [NotifyUser ''Roci'' ''done'' Normal, ToConn (ChatComplete ''r'' ''done'')]) \<le> 1"
proof -
  obtain c' where "chat_trace True (handle_chat None (\<lambda>_. 0) ''r'' None ''hi'')
     [NotifyUser ''Roci'' ''done'' Normal, ToConn (ChatComplete ''r'' ''done'')] c'"
    using answered_trace by blast
  from notification_shows_reply [OF this] show ?thesis by auto
qed

end
