(* ===== verification/Broadcast.thy ===== *)
theory Broadcast
  imports Hermes_Prelude
begin

text \<open>
  The broadcast channel that carries toasts and status events to every connection
  (\<open>tokio::sync::broadcast\<close>, a library the sources only call). Its documented contract: a receiver gets
  the values sent after it subscribed, in order; a receiver that falls more than the capacity behind
  is told how many it missed and continues with the oldest value still held; when every sender is gone,
  a receiver that has read everything is told so, each time it asks. The state is the list of all values
  sent, whether the senders are gone and, for a receiver, the position of the next value.
\<close>

datatype 'a bcast_recv = BcastOk 'a | Lagged nat | BcastEmpty | BcastClosed

definition bcast_recv :: "bool \<Rightarrow> nat \<Rightarrow> 'a list \<Rightarrow> nat \<Rightarrow> 'a bcast_recv \<times> nat" where
  "bcast_recv closed capacity log pos =
     (if pos + capacity < length log
      then (Lagged (length log - capacity - pos), length log - capacity)
      else if pos < length log then (BcastOk (log ! pos), Suc pos)
      else (if closed then BcastClosed else BcastEmpty, pos))"

text \<open>A receiver's history: what it was given, and how many values it was told it missed.\<close>

fun bcast_got :: "'a bcast_recv list \<Rightarrow> 'a list" where
  "bcast_got [] = []"
| "bcast_got (BcastOk x # rs) = x # bcast_got rs"
| "bcast_got (_ # rs) = bcast_got rs"

fun bcast_missed :: "'a bcast_recv list \<Rightarrow> nat" where
  "bcast_missed [] = 0"
| "bcast_missed (Lagged n # rs) = n + bcast_missed rs"
| "bcast_missed (_ # rs) = bcast_missed rs"

lemma bcast_recv_pos:
  "bcast_recv closed capacity log pos = (r, pos') \<Longrightarrow>
     pos' = pos + length (bcast_got [r]) + bcast_missed [r]
     \<and> (pos \<le> length log \<longrightarrow> pos' \<le> length log)"
  by (auto simp: bcast_recv_def split: if_splits)

lemma bcast_recv_item:
  "bcast_recv closed capacity log pos = (BcastOk x, pos') \<Longrightarrow>
     pos < length log \<and> x = log ! pos \<and> pos' = Suc pos"
  by (auto simp: bcast_recv_def split: if_splits)

lemma bcast_recv_window:
  "bcast_recv closed capacity log pos = (r, pos') \<Longrightarrow> r \<noteq> BcastEmpty \<Longrightarrow> r \<noteq> BcastClosed \<Longrightarrow> length log \<le> pos' + capacity"
  by (auto simp: bcast_recv_def split: if_splits)

end
