(* ===== verification/Ipc_Server.thy ===== *)
theory Ipc_Server
  imports Protocol Mpsc Broadcast
begin

text \<open>
  \<open>src/ipc/server.rs\<close>: the Unix-socket server. The first part is \<open>IpcServer::run\<close> with
  \<open>prepare_socket_path\<close>; the second is \<open>handle_connection\<close>, one connection with its reader, its writer
  and the request tasks it spawned.

  A connection is a state machine: the reader takes a line, a request task queues a message or ends,
  the writer writes a queued message or a broadcast event, and the reader may stop. Each is one
  function from the state to the next, \<open>None\<close> where it has to wait; \<open>conn_step\<close> puts them together.
  The request tasks are the \<open>MessageHandler\<close>'s: \<open>may\<close> tells which messages the handler may have sent
  for a request, so that the server is generic in its handler as the source is.
\<close>

section \<open>Starting and stopping\<close>

text \<open>What the socket path is before the start: nothing, a leftover, or a socket that answers.\<close>

datatype socket_file = Absent | Leftover | Listening

datatype os_action = RemoveFile | BindSocket | SetMode nat | ServeConnection

definition already_listening :: "string \<Rightarrow> string" where
  "already_listening path = ''a hermes-dms daemon is already listening on '' @ path"

text \<open>\<open>remove\<close> is the outcome of \<open>remove_file\<close>.\<close>

definition prepare_socket_path ::
    "string + unit \<Rightarrow> string \<Rightarrow> socket_file \<Rightarrow> (string + unit) \<times> os_action list" where
  "prepare_socket_path remove path file =
     (case file of
        Absent \<Rightarrow> (Inr (), [])
      | Listening \<Rightarrow> (Inl (already_listening path), [])
      | Leftover \<Rightarrow> (remove, [RemoveFile]))"

text \<open>
  \<open>IpcServer::run\<close>: \<open>accepted\<close> lists the outcomes of \<open>accept\<close> until the shutdown token fires; a failed
  accept is logged and the loop goes on.
\<close>

definition ipc_run ::
    "string + unit \<Rightarrow> string + unit \<Rightarrow> string + unit \<Rightarrow> bool list \<Rightarrow> string \<Rightarrow> socket_file
     \<Rightarrow> (string + unit) \<times> os_action list" where
  "ipc_run remove bind chmod accepted path file =
     (case prepare_socket_path remove path file of
        (Inl e, acts) \<Rightarrow> (Inl e, acts)
      | (Inr _, acts) \<Rightarrow>
          (case bind of
             Inl e \<Rightarrow> (Inl e, acts @ [BindSocket])
           | Inr _ \<Rightarrow>
               (case chmod of
                  Inl e \<Rightarrow> (Inl e, acts @ [BindSocket, SetMode 384])
                | Inr _ \<Rightarrow>
                    (Inr (),
                     acts @ [BindSocket, SetMode 384]
                     @ map (\<lambda>_. ServeConnection) (filter id accepted) @ [RemoveFile]))))"

section \<open>A connection\<close>

definition conn_queue :: nat where
  "conn_queue = 128"

text \<open>What the writer has put on the socket, and where it came from.\<close>

datatype written = Direct daemon_message | Event daemon_message

text \<open>
  A request's token is its position in \<open>requests\<close>, the requests handed to the handler so far;
  \<open>running\<close> tells which of their tasks have not ended, \<open>sent\<close> what each has queued, \<open>cancelled\<close> the
  tokens that were cancelled. \<open>outq\<close> is the connection's bounded queue, \<open>bpos\<close> the writer's position
  in the broadcast channel.
\<close>

record conn =
  subscribed :: bool
  in_flight :: "string \<rightharpoonup> nat"
  requests :: "client_message list"
  running :: "nat \<Rightarrow> bool"
  sent :: "nat \<Rightarrow> daemon_message list"
  cancelled :: "nat \<Rightarrow> bool"
  outq :: "daemon_message chan"
  wire_out :: "written list"
  bpos :: nat
  reading :: bool

definition conn_new :: "nat \<Rightarrow> conn" where
  "conn_new pos =
     \<lparr>subscribed = False, in_flight = Map.empty, requests = [], running = (\<lambda>_. False),
      sent = (\<lambda>_. []), cancelled = (\<lambda>_. False), outq = chan_new, wire_out = [], bpos = pos,
      reading = True\<rparr>"

text \<open>
  \<open>Conn::send\<close>: waits while the queue is full, drops the message when the writer is gone.
\<close>

definition conn_send :: "daemon_message \<Rightarrow> conn \<Rightarrow> conn option" where
  "conn_send m cs =
     (if rx_live (outq cs) \<and> conn_queue \<le> length (queue (outq cs)) then None
      else Some (cs\<lparr>outq := fst (chan_send m (outq cs))\<rparr>))"

text \<open>\<open>serde_json::from_str::<ClientMessage>\<close>: \<open>err\<close> is the text of the reader's error for a line.\<close>

definition read_request ::
    "(string \<Rightarrow> json option) \<Rightarrow> (string \<Rightarrow> string) \<Rightarrow> string \<Rightarrow> string + client_message" where
  "read_request parse err line =
     (case Option.bind (parse line) client_of_json of
        Some m \<Rightarrow> Inr m
      | None \<Rightarrow> Inl (err line))"

definition spawn_request :: "client_message \<Rightarrow> conn \<Rightarrow> conn" where
  "spawn_request msg cs =
     (let token = length (requests cs) in
      cs\<lparr>requests := requests cs @ [msg],
         running := (running cs)(token := True),
         in_flight := (case request_id msg of
                         None \<Rightarrow> in_flight cs
                       | Some i \<Rightarrow> (in_flight cs)(i \<mapsto> token))\<rparr>)"

definition cancel_request :: "string \<Rightarrow> conn \<Rightarrow> conn" where
  "cancel_request rid cs =
     (case in_flight cs rid of
        Some token \<Rightarrow> cs\<lparr>cancelled := (cancelled cs)(token := True)\<rparr>
      | None \<Rightarrow> cs)"

fun on_message :: "client_message \<Rightarrow> conn \<Rightarrow> conn" where
  "on_message (Subscribe _) cs = cs\<lparr>subscribed := True\<rparr>"
| "on_message (Cancel rid) cs = cancel_request rid cs"
| "on_message other cs = spawn_request other cs"

text \<open>One round of the reader loop with a line.\<close>

definition on_line ::
    "(string \<Rightarrow> json option) \<Rightarrow> (string \<Rightarrow> string) \<Rightarrow> string \<Rightarrow> conn \<Rightarrow> conn option" where
  "on_line parse err line cs =
     (if \<not> reading cs then None
      else if trim line = [] then Some cs
      else case read_request parse err line of
             Inl e \<Rightarrow> conn_send (Error None (''malformed request: '' @ e)) cs
           | Inr msg \<Rightarrow> Some (on_message msg cs))"

text \<open>The reader stops: shutdown, end of the stream or a read error; \<open>drop(conn)\<close>.\<close>

definition reader_stops :: "conn \<Rightarrow> conn" where
  "reader_stops cs = cs\<lparr>reading := False\<rparr>"

text \<open>The server's shutdown token fires: every request's token is its child, now and later.\<close>

definition shutdown_fires :: "conn \<Rightarrow> conn" where
  "shutdown_fires cs = cs\<lparr>cancelled := (\<lambda>_. True)\<rparr>"

text \<open>A request task queues a message, and a request task ends.\<close>

definition task_sends :: "nat \<Rightarrow> daemon_message \<Rightarrow> conn \<Rightarrow> conn option" where
  "task_sends token m cs =
     (if running cs token
      then map_option (\<lambda>cs'. cs'\<lparr>sent := (sent cs')(token := sent cs' token @ [m])\<rparr>)
             (conn_send m cs)
      else None)"

definition task_ends :: "nat \<Rightarrow> conn \<Rightarrow> conn option" where
  "task_ends token cs =
     (if running cs token
      then Some (cs\<lparr>running := (running cs)(token := False),
                    in_flight := (case request_id (requests cs ! token) of
                                    None \<Rightarrow> in_flight cs
                                  | Some i \<Rightarrow> (in_flight cs)(i := None))\<rparr>)
      else None)"

text \<open>
  The writer's two arms; \<open>ok\<close> is the outcome of \<open>write_line\<close>, \<open>closed\<close> that every sender of the broadcast
  channel is gone, which the writer ignores. A failed write ends the writer, which
  drops the queue's receiver.
\<close>

definition writer_direct :: "bool \<Rightarrow> conn \<Rightarrow> conn option" where
  "writer_direct ok cs =
     (if \<not> rx_live (outq cs) then None
      else case chan_recv (outq cs) of
             (ch, Item m) \<Rightarrow>
               Some (if ok then cs\<lparr>outq := ch, wire_out := wire_out cs @ [Direct m]\<rparr>
                     else cs\<lparr>outq := chan_drop_rx ch\<rparr>)
           | _ \<Rightarrow> None)"

text \<open>
  The writer also ends when \<open>recv\<close> gives \<open>None\<close>: the queue is empty, the reader has dropped its
  \<open>Conn\<close> and so has every request task.
\<close>

definition writer_ends :: "conn \<Rightarrow> conn option" where
  "writer_ends cs =
     (if rx_live (outq cs) \<and> queue (outq cs) = [] \<and> \<not> reading cs
         \<and> list_all (\<lambda>t. \<not> running cs t) [0..<length (requests cs)]
      then Some (cs\<lparr>outq := chan_drop_rx (outq cs)\<rparr>) else None)"

definition writer_event :: "bool \<Rightarrow> bool \<Rightarrow> nat \<Rightarrow> daemon_message list \<Rightarrow> conn \<Rightarrow> conn option" where
  "writer_event ok closed capacity log cs =
     (if \<not> rx_live (outq cs) then None
      else case bcast_recv closed capacity log (bpos cs) of
             (BcastOk m, p) \<Rightarrow>
               Some (let cs' = cs\<lparr>bpos := p\<rparr> in
                     if \<not> subscribed cs then cs'
                     else if ok then cs'\<lparr>wire_out := wire_out cs @ [Event m]\<rparr>
                     else cs'\<lparr>outq := chan_drop_rx (outq cs)\<rparr>)
           | (Lagged _, p) \<Rightarrow> Some (cs\<lparr>bpos := p\<rparr>)
           | (BcastClosed, _) \<Rightarrow> Some cs
           | (BcastEmpty, _) \<Rightarrow> None)"

section \<open>Steps\<close>

text \<open>
  \<open>conn_step may log cs cs'\<close>: one step of the connection when the values broadcast so far are \<open>log\<close>.
\<close>

inductive conn_step ::
    "(client_message \<Rightarrow> daemon_message list \<Rightarrow> bool) \<Rightarrow> daemon_message list \<Rightarrow> conn \<Rightarrow> conn \<Rightarrow> bool"
  for may log
where
  conn_line: "on_line parse err l cs = Some cs' \<Longrightarrow> conn_step may log cs cs'"
| conn_stop: "conn_step may log cs (reader_stops cs)"
| conn_shutdown: "conn_step may log cs (shutdown_fires cs)"
| conn_end: "writer_ends cs = Some cs' \<Longrightarrow> conn_step may log cs cs'"
| conn_reply: "task_sends token m cs = Some cs' \<Longrightarrow> may (requests cs ! token) (sent cs token @ [m]) \<Longrightarrow>
    conn_step may log cs cs'"
| conn_finish: "task_ends token cs = Some cs' \<Longrightarrow> conn_step may log cs cs'"
| conn_write: "writer_direct ok cs = Some cs' \<Longrightarrow> conn_step may log cs cs'"
| conn_event: "writer_event ok closed capacity log cs = Some cs' \<Longrightarrow> conn_step may log cs cs'"

text \<open>The states of a connection: the broadcast channel only grows.\<close>

inductive conn_reach ::
    "(client_message \<Rightarrow> daemon_message list \<Rightarrow> bool) \<Rightarrow> daemon_message list \<Rightarrow> conn \<Rightarrow> bool"
  for may
where
  reach_new: "conn_reach may log (conn_new (length log))"
| reach_step: "conn_reach may log cs \<Longrightarrow> conn_step may log cs cs' \<Longrightarrow> conn_reach may log cs'"
| reach_bcast: "conn_reach may log cs \<Longrightarrow> conn_reach may (log @ [m]) cs"

section \<open>Effects of the steps\<close>

lemma conn_send_Some:
  "conn_send m cs = Some cs' \<Longrightarrow>
     cs' = cs\<lparr>outq := fst (chan_send m (outq cs))\<rparr>
     \<and> (rx_live (outq cs) \<longrightarrow> length (queue (outq cs)) < conn_queue)"
  by (auto simp: conn_send_def split: if_splits)

lemma spawn_request_simps [simp]:
  "subscribed (spawn_request msg cs) = subscribed cs"
  "requests (spawn_request msg cs) = requests cs @ [msg]"
  "running (spawn_request msg cs) = (running cs)(length (requests cs) := True)"
  "sent (spawn_request msg cs) = sent cs"
  "cancelled (spawn_request msg cs) = cancelled cs"
  "outq (spawn_request msg cs) = outq cs"
  "wire_out (spawn_request msg cs) = wire_out cs"
  "bpos (spawn_request msg cs) = bpos cs"
  "in_flight (spawn_request msg cs) =
     (case request_id msg of None \<Rightarrow> in_flight cs
      | Some i \<Rightarrow> (in_flight cs)(i \<mapsto> length (requests cs)))"
  by (simp_all add: spawn_request_def Let_def)

lemma cancel_request_simps [simp]:
  "subscribed (cancel_request rid cs) = subscribed cs"
  "requests (cancel_request rid cs) = requests cs"
  "running (cancel_request rid cs) = running cs"
  "sent (cancel_request rid cs) = sent cs"
  "outq (cancel_request rid cs) = outq cs"
  "wire_out (cancel_request rid cs) = wire_out cs"
  "bpos (cancel_request rid cs) = bpos cs"
  "in_flight (cancel_request rid cs) = in_flight cs"
  by (simp_all add: cancel_request_def split: option.splits)

lemma on_message_spawn:
  "(\<And>r. msg \<noteq> Cancel r) \<Longrightarrow> (\<And>r. msg \<noteq> Subscribe r) \<Longrightarrow> on_message msg cs = spawn_request msg cs"
  by (cases msg) auto

text \<open>A line changes the state in one of five ways.\<close>

lemma on_line_cases:
  assumes "on_line parse err l cs = Some cs'"
  obtains (blank) "cs' = cs"
  | (malformed)
      "cs' = cs\<lparr>outq := fst (chan_send (Error None (''malformed request: '' @ err l)) (outq cs))\<rparr>"
      "rx_live (outq cs) \<longrightarrow> length (queue (outq cs)) < conn_queue"
  | (subscribe) "cs' = cs\<lparr>subscribed := True\<rparr>"
  | (cancel) rid where "cs' = cancel_request rid cs"
  | (spawn) msg where "cs' = spawn_request msg cs" "\<And>r. msg \<noteq> Cancel r" "\<And>r. msg \<noteq> Subscribe r"
proof -
  consider "cs' = cs"
    | "conn_send (Error None (''malformed request: '' @ err l)) cs = Some cs'"
    | msg where "cs' = on_message msg cs"
  proof (cases "trim l = []")
    case True
    with assms that(1) show ?thesis by (simp add: on_line_def split: if_splits)
  next
    case False
    with assms that(2,3) show ?thesis
      by (cases "read_request parse err l")
        (auto simp: on_line_def read_request_def split: if_splits option.splits)
  qed
  then show thesis
  proof cases
    case 1
    then show ?thesis by (rule blank)
  next
    case 2
    from conn_send_Some [OF this] show ?thesis by (intro malformed) simp_all
  next
    case (3 msg)
    note msg = this
    consider (sub) r where "msg = Subscribe r" | (can) r where "msg = Cancel r"
      | (other) "\<And>r. msg \<noteq> Cancel r" "\<And>r. msg \<noteq> Subscribe r"
      by blast
    then show ?thesis
    proof cases
      case (sub r)
      with msg show ?thesis by (intro subscribe) simp
    next
      case (can r)
      with msg have "cs' = cancel_request r cs" by simp
      then show ?thesis by (rule cancel)
    next
      case other
      with msg have "cs' = spawn_request msg cs" by (simp add: on_message_spawn)
      then show ?thesis using other by (rule spawn)
    qed
  qed
qed

section \<open>The invariant of a connection\<close>

text \<open>
  An entry of \<open>in_flight\<close> leads to a running task of that very request id, and the queue never holds
  more than its capacity. \<open>Subscribe\<close> and \<open>Cancel\<close> never reach the handler.
\<close>

definition conn_inv :: "conn \<Rightarrow> bool" where
  "conn_inv cs =
     ((\<forall>i t. in_flight cs i = Some t \<longrightarrow> running cs t \<and> request_id (requests cs ! t) = Some i)
      \<and> (\<forall>t. running cs t \<longrightarrow> t < length (requests cs))
      \<and> length (queue (outq cs)) \<le> conn_queue
      \<and> (\<forall>m \<in> set (requests cs). (\<forall>r. m \<noteq> Cancel r) \<and> (\<forall>r. m \<noteq> Subscribe r)))"

lemma conn_inv_new: "conn_inv (conn_new pos)"
  by (simp add: conn_inv_def conn_new_def)

lemma conn_inv_spawn:
  assumes "conn_inv cs" and "\<And>r. msg \<noteq> Cancel r" and "\<And>r. msg \<noteq> Subscribe r"
  shows "conn_inv (spawn_request msg cs)"
proof -
  have old: "t < length (requests cs)" "request_id (requests cs ! t) = Some i"
    if "in_flight cs i = Some t" for i t
    using assms(1) that unfolding conn_inv_def by blast+
  then show ?thesis
    using assms unfolding conn_inv_def
    by (fastforce simp: nth_append less_Suc_eq split: option.splits if_splits)
qed

lemma conn_inv_line:
  assumes "on_line parse err l cs = Some cs'" and "conn_inv cs"
  shows "conn_inv cs'"
  using assms(1)
proof (cases rule: on_line_cases)
  case malformed
  with assms(2) show ?thesis by (auto simp: conn_inv_def)
next
  case (spawn msg)
  with assms(2) show ?thesis by (simp add: conn_inv_spawn)
qed (use assms(2) in \<open>simp_all add: conn_inv_def\<close>)

lemma conn_inv_sends:
  "task_sends token m cs = Some cs' \<Longrightarrow> conn_inv cs \<Longrightarrow> conn_inv cs'"
  by (auto simp: task_sends_def conn_inv_def dest!: conn_send_Some split: if_splits)

lemma conn_inv_ends:
  assumes "task_ends token cs = Some cs'" and "conn_inv cs"
  shows "conn_inv cs'"
  using assms by (auto simp: task_ends_def conn_inv_def split: if_splits option.splits)

lemma conn_inv_writer:
  "writer_direct ok cs = Some cs' \<Longrightarrow> conn_inv cs \<Longrightarrow> conn_inv cs'"
  "writer_event ok closed capacity log cs = Some cs' \<Longrightarrow> conn_inv cs \<Longrightarrow> conn_inv cs'"
  by (auto simp: writer_direct_def writer_event_def chan_recv_def conn_inv_def Let_def
      split: if_splits list.splits recv.splits prod.splits bcast_recv.splits)

lemma conn_step_inv: "conn_step may log cs cs' \<Longrightarrow> conn_inv cs \<Longrightarrow> conn_inv cs'"
proof (induction rule: conn_step.induct)
  case (conn_stop cs)
  then show ?case by (simp add: conn_inv_def reader_stops_def)
next
  case (conn_shutdown cs)
  then show ?case by (simp add: conn_inv_def shutdown_fires_def)
next
  case (conn_end cs cs')
  then show ?case by (auto simp: conn_inv_def writer_ends_def split: if_splits)
qed (blast intro: conn_inv_line conn_inv_sends conn_inv_ends conn_inv_writer)+

lemma conn_reach_inv: "conn_reach may log cs \<Longrightarrow> conn_inv cs"
  by (induction rule: conn_reach.induct) (auto simp: conn_inv_new intro: conn_step_inv)

section \<open>Cancellation\<close>

text \<open>
  While no two running tasks share a request id, every running task with an id is the one its id
  leads to, so a cancel request reaches it.
\<close>

definition unique_ids :: "conn \<Rightarrow> bool" where
  "unique_ids cs =
     (\<forall>t t' i. running cs t \<and> running cs t' \<and> request_id (requests cs ! t) = Some i
        \<and> request_id (requests cs ! t') = Some i \<longrightarrow> t = t')"

definition tracked :: "conn \<Rightarrow> bool" where
  "tracked cs =
     (\<forall>t i. running cs t \<and> request_id (requests cs ! t) = Some i \<longrightarrow> in_flight cs i = Some t)"

lemma tracked_new: "tracked (conn_new pos)"
  by (simp add: tracked_def conn_new_def)

lemma tracked_spawn:
  assumes inv: "conn_inv cs" and tracked: "tracked cs" and unique: "unique_ids (spawn_request msg cs)"
  shows "tracked (spawn_request msg cs)"
  unfolding tracked_def
proof (intro allI impI, elim conjE)
  fix t i
  assume run: "running (spawn_request msg cs) t"
    and i: "request_id (requests (spawn_request msg cs) ! t) = Some i"
  let ?new = "length (requests cs)"
  show "in_flight (spawn_request msg cs) i = Some t"
  proof (cases "t = ?new")
    case True
    with i show ?thesis by simp
  next
    case False
    with run have old: "running cs t" by simp
    with inv have "t < ?new" by (simp add: conn_inv_def)
    with i have i': "request_id (requests cs ! t) = Some i" by (simp add: nth_append)
    have "request_id msg \<noteq> Some i"
    proof
      assume "request_id msg = Some i"
      with unique run i False show False
        unfolding unique_ids_def by (metis fun_upd_same nth_append_length spawn_request_simps(2,3))
    qed
    with tracked old i' show ?thesis
      by (auto simp: tracked_def split: option.splits)
  qed
qed

lemma tracked_ends:
  assumes "task_ends token cs = Some cs'" and "tracked cs" and "unique_ids cs"
  shows "tracked cs'"
  using assms
  by (auto simp: task_ends_def tracked_def unique_ids_def split: if_splits option.splits)

lemma tracked_step:
  assumes "conn_step may log cs cs'" and "conn_inv cs" and "tracked cs" and "unique_ids cs"
    and "unique_ids cs'"
  shows "tracked cs'"
  using assms(1)
proof (cases rule: conn_step.cases)
  case (conn_line parse err l)
  from conn_line(1) show ?thesis
  proof (cases rule: on_line_cases)
    case (spawn msg)
    with assms(2,3,5) show ?thesis by (simp add: tracked_spawn)
  qed (use assms(3) in \<open>simp_all add: tracked_def\<close>)
next
  case conn_stop
  with assms(3) show ?thesis by (simp add: tracked_def reader_stops_def)
next
  case conn_shutdown
  with assms(3) show ?thesis by (simp add: tracked_def shutdown_fires_def)
next
  case conn_end
  with assms(3) show ?thesis by (auto simp: tracked_def writer_ends_def split: if_splits)
next
  case (conn_reply token m)
  with assms(3) show ?thesis
    by (auto simp: task_sends_def tracked_def dest!: conn_send_Some split: if_splits)
next
  case (conn_finish token)
  with assms(3,4) show ?thesis by (blast intro: tracked_ends)
next
  case (conn_write ok)
  with assms(3) show ?thesis
    by (auto simp: writer_direct_def tracked_def
        split: if_splits recv.splits prod.splits)
next
  case (conn_event ok closed capacity)
  with assms(3) show ?thesis
    by (auto simp: writer_event_def tracked_def Let_def
        split: if_splits prod.splits bcast_recv.splits)
qed

text \<open>Runs in which a client never reuses the id of a request that is still running.\<close>

inductive conn_reach_unique ::
    "(client_message \<Rightarrow> daemon_message list \<Rightarrow> bool) \<Rightarrow> daemon_message list \<Rightarrow> conn \<Rightarrow> bool"
  for may
where
  unique_new: "conn_reach_unique may log (conn_new (length log))"
| unique_step: "conn_reach_unique may log cs \<Longrightarrow> conn_step may log cs cs' \<Longrightarrow> unique_ids cs' \<Longrightarrow>
    conn_reach_unique may log cs'"
| unique_bcast: "conn_reach_unique may log cs \<Longrightarrow> conn_reach_unique may (log @ [m]) cs"

lemma conn_reach_unique_reach: "conn_reach_unique may log cs \<Longrightarrow> conn_reach may log cs"
  by (induction rule: conn_reach_unique.induct) (auto intro: conn_reach.intros)

lemma conn_reach_unique_tracked: "conn_reach_unique may log cs \<Longrightarrow> tracked cs \<and> unique_ids cs"
proof (induction rule: conn_reach_unique.induct)
  case (unique_new log)
  then show ?case by (simp add: tracked_new) (simp add: unique_ids_def conn_new_def)
next
  case (unique_step log cs cs')
  then show ?case
    using tracked_step conn_reach_inv conn_reach_unique_reach by blast
qed simp

section \<open>The server's guarantees\<close>

text \<open>A connection on which one status request with the id \<open>r\<close> has been read.\<close>

definition one_request :: conn where
  "one_request = spawn_request (client_message.Status ''r'') (conn_new 0)"

lemma trim_line [simp]: "trim ''line'' = ''line''"
  by code_simp

lemma one_request_step: "conn_step may log (conn_new 0) one_request"
proof (rule conn_step.conn_line)
  show "on_line (\<lambda>_. Some (client_to_json (client_message.Status ''r''))) (\<lambda>_. []) ''line'' (conn_new 0)
      = Some one_request"
    by (simp add: on_line_def read_request_def client_roundtrip one_request_def
        conn_new_def [of 0] del: client_to_json.simps)
qed

lemma one_request_reach: "conn_reach_unique may [] one_request"
proof (rule conn_reach_unique.unique_step [OF _ one_request_step])
  show "conn_reach_unique may [] (conn_new 0)"
    using conn_reach_unique.unique_new [of may "[]"] by simp
  show "unique_ids one_request"
    by (simp add: unique_ids_def one_request_def conn_new_def)
qed

lemma one_request_simps [simp]:
  "running one_request 0" "requests one_request = [client_message.Status ''r'']"
  "outq one_request = chan_new" "reading one_request"
  by (simp_all add: one_request_def conn_new_def spawn_request_def Let_def)

text \<open>
  C15: as long as a client does not reuse the id of a request that still runs, a cancel request with the
  id of a running request cancels that request's token, and no other.
\<close>

theorem cancel_reaches_request:
  assumes "conn_reach_unique may log cs" and "running cs t"
    and "request_id (requests cs ! t) = Some i"
  shows "cancelled (cancel_request i cs) = (cancelled cs)(t := True)"
  using conn_reach_unique_tracked [OF assms(1)] assms(2,3)
  by (simp add: tracked_def cancel_request_def)

theorem cancel_reaches_request_witness:
  "cancelled (cancel_request ''r'' one_request) = (cancelled one_request)(0 := True)"
  by (rule cancel_reaches_request [OF one_request_reach [of "\<lambda>_ _. False"]]) simp_all

text \<open>
  C16: on every connection at most 128 messages wait, so a slow client slows its requests down instead
  of filling memory; an id in the table of requests leads to a running task of that id; and the
  handler never sees \<open>Subscribe\<close> or \<open>Cancel\<close>.
\<close>

theorem connection_invariant:
  assumes "conn_reach may log cs"
  shows "length (queue (outq cs)) \<le> 128
    \<and> (\<forall>i t. in_flight cs i = Some t \<longrightarrow>
         running cs t \<and> t < length (requests cs) \<and> request_id (requests cs ! t) = Some i)
    \<and> (\<forall>m \<in> set (requests cs). (\<forall>r. m \<noteq> Cancel r) \<and> (\<forall>r. m \<noteq> Subscribe r))"
  using conn_reach_inv [OF assms] by (auto simp: conn_inv_def conn_queue_def)

theorem connection_invariant_witness:
  "length (queue (outq one_request)) \<le> 128 \<and> request_id (requests one_request ! 0) = Some ''r''"
  using connection_invariant [OF conn_reach_unique_reach [OF one_request_reach [of "\<lambda>_ _. False"]]]
  by simp

text \<open>
  A line that is not a request is answered with an error that names no request, as soon as the
  queue has room; the connection goes on as if the line had not been sent. A blank line is ignored.
\<close>

theorem malformed_line_answered:
  assumes "reading cs" and "trim line \<noteq> []" and "Option.bind (parse line) client_of_json = None"
    and "rx_live (outq cs)" and "length (queue (outq cs)) < 128"
  shows "on_line parse err line cs =
      Some (cs\<lparr>outq := (outq cs)\<lparr>queue :=
        queue (outq cs) @ [Error None (''malformed request: '' @ err line)]\<rparr>\<rparr>)"
  using assms
  by (simp add: on_line_def read_request_def conn_send_def conn_queue_def chan_send_def)

theorem malformed_line_answered_witness:
  "on_line (\<lambda>_. None) (\<lambda>_. ''eof'') ''line'' one_request =
      Some (one_request\<lparr>outq := chan_new\<lparr>queue := [Error None ''malformed request: eof'']\<rparr>\<rparr>)"
  using malformed_line_answered [of one_request "''line''" "\<lambda>_. None" "\<lambda>_. ''eof''"] by simp

text \<open>
  C31: a daemon that is already listening is left alone: nothing is removed or bound. Connections are
  served only after the socket was bound and its mode set to \<open>0600\<close>, a file is removed before that
  only if nobody answered on it, and when serving ends the socket file is removed.
\<close>

theorem start_is_safe:
  "ipc_run remove bind chmod accepted path Listening = (Inl (already_listening path), [])
   \<and> (ServeConnection \<in> set (snd (ipc_run remove bind chmod accepted path file)) \<longrightarrow>
       bind = Inr () \<and> chmod = Inr () \<and> file \<noteq> Listening
       \<and> takeWhile (\<lambda>a. a \<noteq> ServeConnection) (snd (ipc_run remove bind chmod accepted path file)) =
           (if file = Leftover then [RemoveFile] else []) @ [BindSocket, SetMode 384]
       \<and> last (snd (ipc_run remove bind chmod accepted path file)) = RemoveFile)"
proof -
  have "takeWhile (\<lambda>a. a \<noteq> ServeConnection) (map (\<lambda>_. ServeConnection) xs) = []" for xs :: "bool list"
    by (cases xs) auto
  then show ?thesis
    by (cases "file"; cases "remove"; cases "bind"; cases "chmod")
      (auto simp: ipc_run_def prepare_socket_path_def)
qed

theorem start_is_safe_witness:
  "takeWhile (\<lambda>a. a \<noteq> ServeConnection)
     (snd (ipc_run (Inr ()) (Inr ()) (Inr ()) [False, True] ''s'' Leftover))
   = [RemoveFile, BindSocket, SetMode 384]"
  using start_is_safe [of "Inr ()" "Inr ()" "Inr ()" "[False, True]" "''s''" Leftover]
  by (simp add: ipc_run_def prepare_socket_path_def)

text \<open>
  C36: two running requests with one id: when the first ends it removes the entry that leads to the second,
  which from then on can no longer be cancelled.
\<close>

theorem reused_id_not_cancellable:
  assumes "running cs t" and "running cs u" and "t \<noteq> u"
    and "request_id (requests cs ! t) = Some i" and "task_ends t cs = Some cs'"
  shows "running cs' u \<and> cancel_request i cs' = cs'"
  using assms by (auto simp: task_ends_def cancel_request_def split: if_splits)

theorem reused_id_not_cancellable_witness:
  "\<exists>cs'. task_ends 0 (spawn_request (client_message.Status ''r'') one_request) = Some cs'
     \<and> running cs' 1 \<and> cancel_request ''r'' cs' = cs'"
proof -
  let ?cs = "spawn_request (client_message.Status ''r'') one_request"
  obtain cs' where ends: "task_ends 0 ?cs = Some cs'" by (simp add: task_ends_def)
  from reused_id_not_cancellable [OF _ _ _ _ ends, of 1 "''r''"] ends show ?thesis by simp
qed

end
