(* ===== verification/Ipc_Delivery.thy ===== *)
theory Ipc_Delivery
  imports Ipc_Server
begin

text \<open>
  What a client of the IPC server gets on its connection. The server's interface to its handler
  (\<open>trait MessageHandler\<close>) is the locale \<open>message_handler\<close>: \<open>may msg out\<close> tells that a handler task for
  \<open>msg\<close> may have queued exactly the messages \<open>out\<close>, and the handler promises to address all of them
  to the request. From that the server's own bookkeeping gives the guarantees of the connection.
\<close>

section \<open>Order and subscription\<close>

fun direct_of :: "written \<Rightarrow> daemon_message option" where
  "direct_of (Direct m) = Some m"
| "direct_of (Event _) = None"

fun event_of :: "written \<Rightarrow> daemon_message option" where
  "event_of (Event m) = Some m"
| "event_of (Direct _) = None"

definition directs :: "conn \<Rightarrow> daemon_message list" where
  "directs cs = List.map_filter direct_of (wire_out cs)"

definition events :: "conn \<Rightarrow> daemon_message list" where
  "events cs = List.map_filter event_of (wire_out cs)"

text \<open>
  While the writer is alive, what a task queued is on the wire or in the queue, in the task's order;
  only subscribers are sent events; and the events sent are values of the broadcast channel, in its
  order and each at most once.
\<close>

definition delivery_inv :: "daemon_message list \<Rightarrow> conn \<Rightarrow> bool" where
  "delivery_inv log cs =
     ((rx_live (outq cs) \<longrightarrow> (\<forall>t. subseq (sent cs t) (directs cs @ queue (outq cs))))
      \<and> (events cs \<noteq> [] \<longrightarrow> subscribed cs)
      \<and> bpos cs \<le> length log \<and> subseq (events cs) (take (bpos cs) log))"

lemma map_filter_append: "List.map_filter f (xs @ ys) = List.map_filter f xs @ List.map_filter f ys"
  by (simp add: List.map_filter_def)

lemma subseq_snoc: "subseq xs ys \<Longrightarrow> subseq (xs @ [x]) (ys @ [x])"
  by (simp add: subseq_append)

lemma subseq_extend: "subseq xs ys \<Longrightarrow> subseq xs (ys @ zs)"
  by (rule list_emb_prefix)

lemma subseq_single: "subseq [x] (ys @ [x])"
  using subseq_snoc [of "[]" ys x] by simp

lemma delivery_new: "delivery_inv log (conn_new (length log))"
  by (simp add: delivery_inv_def conn_new_def directs_def events_def List.map_filter_def)

lemma delivery_bcast: "delivery_inv log cs \<Longrightarrow> delivery_inv (log @ [m]) cs"
  by (auto simp: delivery_inv_def)

lemma delivery_line:
  assumes "on_line parse err l cs = Some cs'" and "delivery_inv log cs"
  shows "delivery_inv log cs'"
  using assms(1)
proof (cases rule: on_line_cases)
  case malformed
  with assms(2) show ?thesis
    by (auto simp: delivery_inv_def directs_def events_def intro: subseq_extend [of _ "_ @ _", simplified])
qed (use assms(2) in \<open>simp_all add: delivery_inv_def directs_def events_def\<close>)

lemma delivery_sends:
  assumes "task_sends token m cs = Some cs'" and "delivery_inv log cs"
  shows "delivery_inv log cs'"
proof -
  from assms(1) have cs': "cs' = cs\<lparr>outq := fst (chan_send m (outq cs)),
      sent := (sent cs)(token := sent cs token @ [m])\<rparr>"
    by (auto simp: task_sends_def dest!: conn_send_Some split: if_splits)
  show ?thesis
    using assms(2) unfolding cs' delivery_inv_def directs_def events_def
    by (auto intro: subseq_snoc [of _ "_ @ _", simplified] subseq_extend [of _ "_ @ _", simplified])
qed

lemma delivery_ends:
  "task_ends token cs = Some cs' \<Longrightarrow> delivery_inv log cs \<Longrightarrow> delivery_inv log cs'"
  by (auto simp: task_ends_def delivery_inv_def directs_def events_def split: if_splits)

text \<open>What the writer does with the next queued message.\<close>

lemma writer_direct_cases:
  assumes "writer_direct ok cs = Some cs'"
  obtains m q where "queue (outq cs) = m # q"
    and "cs' = (if ok then cs\<lparr>outq := (outq cs)\<lparr>queue := q\<rparr>, wire_out := wire_out cs @ [Direct m]\<rparr>
           else cs\<lparr>outq := chan_drop_rx ((outq cs)\<lparr>queue := q\<rparr>)\<rparr>)"
    and "rx_live (outq cs)"
  using assms
  by (auto simp: writer_direct_def chan_recv_def split: if_splits list.splits)

lemma delivery_direct:
  assumes "writer_direct ok cs = Some cs'" and "delivery_inv log cs"
  shows "delivery_inv log cs'"
proof -
  from assms(1) obtain m q where q: "queue (outq cs) = m # q"
    and cs': "cs' = (if ok then cs\<lparr>outq := (outq cs)\<lparr>queue := q\<rparr>, wire_out := wire_out cs @ [Direct m]\<rparr>
                else cs\<lparr>outq := chan_drop_rx ((outq cs)\<lparr>queue := q\<rparr>)\<rparr>)"
    and live: "rx_live (outq cs)"
    by (rule writer_direct_cases)
  show ?thesis
    using assms(2) q live unfolding cs'
    by (auto simp: delivery_inv_def directs_def events_def map_filter_append List.map_filter_simps)
qed

lemma delivery_event:
  assumes "writer_event ok closed capacity log cs = Some cs'" and "delivery_inv log cs"
  shows "delivery_inv log cs'"
proof (cases "bcast_recv closed capacity log (bpos cs)")
  case (Pair r p)
  show ?thesis
  proof (cases r)
    case (BcastOk m)
    with Pair have p: "bpos cs < length log" "m = log ! bpos cs" "p = Suc (bpos cs)"
      by (auto dest: bcast_recv_item)
    then have take: "take (Suc (bpos cs)) log = take (bpos cs) log @ [m]"
      by (simp add: take_Suc_conv_app_nth)
    from assms(1) Pair BcastOk have "cs' = (let c = cs\<lparr>bpos := p\<rparr> in
        if \<not> subscribed cs then c
        else if ok then c\<lparr>wire_out := wire_out cs @ [Event m]\<rparr>
        else c\<lparr>outq := chan_drop_rx (outq cs)\<rparr>)"
      by (simp add: writer_event_def split: if_splits)
    with assms(2) p(1,3) show ?thesis
      by (auto simp: delivery_inv_def directs_def events_def map_filter_append Let_def take
          List.map_filter_simps intro: subseq_snoc subseq_single subseq_extend)
  next
    case (Lagged n)
    with assms(1) Pair have cs': "cs' = cs\<lparr>bpos := p\<rparr>"
      by (simp add: writer_event_def split: if_splits)
    from Pair Lagged have p: "bpos cs \<le> p" "p \<le> length log"
      by (auto simp: bcast_recv_def split: if_splits)
    then have "take p log = take (bpos cs) log @ take (p - bpos cs) (drop (bpos cs) log)"
      by (metis le_add_diff_inverse take_add)
    with assms(2) p(2) show ?thesis
      unfolding cs' by (auto simp: delivery_inv_def directs_def events_def intro: subseq_extend)
  next
    case BcastEmpty
    with assms(1) Pair show ?thesis by (simp add: writer_event_def split: if_splits)
  next
    case BcastClosed
    with assms Pair show ?thesis by (simp add: writer_event_def split: if_splits)
  qed
qed

lemma delivery_step:
  assumes "conn_step may log cs cs'" and "delivery_inv log cs"
  shows "delivery_inv log cs'"
  using assms(1)
proof (cases rule: conn_step.cases)
  case conn_stop
  with assms(2) show ?thesis
    by (simp add: delivery_inv_def reader_stops_def directs_def events_def)
next
  case conn_shutdown
  with assms(2) show ?thesis
    by (simp add: delivery_inv_def shutdown_fires_def directs_def events_def)
next
  case conn_end
  with assms(2) show ?thesis
    by (auto simp: delivery_inv_def writer_ends_def directs_def events_def split: if_splits)
qed (use assms(2) in \<open>blast intro: delivery_line delivery_sends delivery_ends delivery_direct
      delivery_event\<close>)+

lemma conn_reach_delivery: "conn_reach may log cs \<Longrightarrow> delivery_inv log cs"
  by (induction rule: conn_reach.induct)
    (auto intro: delivery_new delivery_step delivery_bcast)

section \<open>The handler's contract\<close>

text \<open>Where a message queued on a connection may come from.\<close>

definition malformed_reply :: "daemon_message \<Rightarrow> bool" where
  "malformed_reply m = (\<exists>e. m = Error None (''malformed request: '' @ e))"

definition answers :: "conn \<Rightarrow> daemon_message \<Rightarrow> bool" where
  "answers cs m =
     (\<exists>r \<in> set (requests cs). \<exists>i. request_id r = Some i \<and> addressed_to m = Some i)"

definition queued :: "conn \<Rightarrow> daemon_message list" where
  "queued cs = directs cs @ queue (outq cs)"

definition answers_inv :: "conn \<Rightarrow> bool" where
  "answers_inv cs = (\<forall>m \<in> set (queued cs). malformed_reply m \<or> answers cs m)"

lemma answers_mono: "answers cs m \<Longrightarrow> set (requests cs) \<subseteq> set (requests cs') \<Longrightarrow> answers cs' m"
  by (auto simp: answers_def)

lemma answers_inv_mono:
  assumes "answers_inv cs" and "set (requests cs) \<subseteq> set (requests cs')"
    and "\<And>m. m \<in> set (queued cs') \<Longrightarrow> m \<in> set (queued cs) \<or> malformed_reply m \<or> answers cs' m"
  shows "answers_inv cs'"
  using assms answers_mono unfolding answers_inv_def by blast

text \<open>
  The replies to one request: with an id that no other request of the connection has, the messages
  addressed to it are exactly those its task queued, in that order.
\<close>

definition to_request :: "string \<Rightarrow> daemon_message \<Rightarrow> bool" where
  "to_request i m = (addressed_to m = Some i)"

definition sole_request :: "conn \<Rightarrow> nat \<Rightarrow> string \<Rightarrow> bool" where
  "sole_request cs t i =
     (t < length (requests cs) \<and> request_id (requests cs ! t) = Some i
      \<and> (\<forall>u < length (requests cs). request_id (requests cs ! u) = Some i \<longrightarrow> u = t))"

definition stream_inv :: "conn \<Rightarrow> bool" where
  "stream_inv cs =
     ((\<forall>t. length (requests cs) \<le> t \<longrightarrow> sent cs t = [])
      \<and> (rx_live (outq cs) \<longrightarrow>
           (\<forall>t i. sole_request cs t i \<longrightarrow> filter (to_request i) (queued cs) = sent cs t)))"

locale message_handler =
  fixes may :: "client_message \<Rightarrow> daemon_message list \<Rightarrow> bool"
  assumes may_addressed:
    "may msg out \<Longrightarrow> m \<in> set out \<Longrightarrow> \<exists>i. request_id msg = Some i \<and> addressed_to m = Some i"
begin

lemma answers_step:
  assumes "conn_step may log cs cs'" and inv: "answers_inv cs" and conn: "conn_inv cs"
  shows "answers_inv cs'"
  using assms(1)
proof (cases rule: conn_step.cases)
  case (conn_line parse err l)
  from conn_line show ?thesis
  proof (cases rule: on_line_cases)
    case malformed
    with inv show ?thesis
      by (auto simp: queued_def directs_def malformed_reply_def intro!: answers_inv_mono [OF inv]
          split: if_splits)
  qed (auto simp: queued_def directs_def intro!: answers_inv_mono [OF inv])
next
  case conn_stop
  then show ?thesis
    by (auto simp: reader_stops_def queued_def directs_def intro!: answers_inv_mono [OF inv])
next
  case conn_shutdown
  then show ?thesis
    by (auto simp: shutdown_fires_def queued_def directs_def intro!: answers_inv_mono [OF inv])
next
  case conn_end
  then show ?thesis
    by (auto simp: writer_ends_def queued_def directs_def intro!: answers_inv_mono [OF inv]
        split: if_splits)
next
  case (conn_reply token m)
  then have cs': "cs' = cs\<lparr>outq := fst (chan_send m (outq cs)),
      sent := (sent cs)(token := sent cs token @ [m])\<rparr>" and run: "running cs token"
    by (auto simp: task_sends_def dest!: conn_send_Some split: if_splits)
  from run conn have "requests cs ! token \<in> set (requests cs)"
    by (simp add: conn_inv_def)
  with may_addressed [OF conn_reply(2), of m] have "answers cs m"
    by (auto simp: answers_def)
  then show ?thesis
    unfolding cs'
    by (intro answers_inv_mono [OF inv])
      (auto simp: queued_def directs_def answers_def split: if_splits)
next
  case (conn_finish token)
  then obtain R F where cs': "cs' = cs\<lparr>running := R, in_flight := F\<rparr>"
    by (auto simp: task_ends_def split: if_splits)
  show ?thesis
    unfolding cs' by (intro answers_inv_mono [OF inv]) (simp_all add: queued_def directs_def)
next
  case (conn_write ok)
  from conn_write(1) obtain m q where q: "queue (outq cs) = m # q"
    and cs': "cs' = (if ok then cs\<lparr>outq := (outq cs)\<lparr>queue := q\<rparr>, wire_out := wire_out cs @ [Direct m]\<rparr>
           else cs\<lparr>outq := chan_drop_rx ((outq cs)\<lparr>queue := q\<rparr>)\<rparr>)"
    by (rule writer_direct_cases)
  show ?thesis
    unfolding cs' using q
    by (intro answers_inv_mono [OF inv])
      (auto simp: queued_def directs_def map_filter_append List.map_filter_simps split: if_splits)
next
  case (conn_event ok closed capacity)
  then show ?thesis
    by (intro answers_inv_mono [OF inv])
      (auto simp: writer_event_def queued_def directs_def map_filter_append Let_def
        List.map_filter_simps split: if_splits prod.splits bcast_recv.splits)
qed

lemma conn_reach_answers: "conn_reach may log cs \<Longrightarrow> answers_inv cs"
proof (induction rule: conn_reach.induct)
  case (reach_new log)
  then show ?case
    by (simp add: answers_inv_def queued_def directs_def conn_new_def List.map_filter_def)
next
  case (reach_step log cs cs')
  then show ?case using answers_step conn_reach_inv by blast
qed

text \<open>A message that is appended to the queue while nothing else changes.\<close>

lemma stream_inv_keep:
  assumes "stream_inv cs" and "requests cs' = requests cs" and "sent cs' = sent cs"
    and "rx_live (outq cs') \<Longrightarrow> rx_live (outq cs)"
    and "rx_live (outq cs') \<Longrightarrow> \<forall>i. filter (to_request i) (queued cs') = filter (to_request i) (queued cs)"
  shows "stream_inv cs'"
  using assms by (simp add: stream_inv_def sole_request_def)

lemma stream_inv_spawn:
  assumes inv: "stream_inv cs" and ans: "answers_inv cs"
  shows "stream_inv (spawn_request msg cs)"
proof -
  let ?cs = "spawn_request msg cs" let ?n = "length (requests cs)"
  have q: "queued ?cs = queued cs" by (simp add: queued_def directs_def)
  have new: "filter (to_request i) (queued cs) = []"
    if that0: "\<forall>u < ?n. request_id (requests cs ! u) \<noteq> Some i" for i
  proof -
    have "\<not> to_request i m" if m: "m \<in> set (queued cs)" for m
    proof
      assume "to_request i m"
      then have i: "addressed_to m = Some i" by (simp add: to_request_def)
      then have "\<not> malformed_reply m" by (auto simp: malformed_reply_def)
      with ans m have "answers cs m" by (auto simp: answers_inv_def)
      with i obtain r where "r \<in> set (requests cs)" "request_id r = Some i" by (auto simp: answers_def)
      with that0 show False by (metis in_set_conv_nth)
    qed
    then show ?thesis by (simp add: filter_empty_conv)
  qed
  have "filter (to_request i) (queued cs) = sent cs t"
    if live: "rx_live (outq cs)" and sole: "sole_request ?cs t i" for t i
  proof (cases "t = ?n")
    case True
    have "request_id (requests cs ! u) \<noteq> Some i" if "u < ?n" for u
      using sole that True by (auto simp: sole_request_def nth_append split: if_splits)
    with new True inv show ?thesis by (simp add: stream_inv_def)
  next
    case False
    with sole have "sole_request cs t i"
      by (auto simp: sole_request_def nth_append less_Suc_eq split: if_splits)
    with inv live show ?thesis by (simp add: stream_inv_def)
  qed
  with inv show ?thesis by (simp add: stream_inv_def q)
qed

lemma stream_step:
  assumes "conn_step may log cs cs'" and inv: "stream_inv cs" and conn: "conn_inv cs"
    and ans: "answers_inv cs"
  shows "stream_inv cs'"
  using assms(1)
proof (cases rule: conn_step.cases)
  case (conn_line parse err l)
  from conn_line show ?thesis
  proof (cases rule: on_line_cases)
    case (spawn msg)
    with stream_inv_spawn [OF inv ans] show ?thesis by simp
  next
    case malformed
    then show ?thesis
      by (intro stream_inv_keep [OF inv]) (simp_all add: queued_def directs_def to_request_def)
  qed (auto intro!: stream_inv_keep [OF inv] simp: queued_def directs_def)
next
  case conn_stop
  then show ?thesis
    by (intro stream_inv_keep [OF inv]) (simp_all add: reader_stops_def queued_def directs_def)
next
  case conn_shutdown
  then show ?thesis
    by (intro stream_inv_keep [OF inv]) (simp_all add: shutdown_fires_def queued_def directs_def)
next
  case conn_end
  then have cs': "cs' = cs\<lparr>outq := chan_drop_rx (outq cs)\<rparr>"
    by (auto simp: writer_ends_def split: if_splits)
  show ?thesis unfolding cs' by (rule stream_inv_keep [OF inv]) simp_all
next
  case (conn_reply token m)
  then have cs': "cs' = cs\<lparr>outq := fst (chan_send m (outq cs)),
      sent := (sent cs)(token := sent cs token @ [m])\<rparr>" and run: "running cs token"
    by (auto simp: task_sends_def dest!: conn_send_Some split: if_splits)
  from run conn have tok: "token < length (requests cs)" by (simp add: conn_inv_def)
  obtain j where j: "request_id (requests cs ! token) = Some j" "addressed_to m = Some j"
    using may_addressed [OF conn_reply(2), of m] by auto
  have mine: "to_request i m \<longleftrightarrow> t = token" if "sole_request cs t i" for t i
    using that tok j unfolding sole_request_def to_request_def by (metis option.inject)
  have same: "sole_request cs' t i = sole_request cs t i" for t i
    by (simp add: cs' sole_request_def)
  have out: "filter (to_request i) (queued cs') =
      filter (to_request i) (queued cs) @ (if to_request i m then [m] else [])" if "rx_live (outq cs)" for i
    using that by (simp add: cs' queued_def directs_def)
  have snt: "sent cs' t = sent cs t @ (if t = token then [m] else [])" for t
    by (simp add: cs')
  have "sent cs' t = []" if "length (requests cs) \<le> t" for t
    using that inv tok by (simp add: snt stream_inv_def)
  moreover have "filter (to_request i) (queued cs') = sent cs' t"
    if "rx_live (outq cs)" "sole_request cs t i" for t i
    using inv that out [OF that(1)] mine [OF that(2)] by (simp add: snt stream_inv_def)
  moreover have "requests cs' = requests cs" "rx_live (outq cs') = rx_live (outq cs)"
    by (simp_all add: cs')
  ultimately show ?thesis
    unfolding stream_inv_def by (simp add: same)
next
  case (conn_finish token)
  then obtain R F where "cs' = cs\<lparr>running := R, in_flight := F\<rparr>"
    by (auto simp: task_ends_def split: if_splits)
  then show ?thesis
    by (intro stream_inv_keep [OF inv]) (simp_all add: queued_def directs_def)
next
  case (conn_write ok)
  from conn_write(1) obtain m q where q: "queue (outq cs) = m # q"
    and cs': "cs' = (if ok then cs\<lparr>outq := (outq cs)\<lparr>queue := q\<rparr>, wire_out := wire_out cs @ [Direct m]\<rparr>
           else cs\<lparr>outq := chan_drop_rx ((outq cs)\<lparr>queue := q\<rparr>)\<rparr>)"
    by (rule writer_direct_cases)
  show ?thesis
    unfolding cs' using q
    by (intro stream_inv_keep [OF inv])
      (auto simp: queued_def directs_def map_filter_append List.map_filter_simps split: if_splits)
next
  case (conn_event ok closed capacity)
  then show ?thesis
    by (intro stream_inv_keep [OF inv])
      (auto simp: writer_event_def queued_def directs_def map_filter_append Let_def
        List.map_filter_simps split: if_splits prod.splits bcast_recv.splits)
qed

lemma conn_reach_stream: "conn_reach may log cs \<Longrightarrow> stream_inv cs"
proof (induction rule: conn_reach.induct)
  case (reach_new log)
  then show ?case by (simp add: stream_inv_def sole_request_def conn_new_def)
next
  case (reach_step log cs cs')
  then show ?case using stream_step conn_reach_inv conn_reach_answers by blast
qed

lemma reply_stream:
  assumes "conn_reach may log cs" and "rx_live (outq cs)" and "sole_request cs t i"
  shows "filter (to_request i) (queued cs) = sent cs t"
  using conn_reach_stream [OF assms(1)] assms(2,3) by (simp add: stream_inv_def)

text \<open>Everything on the wire answers a request of this client, reports a malformed line, or is an event.\<close>

lemma wire_sources:
  assumes "conn_reach may log cs" and "w \<in> set (wire_out cs)"
  shows "(\<exists>m. w = Direct m \<and> (malformed_reply m \<or> answers cs m))
    \<or> (\<exists>m. w = Event m \<and> m \<in> set log \<and> subscribed cs)"
proof (cases w)
  case (Direct m)
  with assms(2) have "m \<in> set (queued cs)"
    by (force simp: queued_def directs_def List.map_filter_def)
  with conn_reach_answers [OF assms(1)] Direct show ?thesis by (auto simp: answers_inv_def)
next
  case (Event m)
  with assms(2) have m: "m \<in> set (events cs)"
    by (force simp: events_def List.map_filter_def)
  from conn_reach_delivery [OF assms(1)]
  have sub: "subseq (events cs) (take (bpos cs) log)" and "events cs \<noteq> [] \<longrightarrow> subscribed cs"
    by (simp_all add: delivery_inv_def)
  with m have "subscribed cs" by auto
  moreover from sub m have "m \<in> set (take (bpos cs) log)"
    by (rule list_emb_set) simp
  ultimately show ?thesis using Event in_set_takeD by fastforce
qed

end

section \<open>The connection's guarantees\<close>

text \<open>
  C12: as long as the connection's writer runs, everything a request's handler queued has been written
  or waits to be written, in the order it was queued; events go to subscribers only, and they are
  values of the broadcast channel in its order, none of them twice.
\<close>

theorem delivery_in_order:
  assumes "conn_reach may log cs"
  shows "(rx_live (outq cs) \<longrightarrow> (\<forall>t. subseq (sent cs t) (directs cs @ queue (outq cs))))
    \<and> (events cs \<noteq> [] \<longrightarrow> subscribed cs) \<and> subseq (events cs) log"
proof -
  from conn_reach_delivery [OF assms] have inv: "delivery_inv log cs" .
  then have "subseq (events cs) (take (bpos cs) log @ drop (bpos cs) log)"
    unfolding delivery_inv_def by (blast intro: subseq_extend)
  with inv show ?thesis by (simp add: delivery_inv_def)
qed

theorem delivery_in_order_witness:
  "subseq (sent one_request 0) (directs one_request @ queue (outq one_request))
   \<and> subseq (events one_request) []"
  using delivery_in_order [OF conn_reach_unique_reach [OF one_request_reach [of "\<lambda>_ _. False"]]]
  by simp

text \<open>
  With a closed broadcast channel that is read to its end the arm for \<open>Closed\<close> is always ready, so a writer
  with nothing to write does not sleep but goes round its loop.
\<close>

lemma closed_arm_spins:
  assumes "rx_live (outq cs)" and "bpos cs = length log"
  shows "writer_event ok True capacity log cs = Some cs"
  using assms by (simp add: writer_event_def bcast_recv_def)

text \<open>
  When the client has gone and the last request has ended, the writer stops by itself; by then
  everything every request queued has been written, in order.
\<close>

lemma orderly_written:
  "delivery_inv log cs \<Longrightarrow> writer_ends cs = Some cs' \<Longrightarrow> subseq (sent cs t) (directs cs')"
  by (auto simp: writer_ends_def delivery_inv_def directs_def split: if_splits)

theorem orderly_end:
  assumes "conn_reach may log cs" and "writer_ends cs = Some cs'"
  shows "subseq (sent cs t) (directs cs')"
  using orderly_written [OF conn_reach_delivery [OF assms(1)] assms(2)] .

theorem orderly_end_witness:
  "\<exists>cs'. writer_ends (reader_stops (conn_new 0)) = Some cs'
     \<and> subseq (sent (reader_stops (conn_new 0)) 3) (directs cs')"
proof -
  have reach: "conn_reach (\<lambda>_ _. False) [] (reader_stops (conn_new 0))"
    using conn_reach.reach_new [of "\<lambda>_ _. False" "[]"]
    by (auto intro: conn_reach.reach_step conn_step.conn_stop)
  obtain cs' where "writer_ends (reader_stops (conn_new 0)) = Some cs'"
    by (simp add: writer_ends_def reader_stops_def conn_new_def)
  with orderly_end [OF reach this, of 3] show ?thesis by blast
qed

end
