(* ===== verification/Daemon.thy ===== *)
theory Daemon
  imports Daemon_Chat Ipc_Delivery Config_Resolve
begin

text \<open>
  The rest of \<open>src/daemon.rs\<close>: \<open>DaemonHandler::handle\<close> for every request, the health loop and the
  construction of the handler in \<open>run\<close>. A request other than a chat is answered in one go from the
  handler's state and what the REST clients return; a chat starts a turn of \<open>Daemon_Chat\<close>. Each request
  reads at most one of the two shared fields, once, and the state given is the state at that read.
\<close>

section \<open>The handler\<close>

text \<open>
  \<open>hd_up\<close> is the shared flag the health loop keeps, \<open>hd_selected\<close> the mutex around the model chosen
  with \<open>SetModel\<close>, \<open>hd_dbus\<close> whether there is a session bus.
\<close>

record handler =
  hd_hermes :: hermes_client
  hd_up :: bool
  hd_dbus :: bool
  hd_ollama :: "ollama_client option"
  hd_selected :: "string option"

definition handler_new ::
    "hermes_client \<Rightarrow> bool \<Rightarrow> bool \<Rightarrow> ollama_client option \<Rightarrow> handler" where
  "handler_new hermes up dbus ollama =
     \<lparr>hd_hermes = hermes, hd_up = up, hd_dbus = dbus, hd_ollama = ollama, hd_selected = None\<rparr>"

definition status_str :: "handler \<Rightarrow> string" where
  "status_str st = (if hd_up st then status_connected else status_disconnected)"

datatype handled = Replies "daemon_message list" | Turn chat

text \<open>\<open>send_error\<close> as a reply.\<close>

definition error_reply :: "string \<Rightarrow> string \<Rightarrow> daemon_message" where
  "error_reply rid message = Error (Some rid) message"

definition mark_active :: "string option \<Rightarrow> model_info \<Rightarrow> model_info" where
  "mark_active active m = m\<lparr>mi_active := (active = Some (mi_id m))\<rparr>"

fun handle ::
    "http \<Rightarrow> u64 option \<Rightarrow> (nat \<Rightarrow> u8) \<Rightarrow> handler \<Rightarrow> client_message \<Rightarrow> handler \<times> handled" where
  "handle env now rand st (Chat rid session_id message) =
     (st, Turn (handle_chat now rand rid session_id message))"
| "handle env now rand st (SessionCreate rid title) =
     (st, Replies [SessionCreated rid (new_desktop_session_id now rand) title (hd_selected st)])"
| "handle env now rand st (SessionList rid) =
     (st, Replies
        [case list_sessions env (hd_hermes st) of
           Inr all \<Rightarrow> Sessions rid (filter (\<lambda>s. si_source s = Some ''desktop'') all)
         | Inl e \<Rightarrow> error_reply rid (hermes_error_text e)])"
| "handle env now rand st (SessionMessages rid session_id) =
     (st, Replies
        [case get_messages env (hd_hermes st) session_id of
           Inr data \<Rightarrow> Messages rid session_id data
         | Inl e \<Rightarrow> error_reply rid (hermes_error_text e)])"
| "handle env now rand st (SessionResume rid session_id) =
     (st, Replies
        [case list_sessions env (hd_hermes st) of
           Inr all \<Rightarrow> Sessions rid (filter (\<lambda>s. si_id s = session_id) all)
         | Inl e \<Rightarrow> error_reply rid (hermes_error_text e)])"
| "handle env now rand st (client_message.Status rid) =
     (st, Replies [Status (status_str st) status_ready (Some rid)])"
| "handle env now rand st (ModelList rid) =
     (st, Replies
        [case hd_ollama st of
           Some ollama \<Rightarrow>
             (case list_models env ollama of
                Inr data \<Rightarrow> Models rid (map (mark_active (hd_selected st)) data)
              | Inl e \<Rightarrow> error_reply rid (ollama_error_text e))
         | None \<Rightarrow> error_reply rid ''model picker not configured''])"
| "handle env now rand st (SetModel rid model) = (st\<lparr>hd_selected := Some model\<rparr>, Replies [])"
| "handle env now rand st (Subscribe rid) = (st, Replies [])"
| "handle env now rand st (Cancel rid) = (st, Replies [])"

section \<open>The health loop\<close>

text \<open>
  One round: the probe's answer replaces the flag (\<open>swap\<close>), and a change is broadcast. \<open>health_run\<close>
  is the loop over the answers until shutdown: the flag at the end and the events sent.
\<close>

definition health_event :: "bool \<Rightarrow> daemon_message" where
  "health_event up =
     Status (if up then status_connected else status_disconnected) status_ready None"

definition health_round :: "bool \<Rightarrow> bool \<Rightarrow> bool \<times> daemon_message list" where
  "health_round was up = (up, if up \<noteq> was then [health_event up] else [])"

fun health_run :: "bool \<Rightarrow> bool list \<Rightarrow> bool \<times> daemon_message list" where
  "health_run was [] = (was, [])"
| "health_run was (up # ups) =
     (let (cur, ev) = health_round was up; (fin, evs) = health_run cur ups in (fin, ev @ evs))"

section \<open>Starting the daemon\<close>

definition broadcast_cap :: nat where
  "broadcast_cap = 256"

text \<open>The model picker's client: only with a token, and only if the HTTP client could be built.\<close>

definition ollama_of_config :: "string + unit \<Rightarrow> 'a config \<Rightarrow> ollama_client option" where
  "ollama_of_config build cfg =
     Option.bind (ollama_router_token cfg) (\<lambda>tok.
       case ollama_client_new build (ollama_router_url cfg) (Some tok) of
         Inr c \<Rightarrow> Some c
       | Inl _ \<Rightarrow> None)"

text \<open>
  What \<open>run\<close> sets up before it serves: the handler with \<open>hermes_up\<close> false and a new hub; \<open>dbus\<close> is
  whether the session bus answered, the \<open>build\<close>s are the outcomes of building the HTTP clients.
\<close>

definition daemon_start ::
    "string + unit \<Rightarrow> string + unit \<Rightarrow> bool \<Rightarrow> 'a config \<Rightarrow> string + handler \<times> hub" where
  "daemon_start build_hermes build_ollama dbus cfg =
     (case hermes_client_new build_hermes (hermes_api_url cfg) (hermes_api_key cfg) of
        Inl e \<Rightarrow> Inl (''building Hermes client: '' @ hermes_error_text e)
      | Inr hermes \<Rightarrow>
          Inr (handler_new hermes False dbus (ollama_of_config build_ollama cfg), hub_new))"

text \<open>\<open>main\<close>: the exit code. \<open>run\<close> is the outcome of \<open>daemon::run\<close> on the configuration.\<close>

definition daemon_main ::
    "(string \<Rightarrow> string + string) \<Rightarrow> (string \<Rightarrow> string + raw_config) \<Rightarrow> (string \<Rightarrow> string + 'a)
     \<Rightarrow> ('a config \<Rightarrow> string + unit) \<Rightarrow> env \<Rightarrow> string option \<Rightarrow> nat" where
  "daemon_main read parse_toml parse_addr run env cli_config =
     (case load read parse_toml parse_addr env (config_path env cli_config) of
        Inl _ \<Rightarrow> 1
      | Inr cfg \<Rightarrow> (case run cfg of Inr _ \<Rightarrow> 0 | Inl _ \<Rightarrow> 1))"

section \<open>Properties of the handler\<close>

text \<open>Which requests are answered at once, and which are not answered at all.\<close>

fun is_query :: "client_message \<Rightarrow> bool" where
  "is_query (Chat _ _ _) = False"
| "is_query (SetModel _ _) = False"
| "is_query (Subscribe _) = False"
| "is_query (Cancel _) = False"
| "is_query _ = True"

lemma handle_query:
  assumes "is_query msg"
  shows "fst (handle env now rand st msg) = st"
    and "\<exists>m. snd (handle env now rand st msg) = Replies [m] \<and> addressed_to m = request_id msg
      \<and> request_id msg \<noteq> None"
  using assms
  by (cases msg; auto simp: error_reply_def split: sum.splits option.splits)+

lemma handle_silent:
  "\<not> is_query msg \<Longrightarrow> (\<forall>r s t. msg \<noteq> Chat r s t) \<Longrightarrow> snd (handle env now rand st msg) = Replies []"
  by (cases msg) auto

lemma handle_turn:
  "snd (handle env now rand st msg) = Turn c \<longleftrightarrow>
     (\<exists>r s t. msg = Chat r s t \<and> c = handle_chat now rand r s t)"
  by (cases msg) auto

lemma handle_chat_simps [simp]:
  "ch_request (handle_chat now rand rid session_id message) = rid"
  "ch_message (handle_chat now rand rid session_id message) = message"
  "ch_notify (handle_chat now rand rid session_id message) = (session_id = None)"
  "ch_phase (handle_chat now rand rid session_id message) = Opening"
  "ch_chat (handle_chat now rand rid session_id message) =
     unwrap_or (new_desktop_session_id now rand) session_id"
  by (simp_all add: handle_chat_def Let_def)

text \<open>
  What a task of this handler may have queued for a request: the replies (or a prefix of them), or
  what a turn has said so far.
\<close>

definition daemon_may :: "client_message \<Rightarrow> daemon_message list \<Rightarrow> bool" where
  "daemon_may msg out =
     (\<exists>env now rand st.
        case snd (handle env now rand st msg) of
          Replies ms \<Rightarrow> prefix out ms
        | Turn c \<Rightarrow> \<exists>es c'. chat_trace (hd_dbus st) c es c' \<and> out = said es)"

lemma daemon_may_addressed:
  assumes "daemon_may msg out" and "m \<in> set out"
  shows "\<exists>i. request_id msg = Some i \<and> addressed_to m = Some i"
proof -
  from assms(1) obtain env now rand st where
    *: "case snd (handle env now rand st msg) of
          Replies ms \<Rightarrow> prefix out ms
        | Turn c \<Rightarrow> \<exists>es c'. chat_trace (hd_dbus st) c es c' \<and> out = said es"
    unfolding daemon_may_def by blast
  show ?thesis
  proof (cases "snd (handle env now rand st msg)")
    case (Replies ms)
    with * have "prefix out ms" by simp
    with assms(2) have "m \<in> set ms"
      by (auto dest: set_mono_prefix)
    show ?thesis
    proof (cases "is_query msg")
      case True
      with handle_query(2) [of msg env now rand st] Replies \<open>m \<in> set ms\<close> show ?thesis by auto
    next
      case False
      moreover have "\<forall>r s t. msg \<noteq> Chat r s t"
        using Replies by auto
      ultimately have "ms = []"
        using handle_silent [of msg env now rand st] Replies by simp
      with \<open>m \<in> set ms\<close> show ?thesis by simp
    qed
  next
    case (Turn c)
    then obtain r s t where msg: "msg = Chat r s t" and c: "c = handle_chat now rand r s t"
      by (auto simp: handle_turn)
    from * Turn obtain es c' where "chat_trace (hd_dbus st) c es c'" and "out = said es"
      by auto
    with chat_trace_turn [of "hd_dbus st" c es c'] assms(2) turn_shape_addressed
    show ?thesis by (auto simp: msg c)
  qed
qed

interpretation daemon_handler: message_handler daemon_may
  by unfold_locales (rule daemon_may_addressed)

section \<open>Properties of the health loop\<close>

lemma health_run_last: "fst (health_run was ups) = last (was # ups)"
  by (induction ups arbitrary: was)
    (auto simp: health_round_def Let_def case_prod_beta)

lemma health_event_inject [simp]: "health_event a = health_event b \<longleftrightarrow> a = b"
  by (auto simp: health_event_def status_connected_def status_disconnected_def)

text \<open>The transitions of a sequence of answers: those that differ from the one before.\<close>

fun transitions :: "bool \<Rightarrow> bool list \<Rightarrow> bool list" where
  "transitions was [] = []"
| "transitions was (up # ups) = (if up \<noteq> was then [up] else []) @ transitions up ups"

lemma health_run_events: "snd (health_run was ups) = map health_event (transitions was ups)"
  by (induction ups arbitrary: was)
    (auto simp: health_round_def Let_def case_prod_beta)

text \<open>They are the answers at the places where two neighbours differ.\<close>

lemma transitions_zip: "transitions was ups = map snd (filter (\<lambda>(old, up). up \<noteq> old) (zip (was # ups) ups))"
  by (induction ups arbitrary: was) auto

section \<open>The daemon's guarantees\<close>

text \<open>
  C11: whatever a client reads on its connection is a reply addressed to a request it made itself, or
  the report of a malformed line, or, for a subscriber, an event that was broadcast. No client is sent
  what belongs to another one's request.
\<close>

theorem clients_read_their_own_replies:
  assumes "conn_reach daemon_may log cs" and "w \<in> set (wire_out cs)"
  shows "(\<exists>m. w = Direct m
      \<and> ((\<exists>e. m = Error None (''malformed request: '' @ e))
         \<or> (\<exists>r \<in> set (requests cs). \<exists>i. request_id r = Some i \<and> addressed_to m = Some i)))
    \<or> (\<exists>m. w = Event m \<and> m \<in> set log \<and> subscribed cs)"
  using daemon_handler.wire_sources [OF assms] unfolding malformed_reply_def answers_def .

text \<open>A daemon connection that has answered one status request.\<close>

lemma status_answered:
  "\<exists>cs. conn_reach daemon_may [] cs \<and> wire_out cs = [Direct (Status ''connected'' ''ready'' (Some ''r''))]
     \<and> requests cs = [client_message.Status ''r'']"
proof -
  let ?m = "Status ''connected'' ''ready'' (Some ''r'')"
  let ?cs1 = "one_request\<lparr>outq := chan_new\<lparr>queue := [?m]\<rparr>, sent := (sent one_request)(0 := [?m])\<rparr>"
  let ?cs2 = "?cs1\<lparr>outq := chan_new, wire_out := [Direct ?m]\<rparr>"
  have sent0: "sent one_request 0 = []" and wire0: "wire_out one_request = []"
    by (simp_all add: one_request_def conn_new_def)
  have may: "daemon_may (client_message.Status ''r'') [?m]"
    unfolding daemon_may_def
    by (rule exI [of _ undefined], rule exI [of _ None], rule exI [of _ "\<lambda>_. 0"],
        rule exI [of _ "handler_new undefined True False None"])
      (simp add: status_str_def handler_new_def status_connected_def status_ready_def)
  have sends: "task_sends 0 ?m one_request = Some ?cs1"
    by (simp add: task_sends_def conn_send_def conn_queue_def chan_send_def sent0)
  have 1: "conn_step daemon_may [] one_request ?cs1"
    by (rule conn_step.conn_reply [OF sends]) (simp add: sent0 may)
  have writes: "writer_direct True ?cs1 = Some ?cs2"
    by (simp add: writer_direct_def chan_recv_def chan_new_def wire0)
  have 2: "conn_step daemon_may [] ?cs1 ?cs2"
    by (rule conn_step.conn_write [OF writes])
  have "conn_reach daemon_may [] ?cs2"
    by (rule conn_reach.reach_step [OF conn_reach.reach_step [OF _ 1] 2])
      (rule conn_reach_unique_reach [OF one_request_reach])
  then show ?thesis by (intro exI [of _ ?cs2]) simp
qed

theorem clients_read_their_own_replies_witness:
  "\<exists>r. (\<exists>cs. conn_reach daemon_may [] cs \<and> r \<in> set (requests cs)) \<and> request_id r = Some ''r''"
proof -
  obtain cs where reach: "conn_reach daemon_may [] cs"
    and w: "Direct (Status ''connected'' ''ready'' (Some ''r'')) \<in> set (wire_out cs)"
    using status_answered by force
  from clients_read_their_own_replies [OF reach w] reach show ?thesis by auto
qed

text \<open>
  C23: every request that asks for something gets exactly one reply, addressed to it, whatever the REST
  servers answer, and leaves the daemon's state alone; \<open>SetModel\<close> changes the chosen model and is not
  answered.
\<close>

theorem query_answered_once:
  "(is_query msg \<longrightarrow> fst (handle env now rand st msg) = st
      \<and> (\<exists>m i. snd (handle env now rand st msg) = Replies [m] \<and> request_id msg = Some i
           \<and> addressed_to m = Some i))
   \<and> handle env now rand st (SetModel rid model) = (st\<lparr>hd_selected := Some model\<rparr>, Replies [])"
  using handle_query [of msg env now rand st] by (cases "request_id msg") auto

theorem query_answered_once_witness:
  "\<exists>m. snd (handle (fixed_http JNull) None (\<lambda>_. 0)
         (handler_new \<lparr>hc_base_url = ''http://h'', hc_api_key = ''k''\<rparr> True False None)
         (SessionList ''r'')) = Replies [m] \<and> addressed_to m = Some ''r''"
  using query_answered_once [of "SessionList ''r''" "fixed_http JNull" None "\<lambda>_. 0"
      "handler_new \<lparr>hc_base_url = ''http://h'', hc_api_key = ''k''\<rparr> True False None"]
  by simp

text \<open>
  After \<open>SetModel\<close>, every model list the daemon gives is the router's catalog with exactly the
  chosen model marked active, and a new session carries the chosen model.
\<close>

theorem chosen_model_is_active:
  assumes "hd_ollama st = Some oc" and "list_models env oc = Inr ms"
  shows "(\<exists>ms'. snd (handle env now rand (fst (handle env now' rand' st (SetModel r model))) (ModelList rid))
        = Replies [Models rid ms']
      \<and> map mi_id ms' = map mi_id ms \<and> map mi_loaded ms' = map mi_loaded ms
      \<and> (\<forall>m \<in> set ms'. mi_active m \<longleftrightarrow> mi_id m = model))
    \<and> (\<exists>sid. snd (handle env now rand (fst (handle env now' rand' st (SetModel r model)))
        (SessionCreate rid title)) = Replies [SessionCreated rid sid title (Some model)])"
  using assms by (auto simp: mark_active_def comp_def)

theorem chosen_model_is_active_witness:
  "\<exists>ms'. snd (handle (fixed_http (JObj [(''data'', JArr [JObj [(''id'', JStr ''m'')]])])) None (\<lambda>_. 0)
       (fst (handle (fixed_http JNull) None (\<lambda>_. 0)
          (handler_new \<lparr>hc_base_url = ''http://h'', hc_api_key = ''k''\<rparr> True False
             (Some \<lparr>oc_base_url = ''http://o'', oc_token = None\<rparr>)) (SetModel None ''m''))) (ModelList ''r''))
     = Replies [Models ''r'' ms'] \<and> map mi_id ms' = [''m'']"
proof -
  let ?v = "JObj [(''data'', JArr [JObj [(''id'', JStr ''m'')]])]"
  let ?oc = "\<lparr>oc_base_url = ''http://o'', oc_token = None\<rparr>"
  let ?st = "handler_new \<lparr>hc_base_url = ''http://h'', hc_api_key = ''k''\<rparr> True False (Some ?oc)"
  have "de_data v1_model_of_json ?v = Some [''m'']"
    by (simp add: de_data_def struct_fields_def req_field_def v1_model_of_json_def de_vec_def)
  from ollama_get_fixed [where de = "de_data v1_model_of_json", OF this]
  obtain ms where "list_models (fixed_http ?v) ?oc = Inr ms" and "map mi_id ms = [''m'']"
    by (auto simp: list_models_def Let_def comp_def)
  with chosen_model_is_active [of ?st ?oc "fixed_http ?v" ms] show ?thesis
    by (auto simp: handler_new_def)
qed

text \<open>
  The session list holds exactly the Hermes sessions of the desktop platform, in the server's
  order; resuming gives exactly the sessions with the id asked for, which is none when the server no
  longer knows it.
\<close>

theorem session_lists:
  assumes "list_sessions env (hd_hermes st) = Inr all"
  shows "handle env now rand st (SessionList rid) =
      (st, Replies [Sessions rid (filter (\<lambda>s. si_source s = Some ''desktop'') all)])
    \<and> handle env now rand st (SessionResume rid sid) =
      (st, Replies [Sessions rid (filter (\<lambda>s. si_id s = sid) all)])"
  using assms by simp

theorem session_lists_witness:
  "handle (fixed_http (JObj [(''data'', JArr [])])) None (\<lambda>_. 0)
     (handler_new \<lparr>hc_base_url = ''http://h'', hc_api_key = ''k''\<rparr> True False None)
     (SessionResume ''r'' ''gone'') =
   (handler_new \<lparr>hc_base_url = ''http://h'', hc_api_key = ''k''\<rparr> True False None,
    Replies [Sessions ''r'' []])"
proof -
  let ?v = "JObj [(''data'', JArr [])]"
  let ?st = "handler_new \<lparr>hc_base_url = ''http://h'', hc_api_key = ''k''\<rparr> True False None"
  have "de_data session_info_of_json ?v = Some []"
    by (simp add: de_data_def struct_fields_def req_field_def de_vec_def)
  from hermes_get_fixed [where de = "de_data session_info_of_json", OF this]
  have "list_sessions (fixed_http ?v) (hd_hermes ?st) = Inr []"
    by (simp add: list_sessions_def)
  from session_lists [OF this] show ?thesis by simp
qed

text \<open>
  C38: over any sequence of health probes, subscribers are sent exactly one status event for every probe
  whose answer differs from the one before (from the flag as it was, for the first), in the order of the
  probes and with that answer, and no other; and the daemon then reports the last answer.
\<close>

theorem health_events_are_changes:
  "snd (health_run was ups) =
     map (\<lambda>(old, up). Status (if up then ''connected'' else ''disconnected'') ''ready'' None)
       (filter (\<lambda>(old, up). up \<noteq> old) (zip (was # ups) ups))
   \<and> fst (health_run was ups) = last (was # ups)"
  by (simp add: health_run_events health_run_last transitions_zip health_event_def [abs_def]
      status_connected_def status_disconnected_def status_ready_def case_prod_beta')

text \<open>
  The daemon starts whenever its Hermes client can be built, disconnected until the first probe
  and with no adapter and no chosen model; it offers a model picker exactly if a token is configured
  and the router's client can be built.
\<close>

theorem start_state:
  "daemon_start build_hermes build_ollama dbus cfg =
     (case build_hermes of
        Inl e \<Rightarrow> Inl (''building Hermes client: HTTP transport error: '' @ e)
      | Inr _ \<Rightarrow>
          Inr (\<lparr>hd_hermes = \<lparr>hc_base_url = trim_end_matches (CHR ''/'') (hermes_api_url cfg),
                             hc_api_key = hermes_api_key cfg\<rparr>,
                hd_up = False, hd_dbus = dbus,
                hd_ollama =
                  (case (build_ollama, ollama_router_token cfg) of
                     (Inr _, Some tok) \<Rightarrow>
                       Some \<lparr>oc_base_url = trim_end_matches (CHR ''/'') (ollama_router_url cfg),
                             oc_token = Some tok\<rparr>
                   | _ \<Rightarrow> None),
                hd_selected = None\<rparr>, hub_new))"
  by (simp add: daemon_start_def hermes_client_new_def ollama_of_config_def ollama_client_new_def
      handler_new_def split: sum.split option.split)

end
