(* ===== verification/Mcp_Server.thy ===== *)
theory Mcp_Server
  imports Protocol Desktop
begin

text \<open>
  \<open>src/mcp/server.rs\<close> and \<open>src/mcp/tools.rs\<close>: the Bearer check in front of \<open>/mcp\<close> and \<open>/gateway\<close>, the
  list of accepted hosts, and the three desktop tools. The services behind the check (rmcp, axum's
  router) are the argument \<open>inner\<close>.
\<close>

section \<open>The Bearer layer\<close>

text \<open>A request as the layer sees it: its path and the values of the \<open>Authorization\<close> header.\<close>

record web_request =
  wr_path :: string
  wr_authorization :: "string list"

datatype 'r web_reply = Unauthorized | Passed 'r

text \<open>\<open>HeaderValue::to_str\<close>: only visible ASCII and tabs can be read as text.\<close>

definition visible_ascii :: "char \<Rightarrow> bool" where
  "visible_ascii c =
     (32 \<le> (of_char c :: nat) \<and> (of_char c :: nat) < 127 \<or> (of_char c :: nat) = 9)"

definition header_to_str :: "string \<Rightarrow> string option" where
  "header_to_str v = (if list_all visible_ascii v then Some v else None)"

definition bearer :: string where
  "bearer = ''Bearer ''"

definition provided_token :: "web_request \<Rightarrow> string option" where
  "provided_token req =
     (case wr_authorization req of
        [] \<Rightarrow> None
      | v # _ \<Rightarrow> Option.bind (header_to_str v) (strip_prefix bearer))"

definition require_bearer ::
    "string \<Rightarrow> (web_request \<Rightarrow> 'r) \<Rightarrow> web_request \<Rightarrow> 'r web_reply" where
  "require_bearer expected inner req =
     (case provided_token req of
        Some token \<Rightarrow> if token = expected then Passed (inner req) else Unauthorized
      | None \<Rightarrow> Unauthorized)"

text \<open>\<open>serve\<close>: with a configured token every route goes through the layer, without one none does.\<close>

definition serve_request ::
    "string option \<Rightarrow> (web_request \<Rightarrow> 'r) \<Rightarrow> web_request \<Rightarrow> 'r web_reply" where
  "serve_request auth_token inner req =
     (case auth_token of
        Some token \<Rightarrow> require_bearer token inner req
      | None \<Rightarrow> Passed (inner req))"

text \<open>The accepted \<open>Host\<close> values, from the texts of the bind address and of its IP.\<close>

definition allowed_hosts :: "string \<Rightarrow> string \<Rightarrow> string list" where
  "allowed_hosts addr ip = [addr, ip, ''localhost'', ''127.0.0.1'']"

text \<open>
  What \<open>serve\<close> puts on the listener: the tool service with its keep-alive in seconds and its accepted
  hosts under \<open>/mcp\<close>, the bridge's WebSocket under \<open>/gateway\<close>, and the Bearer layer over both.
\<close>

datatype service = ToolService "nat option" "string list" | GatewaySocket

record router =
  rt_routes :: "(string \<times> service) list"
  rt_auth :: "string option"

definition serve_router :: "string \<Rightarrow> string \<Rightarrow> string option \<Rightarrow> router" where
  "serve_router addr ip auth_token =
     \<lparr>rt_routes = [(''/mcp'', ToolService (Some 30) (allowed_hosts addr ip)), (''/gateway'', GatewaySocket)],
      rt_auth = auth_token\<rparr>"

text \<open>
  The whole of \<open>serve\<close>: \<open>bind\<close> gives the listener, \<open>run\<close> is axum's server on it until the shutdown. A
  bind that fails is returned at once.
\<close>

definition serve ::
    "(string \<Rightarrow> string + 'l) \<Rightarrow> ('l \<Rightarrow> router \<Rightarrow> string + unit) \<Rightarrow> string \<Rightarrow> string \<Rightarrow> string option
     \<Rightarrow> string + unit" where
  "serve bind run addr ip auth_token =
     (case bind addr of
        Inl e \<Rightarrow> Inl e
      | Inr listener \<Rightarrow> run listener (serve_router addr ip auth_token))"

text \<open>A request to that router: the layer first, then the routes.\<close>

definition router_reply ::
    "router \<Rightarrow> ((string \<times> service) list \<Rightarrow> web_request \<Rightarrow> 'r) \<Rightarrow> web_request \<Rightarrow> 'r web_reply" where
  "router_reply rt route req = serve_request (rt_auth rt) (route (rt_routes rt)) req"

section \<open>The tools\<close>

record notify_request =
  nr_title :: string
  nr_body :: string
  nr_urgency :: "string option"
  nr_icon :: "string option"

record launch_request =
  lr_command :: string
  lr_args :: "string list option"

datatype content = TextContent string | ImageContent string string

type_synonym tool_result = "string + content"

text \<open>\<open>get_info\<close>: what the server tells a client of itself.\<close>

record server_info =
  in_tools :: bool
  in_instructions :: string

definition get_info :: server_info where
  "get_info =
     \<lparr>in_tools = True,
      in_instructions =
        ''Desktop control surface for rh-anine: notifications, app launching, and screenshots.''\<rparr>"

text \<open>
  \<open>dbus\<close> is the notification service, if there is a session bus. The second component is what the
  tool sends to the broadcast channel.
\<close>

definition desktop_notify ::
    "(notify_call \<Rightarrow> string + u32) option \<Rightarrow> notify_request
     \<Rightarrow> tool_result \<times> daemon_message list" where
  "desktop_notify dbus req =
     (case dbus of
        None \<Rightarrow> (Inl ''D-Bus session bus unavailable'', [])
      | Some conn \<Rightarrow>
          let urgency = urgency_from_opt (nr_urgency req) in
          (case notify_send conn (nr_title req) (nr_body req) urgency (nr_icon req) of
             Inl e \<Rightarrow> (Inl (''notification failed: '' @ e), [])
           | Inr i \<Rightarrow>
               (Inr (TextContent (''Notification sent (id: '' @ dec (unat i) @ '')'')),
                [Toast (nr_title req) (nr_body req) (nr_icon req)])))"

definition desktop_launch_app ::
    "(spawn_spec \<Rightarrow> string + u32 option) \<Rightarrow> launch_request \<Rightarrow> tool_result" where
  "desktop_launch_app spawn req =
     (let args = unwrap_or [] (lr_args req) in
      case launch_detached spawn (lr_command req) args of
        Inl e \<Rightarrow> Inl (''launch failed: '' @ e)
      | Inr pid \<Rightarrow>
          Inr (TextContent
            (''Launched '' @ lr_command req @ '' (pid: '' @ dec (unat pid) @ '')'')))"

text \<open>
  \<open>run\<close> is \<open>capture\<close> on the blocking pool for a target: a join error, or what \<open>capture\<close> returned;
  \<open>b64\<close> is the base64 encoder.
\<close>

definition desktop_screenshot ::
    "(target \<Rightarrow> string + (screenshot_error + string)) \<Rightarrow> (string \<Rightarrow> string) \<Rightarrow> string option
     \<Rightarrow> tool_result" where
  "desktop_screenshot run b64 target =
     (case run (target_from_opt target) of
        Inl e \<Rightarrow> Inl (''join error: '' @ e)
      | Inr (Inl e) \<Rightarrow> Inl (screenshot_error_text e)
      | Inr (Inr png) \<Rightarrow> Inr (ImageContent (b64 png) ''image/png''))"

section \<open>Properties\<close>

lemma require_bearer_Passed_iff:
  "require_bearer expected inner req = Passed r \<longleftrightarrow>
     provided_token req = Some expected \<and> r = inner req"
  by (auto simp: require_bearer_def split: option.splits if_splits)

lemma provided_token_iff:
  "provided_token req = Some t \<longleftrightarrow>
     (\<exists>vs. wr_authorization req = (bearer @ t) # vs \<and> list_all visible_ascii (bearer @ t))"
  by (auto simp: provided_token_def header_to_str_def strip_prefix_Some_iff bind_eq_Some_conv
      split: list.splits if_splits)

section \<open>The MCP server's guarantees\<close>

text \<open>
  C26: with a configured token a request reaches a service behind the server exactly if its first
  \<open>Authorization\<close> value is \<open>Bearer\<close>, one space and the token itself, in readable ASCII; without a
  configured token every request does. Nothing else passes, and what passes is not changed.
\<close>

theorem bearer_guards_every_route:
  "(serve_request (Some token) inner req = Passed r \<longleftrightarrow>
      (\<exists>vs. wr_authorization req = (''Bearer '' @ token) # vs) \<and> list_all visible_ascii token
      \<and> r = inner req)
   \<and> serve_request None inner req = Passed (inner req)"
proof -
  have "list_all visible_ascii (bearer @ token) \<longleftrightarrow> list_all visible_ascii token"
    by (simp add: bearer_def visible_ascii_def)
  then show ?thesis
    by (auto simp: serve_request_def require_bearer_Passed_iff provided_token_iff bearer_def)
qed

text \<open>
  Panels are sent a toast exactly when the notification was shown, with the same title, body and
  icon; and the D-Bus call carries the urgency asked for in any mixture of cases, normal otherwise.
\<close>

theorem toast_iff_notified:
  "desktop_notify (Some dbus) req =
     (case dbus \<lparr>nc_app_name = ''Roci'', nc_replaces_id = 0, nc_app_icon = unwrap_or [] (nr_icon req),
             nc_summary = nr_title req, nc_body = nr_body req, nc_actions = [],
             nc_hints = [(''urgency'',
               case map_option to_ascii_lowercase (nr_urgency req) of
                 None \<Rightarrow> 1
               | Some l \<Rightarrow> if l = ''low'' then 0 else if l = ''critical'' then 2 else 1)],
             nc_expire_timeout = -1\<rparr> of
        Inl e \<Rightarrow> (Inl (''notification failed: '' @ e), [])
      | Inr i \<Rightarrow>
          (Inr (TextContent (''Notification sent (id: '' @ dec (unat i) @ '')'')),
           [Toast (nr_title req) (nr_body req) (nr_icon req)]))
   \<and> snd (desktop_notify None req) = []
   \<and> (snd (desktop_notify d req) \<noteq> [] \<longleftrightarrow> (\<exists>c. fst (desktop_notify d req) = Inr c))"
proof -
  have "hint (urgency_from_opt u) =
      (case map_option to_ascii_lowercase u of
         None \<Rightarrow> 1
       | Some l \<Rightarrow> if l = ''low'' then 0 else if l = ''critical'' then 2 else 1)" for u
    by (simp add: urgency_from_opt_def split: option.split)
  then show ?thesis
    by (simp add: desktop_notify_def notify_send_def Let_def split: option.split sum.split)
qed

text \<open>
  The launch tool hands the kernel the command and the arguments as they came, one string each
  and never through a shell, detached from the daemon's streams and process group; it reports success
  exactly if the child's pid is known.
\<close>

theorem launch_is_verbatim:
  "desktop_launch_app spawn req =
     (case spawn \<lparr>sp_program = lr_command req, sp_args = unwrap_or [] (lr_args req),
                  sp_stdin = StdioNull, sp_stdout = StdioNull, sp_stderr = StdioNull,
                  sp_process_group = Some 0\<rparr> of
        Inl e \<Rightarrow> Inl (''launch failed: '' @ e)
      | Inr None \<Rightarrow> Inl ''launch failed: child exited before its PID could be read''
      | Inr (Some pid) \<Rightarrow>
          Inr (TextContent (''Launched '' @ lr_command req @ '' (pid: '' @ dec (unat pid) @ '')'')))"
  by (simp add: desktop_launch_app_def launch_detached_def Let_def split: sum.split option.split)

end
