(* ===== verification/Ctl.thy ===== *)
theory Ctl
  imports Protocol Config_Resolve
begin

text \<open>
  \<open>src/ipc/client.rs\<close> and \<open>src/bin/ctl.rs\<close>: the client end of the socket and the three modes of
  \<open>hermes-dms-ctl\<close>. The socket's incoming side is the list of what \<open>next_line\<close> gives until the end of
  the stream. \<open>parse\<close> and \<open>enc\<close> are the JSON text layer, \<open>fail\<close> tells for a call on standard output,
  after \<open>n\<close> writes that succeeded, whether it fails.
\<close>

section \<open>The client\<close>

datatype line_in = Line string | LineError string

text \<open>\<open>IpcClient::next_message\<close>, with the lines left; \<open>err\<close> is the text of the JSON reader's error.\<close>

fun next_message ::
    "(string \<Rightarrow> json option) \<Rightarrow> (string \<Rightarrow> string) \<Rightarrow> line_in list
     \<Rightarrow> (string + daemon_message option) \<times> line_in list" where
  "next_message parse err [] = (Inr None, [])"
| "next_message parse err (LineError e # ls) = (Inl e, ls)"
| "next_message parse err (Line l # ls) =
     (if trim l = [] then next_message parse err ls
      else case Option.bind (parse l) daemon_of_json of
             None \<Rightarrow> (Inl (err l), ls)
           | Some m \<Rightarrow> (Inr (Some m), ls))"

lemma next_message_shorter:
  "next_message parse err ls = (Inr (Some m), ls') \<Longrightarrow> length ls' < length ls"
  by (induction parse err ls rule: next_message.induct) (auto split: if_splits option.splits)

text \<open>\<open>send_line\<close>: the bytes of one request.\<close>

definition send_line :: "(json \<Rightarrow> string) \<Rightarrow> client_message \<Rightarrow> string" where
  "send_line enc m = enc (client_to_json m) @ [newline]"

section \<open>Chat mode\<close>

type_synonym stdout = "string list"

datatype output_call = WriteAll | Flush

type_synonym output_fails = "output_call \<Rightarrow> nat \<Rightarrow> string option"

definition print :: "output_fails \<Rightarrow> string \<Rightarrow> stdout \<Rightarrow> string + stdout" where
  "print fail s out =
     (case fail WriteAll (length out) of None \<Rightarrow> Inr (out @ [s]) | Some e \<Rightarrow> Inl e)"

definition flush_out :: "output_fails \<Rightarrow> stdout \<Rightarrow> string + unit" where
  "flush_out fail out = (case fail Flush (length out) of None \<Rightarrow> Inr () | Some e \<Rightarrow> Inl e)"

text \<open>What the loop does with a message: go on with the output so far, or return.\<close>

datatype ctl_next = Continue stdout | Return "string + unit" stdout

definition chat_message_step ::
    "output_fails \<Rightarrow> string \<Rightarrow> daemon_message \<Rightarrow> stdout \<Rightarrow> ctl_next" where
  "chat_message_step fail rid msg out =
     (case msg of
        Delta i content \<Rightarrow>
          if i = rid
          then (case print fail content out of
                  Inl e \<Rightarrow> Return (Inl e) out
                | Inr out' \<Rightarrow>
                    (case flush_out fail out' of Inl e \<Rightarrow> Return (Inl e) out' | Inr _ \<Rightarrow> Continue out'))
          else Continue out
      | ChatComplete i content \<Rightarrow>
          if i = rid
          then (case (if content \<noteq> [] then print fail content out else Inr out) of
                  Inl e \<Rightarrow> Return (Inl e) out
                | Inr out' \<Rightarrow>
                    (case print fail [newline] out' of
                       Inl e \<Rightarrow> Return (Inl e) out'
                     | Inr out'' \<Rightarrow> Return (flush_out fail out'') out''))
          else Continue out
      | Error i message \<Rightarrow>
          if i = Some rid \<or> i = None then Return (Inl message) out else Continue out
      | _ \<Rightarrow> Continue out)"

function run_chat_loop ::
    "(string \<Rightarrow> json option) \<Rightarrow> (string \<Rightarrow> string) \<Rightarrow> output_fails \<Rightarrow> string
     \<Rightarrow> line_in list \<Rightarrow> stdout \<Rightarrow> (string + unit) \<times> stdout" where
  "run_chat_loop parse err fail rid ls out =
     (case next_message parse err ls of
        (Inl e, _) \<Rightarrow> (Inl e, out)
      | (Inr None, _) \<Rightarrow> (Inl ''daemon closed the connection before completing'', out)
      | (Inr (Some msg), ls') \<Rightarrow>
          (case chat_message_step fail rid msg out of
             Continue out' \<Rightarrow> run_chat_loop parse err fail rid ls' out'
           | Return r out' \<Rightarrow> (r, out')))"
  by pat_completeness auto
termination
  by (relation "measure (\<lambda>(parse, err, fail, rid, ls, out). length ls)")
    (auto dest: next_message_shorter [OF sym])

declare run_chat_loop.simps [simp del]

text \<open>
  \<open>run_chat\<close>: \<open>connect\<close> and \<open>send\<close> are the outcomes of connecting and of writing the request. The
  result is what \<open>main\<close> turns into the exit code.
\<close>

definition run_chat ::
    "(string \<Rightarrow> json option) \<Rightarrow> (string \<Rightarrow> string) \<Rightarrow> output_fails \<Rightarrow> string + unit
     \<Rightarrow> (client_message \<Rightarrow> string + line_in list) \<Rightarrow> string \<Rightarrow> string \<Rightarrow> string option
     \<Rightarrow> (string + unit) \<times> stdout" where
  "run_chat parse err fail connect send rid message session =
     (case connect of
        Inl e \<Rightarrow> (Inl (''connecting to daemon socket: '' @ e), [])
      | Inr _ \<Rightarrow>
          (case send (Chat rid session message) of
             Inl e \<Rightarrow> (Inl (''sending chat: '' @ e), [])
           | Inr ls \<Rightarrow> run_chat_loop parse err fail rid ls []))"

section \<open>Status mode\<close>

function run_status_loop ::
    "(string \<Rightarrow> json option) \<Rightarrow> (string \<Rightarrow> string) \<Rightarrow> line_in list \<Rightarrow> (string + unit) \<times> stdout" where
  "run_status_loop parse err ls =
     (case next_message parse err ls of
        (Inl e, _) \<Rightarrow> (Inl e, [])
      | (Inr None, _) \<Rightarrow> (Inl ''daemon closed the connection'', [])
      | (Inr (Some (Status hermes daemon _)), _) \<Rightarrow>
          (Inr (), [''daemon: '' @ daemon @ [newline], ''hermes: '' @ hermes @ [newline]])
      | (Inr (Some (Error _ message)), _) \<Rightarrow> (Inl message, [])
      | (Inr (Some _), ls') \<Rightarrow> run_status_loop parse err ls')"
  by pat_completeness auto
termination
  by (relation "measure (\<lambda>(parse, err, ls). length ls)") (auto dest: next_message_shorter [OF sym])

declare run_status_loop.simps [simp del]

definition run_status ::
    "(string \<Rightarrow> json option) \<Rightarrow> (string \<Rightarrow> string) \<Rightarrow> string + unit
     \<Rightarrow> (client_message \<Rightarrow> string + line_in list) \<Rightarrow> string \<Rightarrow> (string + unit) \<times> stdout" where
  "run_status parse err connect send rid =
     (case connect of
        Inl e \<Rightarrow> (Inl (''connecting to daemon socket: '' @ e), [])
      | Inr _ \<Rightarrow>
          (case send (client_message.Status rid) of
             Inl e \<Rightarrow> (Inl (''requesting status: '' @ e), [])
           | Inr ls \<Rightarrow> run_status_loop parse err ls))"

section \<open>Stream mode\<close>

text \<open>
  Standard input to the socket: the lines sent and the lines reported on standard error. Blank lines
  are skipped, malformed ones reported and dropped; a failed write or read ends the task. \<open>refuse n\<close>
  tells whether the socket refuses the write after \<open>n\<close> successful ones.
\<close>

fun stdin_relay ::
    "(string \<Rightarrow> json option) \<Rightarrow> (string \<Rightarrow> string) \<Rightarrow> (json \<Rightarrow> string) \<Rightarrow> (nat \<Rightarrow> bool) \<Rightarrow> nat
     \<Rightarrow> line_in list \<Rightarrow> string list \<times> string list" where
  "stdin_relay parse err enc refuse n [] = ([], [])"
| "stdin_relay parse err enc refuse n (LineError e # ls) = ([], [])"
| "stdin_relay parse err enc refuse n (Line l # ls) =
     (if trim l = [] then stdin_relay parse err enc refuse n ls
      else case Option.bind (parse l) client_of_json of
             Some msg \<Rightarrow>
               if refuse n then ([], [])
               else let (sent_lines, errs) = stdin_relay parse err enc refuse (Suc n) ls
                    in (send_line enc msg # sent_lines, errs)
           | None \<Rightarrow>
               let (sent_lines, errs) = stdin_relay parse err enc refuse n ls
               in (sent_lines,
                   (''hermes-dms-ctl: ignoring malformed stdin line: '' @ err l @ [newline]) # errs))"

text \<open>The socket to standard output: every line as it came, until the end or an error.\<close>

fun stdout_relay ::
    "output_fails \<Rightarrow> line_in list \<Rightarrow> stdout \<Rightarrow> (string + unit) \<times> stdout" where
  "stdout_relay fail [] out = (Inr (), out)"
| "stdout_relay fail (LineError e # ls) out = (Inl e, out)"
| "stdout_relay fail (Line l # ls) out =
     (case print fail l out of
        Inl e \<Rightarrow> (Inl e, out)
      | Inr out' \<Rightarrow>
          (case print fail [newline] out' of
             Inl e \<Rightarrow> (Inl e, out')
           | Inr out'' \<Rightarrow>
               (case flush_out fail out'' of
                  Inl e \<Rightarrow> (Inl e, out'')
                | Inr _ \<Rightarrow> stdout_relay fail ls out'')))"

definition run_stream ::
    "output_fails \<Rightarrow> string + unit \<Rightarrow> (client_message \<Rightarrow> string + line_in list)
     \<Rightarrow> (string + unit) \<times> stdout" where
  "run_stream fail connect send =
     (case connect of
        Inl e \<Rightarrow> (Inl (''connecting to daemon socket: '' @ e), [])
      | Inr _ \<Rightarrow>
          (case send (Subscribe None) of
             Inl e \<Rightarrow> (Inl (''subscribing: '' @ e), [])
           | Inr ls \<Rightarrow> stdout_relay fail ls []))"

text \<open>\<open>main\<close>: the exit code and what goes to standard error.\<close>

definition ctl_exit :: "string + unit \<Rightarrow> nat \<times> string" where
  "ctl_exit r =
     (case r of
        Inr _ \<Rightarrow> (0, [])
      | Inl e \<Rightarrow> (1, ''hermes-dms-ctl: '' @ e @ [newline]))"

text \<open>
  The whole program: the socket is the one given or the default one, and \<open>connect\<close> answers for it. The
  result is standard output, the exit code and standard error.
\<close>

datatype ctl_command = CtlChat string "string option" | CtlStream | CtlStatus

definition ctl_main ::
    "(string \<Rightarrow> json option) \<Rightarrow> (string \<Rightarrow> string) \<Rightarrow> output_fails
     \<Rightarrow> (string \<Rightarrow> string + unit) \<Rightarrow> (client_message \<Rightarrow> string + line_in list) \<Rightarrow> env
     \<Rightarrow> string option \<Rightarrow> string \<Rightarrow> ctl_command \<Rightarrow> stdout \<times> nat \<times> string" where
  "ctl_main parse err fail connect send env socket rid command =
     (let conn = connect (unwrap_or (default_socket_path env) socket);
          (r, out) =
            (case command of
               CtlChat message session \<Rightarrow> run_chat parse err fail conn send rid message session
             | CtlStream \<Rightarrow> run_stream fail conn send
             | CtlStatus \<Rightarrow> run_status parse err conn send rid)
      in (out, ctl_exit r))"

section \<open>Properties\<close>

text \<open>The lines that carry a list of daemon messages: each is read back, and none is blank.\<close>

definition carries :: "(string \<Rightarrow> json option) \<Rightarrow> line_in list \<Rightarrow> daemon_message list \<Rightarrow> bool" where
  "carries parse ls ms =
     list_all2 (\<lambda>l m. \<exists>s. l = Line s \<and> trim s \<noteq> [] \<and> Option.bind (parse s) daemon_of_json = Some m)
       ls ms"

lemma carries_Cons:
  "carries parse ls (m # ms) \<longleftrightarrow>
     (\<exists>s ls'. ls = Line s # ls' \<and> trim s \<noteq> [] \<and> Option.bind (parse s) daemon_of_json = Some m
        \<and> carries parse ls' ms)"
  by (auto simp: carries_def list_all2_Cons2)

lemma next_message_carries:
  "carries parse ls (m # ms) \<Longrightarrow> \<exists>ls'. next_message parse err ls = (Inr (Some m), ls') \<and> carries parse ls' ms"
  by (auto simp: carries_Cons)

lemma next_message_carries_append:
  assumes "carries parse ls (m # ms)"
  shows "\<exists>ls'. next_message parse err (ls @ rest) = (Inr (Some m), ls' @ rest) \<and> carries parse ls' ms"
  using assms by (auto simp: carries_Cons)

text \<open>A message that makes the loop go on is consumed; one that makes it return ends it.\<close>

lemma run_chat_loop_continue:
  assumes "carries parse ls (m # ms)" and "chat_message_step fail rid m out = Continue out'"
  shows "\<exists>ls'. carries parse ls' ms \<and> run_chat_loop parse err fail rid (ls @ rest) out =
    run_chat_loop parse err fail rid (ls' @ rest) out'"
proof -
  from next_message_carries_append [OF assms(1), of err rest] obtain ls' where
    "next_message parse err (ls @ rest) = (Inr (Some m), ls' @ rest)" and "carries parse ls' ms"
    by blast
  with assms(2) show ?thesis
    by (auto simp: run_chat_loop.simps [of parse err fail rid "ls @ rest"])
qed

lemma run_chat_loop_return:
  assumes "carries parse ls (m # ms)" and "chat_message_step fail rid m out = Return r out'"
  shows "run_chat_loop parse err fail rid (ls @ rest) out = (r, out')"
proof -
  from next_message_carries_append [OF assms(1), of err rest] obtain ls' where
    "next_message parse err (ls @ rest) = (Inr (Some m), ls' @ rest)"
    by blast
  with assms(2) show ?thesis
    by (simp add: run_chat_loop.simps [of parse err fail rid "ls @ rest"])
qed

lemma run_chat_loop_skips:
  assumes "carries parse ls (ms @ ms')"
    and "\<And>m. m \<in> set ms \<Longrightarrow> chat_message_step fail rid m out = Continue out"
  shows "\<exists>ls'. carries parse ls' ms' \<and> run_chat_loop parse err fail rid (ls @ rest) out =
    run_chat_loop parse err fail rid (ls' @ rest) out"
  using assms
proof (induction ms arbitrary: ls)
  case Nil
  then show ?case by auto
next
  case (Cons m ms)
  then obtain ls1 where "carries parse ls1 (ms @ ms')"
    and step: "run_chat_loop parse err fail rid (ls @ rest) out =
      run_chat_loop parse err fail rid (ls1 @ rest) out"
    using run_chat_loop_continue [of parse ls m "ms @ ms'" fail rid out out err rest] by auto
  with Cons.IH [of ls1] Cons.prems(2) show ?case by (metis list.set_intros(2))
qed

lemma chat_step_other:
  assumes "addressed_to m \<noteq> Some rid" and "\<And>e. m \<noteq> Error None e"
  shows "chat_message_step fail rid m out = Continue out"
  using assms by (cases m) (auto simp: chat_message_step_def)

lemma chat_step_draft:
  "chat_message_step fail rid (Draft r s) out = Continue out"
  by (simp add: chat_message_step_def)

section \<open>The client's guarantees\<close>

text \<open>Standard output never fails.\<close>

definition reliable :: output_fails where
  "reliable call n = None"

lemma print_reliable [simp]: "print reliable s out = Inr (out @ [s])"
  by (simp add: print_def reliable_def)

lemma flush_reliable [simp]: "flush_out reliable out = Inr ()"
  by (simp add: flush_out_def reliable_def)

text \<open>
  \<open>hermes-dms-ctl status\<close> prints the daemon's answer, skipping events of other kinds before it,
  and fails with the message of an error that comes first.
\<close>

theorem status_prints_answer:
  assumes "carries parse ls (ms @ [Status hermes daemon r])"
    and "\<forall>m \<in> set ms. (\<forall>h d r. m \<noteq> Status h d r) \<and> (\<forall>r e. m \<noteq> Error r e)"
  shows "run_status parse err (Inr ()) (\<lambda>_. Inr (ls @ rest)) rid =
    (Inr (), [''daemon: '' @ daemon @ [newline], ''hermes: '' @ hermes @ [newline]])"
proof -
  have "run_status_loop parse err (ls @ rest) =
      (Inr (), [''daemon: '' @ daemon @ [newline], ''hermes: '' @ hermes @ [newline]])"
    using assms
  proof (induction ms arbitrary: ls)
    case Nil
    from next_message_carries_append [of parse ls "Status hermes daemon r" "[]" err rest] Nil
    show ?case by (auto simp: run_status_loop.simps [of parse err "ls @ rest"])
  next
    case (Cons m ms)
    then have "carries parse ls (m # ms @ [Status hermes daemon r])" by simp
    from next_message_carries_append [OF this, of err rest] obtain ls' where
      next_msg: "next_message parse err (ls @ rest) = (Inr (Some m), ls' @ rest)"
      and "carries parse ls' (ms @ [Status hermes daemon r])" by blast
    with Cons have IH: "run_status_loop parse err (ls' @ rest) =
        (Inr (), [''daemon: '' @ daemon @ [newline], ''hermes: '' @ hermes @ [newline]])"
      by simp
    have "run_status_loop parse err (ls @ rest) = run_status_loop parse err (ls' @ rest)"
      using Cons.prems(2) next_msg by (cases m) (simp_all add: run_status_loop.simps [of parse err "ls @ rest"])
    with IH show ?case by simp
  qed
  then show ?thesis by (simp add: run_status_def)
qed

text \<open>A line that carries a given message.\<close>

lemma carries_line:
  assumes "daemon_finite m"
  shows "carries (\<lambda>_. Some (daemon_to_json m)) [Line ''line''] [m]"
proof -
  have "trim ''line'' \<noteq> []" by code_simp
  with daemon_roundtrip_finite [OF assms] show ?thesis
    by (simp add: carries_def)
qed

theorem status_prints_answer_witness:
  "run_status (\<lambda>_. Some (daemon_to_json (Status ''connected'' ''ready'' (Some ''r'')))) (\<lambda>_. []) (Inr ())
     (\<lambda>_. Inr [Line ''line'']) ''r'' =
   (Inr (), [''daemon: ready'' @ [newline], ''hermes: connected'' @ [newline]])"
  using status_prints_answer [of _ "[Line ''line'']" "[]" "''connected''" "''ready''" "Some ''r''"
      "\<lambda>_. []" "[]" "''r''"]
    carries_line [of "Status ''connected'' ''ready'' (Some ''r'')"]
  by (simp del: daemon_to_json.simps)

lemma stdout_relay_lines:
  "stdout_relay reliable (map Line ls) out = (Inr (), out @ concat (map (\<lambda>l. [l, [newline]]) ls))"
  by (induction ls arbitrary: out) simp_all

text \<open>
  \<open>hermes-dms-ctl stream\<close> writes every line of the daemon to standard output as it came, each
  followed by one newline, until the connection ends.
\<close>

theorem stream_is_verbatim:
  "concat (snd (run_stream reliable (Inr ()) (\<lambda>_. Inr (map Line ls)))) =
     concat (map (\<lambda>l. l @ [newline]) ls)
   \<and> fst (run_stream reliable (Inr ()) (\<lambda>_. Inr (map Line ls))) = Inr ()"
proof -
  have "concat (concat (map (\<lambda>l. [l, [newline]]) ls)) = concat (map (\<lambda>l. l @ [newline]) ls)"
    by (induction ls) simp_all
  then show ?thesis by (simp add: run_stream_def stdout_relay_lines)
qed

text \<open>
  A reply that was streamed as deltas is printed again when the final message repeats it.
\<close>

theorem streamed_reply_printed_twice:
  assumes "carries parse ls [Delta rid body, ChatComplete rid body]" and "body \<noteq> []"
  shows "run_chat_loop parse err reliable rid ls [] = (Inr (), [body, body, [newline]])"
proof -
  obtain ls' where "carries parse ls' [ChatComplete rid body]"
    and "run_chat_loop parse err reliable rid (ls @ []) [] =
      run_chat_loop parse err reliable rid (ls' @ []) [body]"
    using run_chat_loop_continue [OF assms(1), of reliable rid "[]" "[body]" err "[]"]
    by (auto simp: chat_message_step_def)
  moreover from this(1) have "run_chat_loop parse err reliable rid (ls' @ []) [body] =
      (Inr (), [body, body, [newline]])"
    by (rule run_chat_loop_return) (simp add: chat_message_step_def assms(2))
  ultimately show ?thesis by simp
qed

end
