(* ===== verification/Daemon_Process.thy ===== *)
theory Daemon_Process
  imports Daemon
begin

text \<open>
  The daemon as a process: \<open>run\<close> of \<open>src/daemon.rs\<close> down to the IPC server it waits for, the signal task of
  \<open>src/main.rs\<close>, and what they make of the exit code.
\<close>

section \<open>The process\<close>

text \<open>
  What the system answers to the start: the socket path's state and the outcomes of removing it, of
  \<open>bind\<close> and of \<open>set_permissions\<close>; and the outcomes of \<open>accept\<close> until the shutdown.
\<close>

record startup =
  st_file :: "string \<Rightarrow> socket_file"
  st_remove :: "string + unit"
  st_bind :: "string + unit"
  st_chmod :: "string + unit"
  st_accepted :: "bool list"

text \<open>
  \<open>run\<close>: the clients are built first, then the background tasks start, then the IPC server runs in the
  foreground. The MCP server's outcome \<open>mcp\<close> is only logged: the second component are the log's errors.
\<close>

definition daemon_run ::
    "string + unit \<Rightarrow> string + unit \<Rightarrow> bool \<Rightarrow> string + unit \<Rightarrow> startup \<Rightarrow> 'a config
     \<Rightarrow> (string + unit) \<times> string list \<times> os_action list" where
  "daemon_run build_hermes build_ollama dbus mcp st cfg =
     (case daemon_start build_hermes build_ollama dbus cfg of
        Inl e \<Rightarrow> (Inl e, [], [])
      | Inr _ \<Rightarrow>
          let errs = (case mcp of Inl e \<Rightarrow> [e] | Inr _ \<Rightarrow> []);
              path = socket_path cfg;
              (r, acts) = ipc_run (st_remove st) (st_bind st) (st_chmod st) (st_accepted st) path (st_file st path)
          in (r, errs, acts))"

text \<open>
  \<open>spawn_signal_handler\<close>: whether the shutdown token is cancelled by the signals that arrive. A handler
  that cannot be installed ends the task.
\<close>

datatype os_signal = SIGTERM | SIGINT | OtherSignal

definition signal_shutdown :: "string + unit \<Rightarrow> string + unit \<Rightarrow> os_signal list \<Rightarrow> bool" where
  "signal_shutdown term_ok int_ok signals =
     (case term_ok of
        Inl _ \<Rightarrow> False
      | Inr _ \<Rightarrow>
          (case int_ok of
             Inl _ \<Rightarrow> False
           | Inr _ \<Rightarrow> list_ex (\<lambda>s. s = SIGTERM \<or> s = SIGINT) signals))"

section \<open>The process's guarantees\<close>

lemma ipc_run_ok:
  "fst (ipc_run remove bind chmod accepted path file) = Inr () \<longleftrightarrow>
     (file = Absent \<or> file = Leftover \<and> remove = Inr ()) \<and> bind = Inr () \<and> chmod = Inr ()"
  by (auto simp: ipc_run_def prepare_socket_path_def split: socket_file.split sum.split)

text \<open>
  C32: the daemon's exit code is 0 exactly if the configuration loads, the Hermes client can be built,
  the socket path is free or its leftover can be removed, and the socket can be bound and made
  private. Nothing else fails it: not the session bus, the model picker's client or the MCP server,
  whose failure leaves the local clients served.
\<close>

theorem exit_code_zero_iff:
  "daemon_main read parse_toml parse_addr
       (\<lambda>cfg. fst (daemon_run build_hermes build_ollama dbus mcp st cfg)) env cli = 0 \<longleftrightarrow>
     (\<exists>cfg. load read parse_toml parse_addr env (config_path env cli) = Inr cfg
        \<and> (\<exists>client. hermes_client_new build_hermes (hermes_api_url cfg) (hermes_api_key cfg) = Inr client)
        \<and> (st_file st (socket_path cfg) = Absent
           \<or> st_file st (socket_path cfg) = Leftover \<and> st_remove st = Inr ())
        \<and> st_bind st = Inr () \<and> st_chmod st = Inr ())
   \<and> snd (snd (daemon_run build_hermes build_ollama dbus mcp st cfg)) =
       snd (snd (daemon_run build_hermes build_ollama dbus (Inr ()) st cfg))"
proof -
  have run: "fst (daemon_run build_hermes build_ollama dbus mcp st cfg) = Inr () \<longleftrightarrow>
      (\<exists>client. hermes_client_new build_hermes (hermes_api_url cfg) (hermes_api_key cfg) = Inr client)
      \<and> (st_file st (socket_path cfg) = Absent
         \<or> st_file st (socket_path cfg) = Leftover \<and> st_remove st = Inr ())
      \<and> st_bind st = Inr () \<and> st_chmod st = Inr ()" for cfg :: "'a config"
    using ipc_run_ok [of "st_remove st" "st_bind st" "st_chmod st" "st_accepted st" "socket_path cfg"
        "st_file st (socket_path cfg)"]
    by (simp add: daemon_run_def daemon_start_def Let_def case_prod_beta split: sum.split)
  show ?thesis
    by (auto simp: daemon_main_def run [symmetric] daemon_run_def Let_def case_prod_beta split: sum.splits)
qed

end
