(* ===== verification/Socket_Lines.thy ===== *)
theory Socket_Lines
  imports Ctl
begin

text \<open>
  The \<open>Lines\<close> readers both ends put on the Unix socket (\<open>connection\<close> of \<open>src/ipc/server.rs\<close>, \<open>Client\<close> of
  \<open>src/ipc/client.rs\<close>), and what the JSON text layer is relied on for.
\<close>

section \<open>Lines\<close>

text \<open>\<open>String::from_utf8\<close>: which byte sequences are UTF-8 (no overlong forms, no surrogates).\<close>

definition cont :: "nat \<Rightarrow> bool" where
  "cont b = (0x80 \<le> b \<and> b \<le> 0xBF)"

fun utf8_bytes :: "nat list \<Rightarrow> bool" where
  "utf8_bytes [] = True"
| "utf8_bytes (b # bs) =
     (if b < 0x80 then utf8_bytes bs
      else if 0xC2 \<le> b \<and> b \<le> 0xDF then
        (case bs of c # r \<Rightarrow> cont c \<and> utf8_bytes r | [] \<Rightarrow> False)
      else if 0xE0 \<le> b \<and> b \<le> 0xEF then
        (case bs of
           c # d # r \<Rightarrow>
             cont c \<and> cont d \<and> (b = 0xE0 \<longrightarrow> 0xA0 \<le> c) \<and> (b = 0xED \<longrightarrow> c \<le> 0x9F) \<and> utf8_bytes r
         | _ \<Rightarrow> False)
      else if 0xF0 \<le> b \<and> b \<le> 0xF4 then
        (case bs of
           c # d # e # r \<Rightarrow>
             cont c \<and> cont d \<and> cont e \<and> (b = 0xF0 \<longrightarrow> 0x90 \<le> c) \<and> (b = 0xF4 \<longrightarrow> c \<le> 0x8F)
             \<and> utf8_bytes r
         | _ \<Rightarrow> False)
      else False)"

definition utf8 :: "string \<Rightarrow> bool" where
  "utf8 s = utf8_bytes (map of_char s)"

text \<open>
  \<open>Lines::next_line\<close> until the end of the stream: a line ends with a newline, before which one carriage
  return is dropped; what is left at the end without a newline is a line as it is.
\<close>

definition carriage_return :: char where
  "carriage_return = CHR 0x0D"

definition chop_cr :: "string \<Rightarrow> string" where
  "chop_cr l = (if l \<noteq> [] \<and> last l = carriage_return then butlast l else l)"

definition line_in_of :: "string \<Rightarrow> line_in" where
  "line_in_of l = (if utf8 l then Line l else LineError ''stream did not contain valid UTF-8'')"

function socket_lines :: "string \<Rightarrow> line_in list" where
  "socket_lines s =
     (if s = [] then []
      else let l = takeWhile (\<lambda>c. c \<noteq> newline) s; r = dropWhile (\<lambda>c. c \<noteq> newline) s
           in if r = [] then [line_in_of l] else line_in_of (chop_cr l) # socket_lines (tl r))"
  by pat_completeness auto
termination
proof (relation "measure length")
  fix s l r :: string
  assume r: "r = dropWhile (\<lambda>c. c \<noteq> newline) s" and "r \<noteq> []"
  have "length r \<le> length s" unfolding r by (rule length_dropWhile_le)
  with \<open>r \<noteq> []\<close> show "(tl r, s) \<in> measure length" by (cases r) simp_all
qed simp

declare socket_lines.simps [simp del]

lemma socket_lines_nil [simp]: "socket_lines [] = []"
  by (simp add: socket_lines.simps)

lemma socket_lines_line:
  assumes "newline \<notin> set l"
  shows "socket_lines (l @ newline # rest) = line_in_of (chop_cr l) # socket_lines rest"
proof -
  have free: "\<And>c. c \<in> set l \<Longrightarrow> c \<noteq> newline" using assms by blast
  have "takeWhile (\<lambda>c. c \<noteq> newline) (l @ newline # rest) = l"
    and "dropWhile (\<lambda>c. c \<noteq> newline) (l @ newline # rest) = newline # rest"
    by (simp_all add: takeWhile_append2 dropWhile_append2 free)
  then show ?thesis by (simp add: socket_lines.simps [of "l @ newline # rest"])
qed

section \<open>The text layer\<close>

text \<open>
  What both ends rely on for a value: the text is one line of UTF-8 between braces, as compact JSON
  objects are, and it is read back as the value.
\<close>

definition text_layer :: "(string \<Rightarrow> json option) \<Rightarrow> (json \<Rightarrow> string) \<Rightarrow> json \<Rightarrow> bool" where
  "text_layer parse enc v =
     (parse (enc v) = Some v \<and> utf8 (enc v) \<and> newline \<notin> set (enc v)
      \<and> (\<exists>mid. enc v = ''{'' @ mid @ ''}''))"

lemma strip_any_other:
  "(\<And>w. w \<in> set ws \<Longrightarrow> \<not> starts_with w s) \<Longrightarrow> strip_any ws s = s"
  by (subst strip_any.simps) (auto simp: find_Some_iff split: option.split)

lemma trim_braces: "trim (''{'' @ mid @ ''}'') = ''{'' @ mid @ ''}''"
proof -
  have 1: "strip_any white_space (''{'' @ mid @ ''}'') = ''{'' @ mid @ ''}''"
    by (rule strip_any_other) (auto simp: white_space_def bytes_def starts_with_iff_prefix char_of_def)
  have "strip_any (map rev white_space) (rev (''{'' @ mid @ ''}'')) = rev (''{'' @ mid @ ''}'')"
    by (rule strip_any_other) (auto simp: white_space_def bytes_def starts_with_iff_prefix char_of_def)
  with 1 show ?thesis by (simp add: trim_def trim_start_def trim_end_def)
qed

lemma text_layer_line:
  assumes "text_layer parse enc v"
  shows "socket_lines (enc v @ newline # rest) = Line (enc v) # socket_lines rest"
    and "trim (enc v) \<noteq> []" and "parse (enc v) = Some v"
proof -
  from assms obtain mid where mid: "enc v = ''{'' @ mid @ ''}''" and "newline \<notin> set (enc v)" "utf8 (enc v)"
    by (auto simp: text_layer_def)
  then show "socket_lines (enc v @ newline # rest) = Line (enc v) # socket_lines rest"
    using socket_lines_line [of "enc v" rest]
    by (simp add: chop_cr_def line_in_of_def carriage_return_def)
  show "trim (enc v) \<noteq> []" by (simp add: mid trim_braces [simplified])
  show "parse (enc v) = Some v" using assms by (simp add: text_layer_def)
qed

end
