(* ===== verification/Json_Text.thy ===== *)
theory Json_Text
  imports Socket_Lines
begin

text \<open>
  That the properties which rest on \<open>text_layer\<close> speak of something: a printer and a reader of JSON
  text for which it holds. Objects are written without white space and strings with the escapes of
  RFC 8259; the reader understands what the printer writes. Floats are left out, as
  their decimal form is the library's own. Nothing of the model uses these functions: they only stand
  in for the arguments \<open>enc\<close> and \<open>parse\<close>.
\<close>

section \<open>Printing\<close>

definition quote_char :: char where
  "quote_char = CHR 0x22"

definition backslash :: char where
  "backslash = CHR 0x5C"

definition escape :: "char \<Rightarrow> string" where
  "escape c =
     (if c = quote_char \<or> c = backslash then [backslash, c]
      else if (of_char c :: nat) < 32 then
        [backslash, CHR ''u'', CHR ''0'', CHR ''0'', hex_digit (of_char c div 16), hex_digit (of_char c mod 16)]
      else [c])"

definition json_string :: "string \<Rightarrow> string" where
  "json_string s = quote_char # concat (map escape s) @ [quote_char]"

fun json_number :: "jnum \<Rightarrow> string" where
  "json_number (PosInt n) = dec (unat n)"
| "json_number (NegInt n) = CHR ''-'' # dec (2 ^ 64 - unat n)"
| "json_number (Float x) = []"

fun commas :: "string list \<Rightarrow> string" where
  "commas [] = []"
| "commas [x] = x"
| "commas (x # y # zs) = x @ CHR '','' # commas (y # zs)"

fun json_text :: "json \<Rightarrow> string" where
  "json_text JNull = ''null''"
| "json_text (JBool b) = (if b then ''true'' else ''false'')"
| "json_text (JNum n) = json_number n"
| "json_text (JStr s) = json_string s"
| "json_text (JArr vs) = ''['' @ commas (map json_text vs) @ '']''"
| "json_text (JObj kvs) = ''{'' @ commas (map (\<lambda>(k, v). json_string k @ CHR '':'' # json_text v) kvs) @ ''}''"

section \<open>Reading\<close>

definition hex_value :: "char \<Rightarrow> nat" where
  "hex_value c = (if is_digit c then of_char c - 48 else of_char c - 87)"

text \<open>The inside of a string up to its closing quote.\<close>

fun read_string :: "string \<Rightarrow> (string \<times> string) option" where
  "read_string [] = None"
| "read_string (c # cs) =
     (if c = quote_char then Some ([], cs)
      else if c = backslash then
        (case cs of
           CHR ''u'' # _ # _ # h # l # r \<Rightarrow>
             map_option (apfst (Cons (char_of (16 * hex_value h + hex_value l)))) (read_string r)
         | e # r \<Rightarrow> map_option (apfst (Cons e)) (read_string r)
         | [] \<Rightarrow> None)
      else map_option (apfst (Cons c)) (read_string cs))"

definition read_nat :: "string \<Rightarrow> (nat \<times> string) option" where
  "read_nat s =
     (let ds = takeWhile is_digit s in
      if ds = [] then None else Some (undec ds, dropWhile is_digit s))"

definition read_literal :: "string \<Rightarrow> (json \<times> string) option" where
  "read_literal s =
     (case strip_prefix ''null'' s of Some r \<Rightarrow> Some (JNull, r) | None \<Rightarrow>
      case strip_prefix ''true'' s of Some r \<Rightarrow> Some (JBool True, r) | None \<Rightarrow>
      case strip_prefix ''false'' s of Some r \<Rightarrow> Some (JBool False, r) | None \<Rightarrow> None)"

text \<open>
  Values, the rest of an array and the rest of an object. The first argument is fuel; twice the length
  of the text is enough (\<open>json_work_bound\<close>).
\<close>

fun read_value :: "nat \<Rightarrow> string \<Rightarrow> (json \<times> string) option"
  and read_elems :: "nat \<Rightarrow> string \<Rightarrow> (json list \<times> string) option"
  and read_members :: "nat \<Rightarrow> string \<Rightarrow> ((string \<times> json) list \<times> string) option"
where
  "read_value 0 s = None"
| "read_value (Suc n) s =
     (if s = [] then None
      else let c = hd s; r = tl s in
        if c = quote_char then map_option (apfst JStr) (read_string r)
        else if c = CHR ''['' then
          (if take 1 r = '']'' then Some (JArr [], tl r) else map_option (apfst JArr) (read_elems n r))
        else if c = CHR ''{'' then
          (if take 1 r = ''}'' then Some (JObj [], tl r) else map_option (apfst JObj) (read_members n r))
        else if c = CHR ''-'' then
          map_option (apfst (\<lambda>k. JNum (NegInt (word_of_nat (2 ^ 64 - k))))) (read_nat r)
        else if is_digit c then map_option (apfst (\<lambda>k. JNum (PosInt (word_of_nat k)))) (read_nat s)
        else read_literal s)"
| "read_elems 0 s = None"
| "read_elems (Suc n) s =
     Option.bind (read_value n s) (\<lambda>(v, r).
       if take 1 r = '','' then map_option (apfst (Cons v)) (read_elems n (tl r))
       else if take 1 r = '']'' then Some ([v], tl r) else None)"
| "read_members 0 s = None"
| "read_members (Suc n) s =
     (if take 1 s \<noteq> [quote_char] then None
      else Option.bind (read_string (tl s)) (\<lambda>(k, r).
        if take 1 r \<noteq> '':'' then None
        else Option.bind (read_value n (tl r)) (\<lambda>(v, r').
          if take 1 r' = '','' then map_option (apfst (Cons (k, v))) (read_members n (tl r'))
          else if take 1 r' = ''}'' then Some ([(k, v)], tl r') else None)))"

definition json_read :: "string \<Rightarrow> json option" where
  "json_read s =
     (case read_value (2 * length s) s of
        Some (v, []) \<Rightarrow> Some v
      | _ \<Rightarrow> None)"

section \<open>Reading what was printed\<close>

lemma hex_value_digit: "d < 16 \<Longrightarrow> hex_value (hex_digit d) = d"
  by (auto simp: hex_value_def is_digit_def of_char_hex_digit)

lemma read_string_escape: "read_string (escape c @ cs) = map_option (apfst (Cons c)) (read_string cs)"
proof -
  have "16 * (of_char c div 16) + of_char c mod 16 = (of_char c :: nat)" by simp
  moreover have "(of_char c :: nat) < 32 \<Longrightarrow> of_char c div 16 < (16 :: nat)" by simp
  ultimately show ?thesis
    by (auto simp: escape_def quote_char_def backslash_def hex_value_digit split: list.splits char.splits)
qed

lemma read_string_printed: "read_string (concat (map escape s) @ quote_char # rest) = Some (s, rest)"
  by (induction s) (simp_all add: read_string_escape)

definition no_digit :: "string \<Rightarrow> bool" where
  "no_digit s = (s = [] \<or> \<not> is_digit (hd s))"

lemma read_nat_dec:
  assumes "no_digit rest"
  shows "read_nat (dec n @ rest) = Some (n, rest)"
proof -
  have "takeWhile is_digit (dec n @ rest) = dec n" "dropWhile is_digit (dec n @ rest) = rest"
    using assms by (cases rest; simp add: no_digit_def takeWhile_append2 dropWhile_append2 dec_digits)+
  then show ?thesis by (simp add: read_nat_def)
qed

text \<open>The values the printer is for: no floats, and strings that are UTF-8 (a Rust \<open>String\<close> always is).\<close>

fun plain :: "json \<Rightarrow> bool" where
  "plain (JNum (Float x)) = False"
| "plain (JStr s) = utf8 s"
| "plain (JArr vs) = list_all plain vs"
| "plain (JObj kvs) = list_all (\<lambda>(k, v). utf8 k \<and> plain v) kvs"
| "plain v = True"

text \<open>How much fuel the reader needs.\<close>

fun work :: "json \<Rightarrow> nat" where
  "work (JArr vs) = Suc (sum_list (map (\<lambda>v. Suc (work v)) vs))"
| "work (JObj kvs) = Suc (sum_list (map (\<lambda>(k, v). Suc (work v)) kvs))"
| "work v = 1"

lemma read_elems_printed:
  assumes "\<And>v n r. v \<in> set vs \<Longrightarrow> work v \<le> n \<Longrightarrow> no_digit r \<Longrightarrow> read_value n (json_text v @ r) = Some (v, r)"
    and "vs \<noteq> []" and "sum_list (map (\<lambda>v. Suc (work v)) vs) \<le> n"
  shows "read_elems n (commas (map json_text vs) @ CHR '']'' # rest) = Some (vs, rest)"
  using assms
proof (induction vs arbitrary: n)
  case (Cons v vs)
  then obtain m where n: "n = Suc m" by (cases n) auto
  show ?case
  proof (cases vs)
    case Nil
    have "read_value m (json_text v @ CHR '']'' # rest) = Some (v, CHR '']'' # rest)"
      by (rule Cons.prems(1)) (use Cons.prems(3) n in \<open>auto simp: no_digit_def is_digit_def\<close>)
    with Nil n show ?thesis by simp
  next
    case (Cons w ws)
    let ?r = "CHR '','' # commas (map json_text vs) @ CHR '']'' # rest"
    have "read_value m (json_text v @ ?r) = Some (v, ?r)"
      by (rule Cons.prems(1)) (use Cons.prems(3) n in \<open>auto simp: no_digit_def is_digit_def\<close>)
    moreover have "read_elems m (commas (map json_text vs) @ CHR '']'' # rest) = Some (vs, rest)"
      by (rule Cons.IH) (use Cons.prems Cons n in auto)
    ultimately show ?thesis using Cons n by simp
  qed
qed simp

definition member_text :: "string \<times> json \<Rightarrow> string" where
  "member_text kv = json_string (fst kv) @ CHR '':'' # json_text (snd kv)"

lemma json_text_obj: "json_text (JObj kvs) = CHR ''{'' # commas (map member_text kvs) @ ''}''"
  by (simp add: member_text_def case_prod_unfold comp_def cong: map_cong)

lemma read_members_printed:
  assumes "\<And>k v n r. (k, v) \<in> set kvs \<Longrightarrow> work v \<le> n \<Longrightarrow> no_digit r \<Longrightarrow>
      read_value n (json_text v @ r) = Some (v, r)"
    and "kvs \<noteq> []" and "sum_list (map (\<lambda>(k, v). Suc (work v)) kvs) \<le> n"
  shows "read_members n (commas (map member_text kvs) @ CHR ''}'' # rest) = Some (kvs, rest)"
  using assms
proof (induction kvs arbitrary: n)
  case (Cons kv kvs)
  obtain k v where kv: "kv = (k, v)" by (cases kv)
  then have t: "member_text kv = quote_char # concat (map escape k) @ quote_char # CHR '':'' # json_text v"
    by (simp add: member_text_def json_string_def)
  from Cons.prems kv obtain m where n: "n = Suc m" by (cases n) auto
  show ?case
  proof (cases kvs)
    case Nil
    have "read_value m (json_text v @ CHR ''}'' # rest) = Some (v, CHR ''}'' # rest)"
      by (rule Cons.prems(1) [of k]) (use Cons.prems(3) n kv in \<open>auto simp: no_digit_def is_digit_def\<close>)
    with Nil n kv t show ?thesis by (simp add: read_string_printed)
  next
    case (Cons w ws)
    let ?r = "CHR '','' # commas (map member_text kvs) @ CHR ''}'' # rest"
    have "read_value m (json_text v @ ?r) = Some (v, ?r)"
      by (rule Cons.prems(1) [of k]) (use Cons.prems(3) n kv in \<open>auto simp: no_digit_def is_digit_def\<close>)
    moreover have "read_members m (commas (map member_text kvs) @ CHR ''}'' # rest) = Some (kvs, rest)"
      by (rule Cons.IH) (use Cons.prems Cons n kv in auto)
    ultimately show ?thesis
      using Cons n kv t by (simp add: read_string_printed)
  qed
qed simp

lemma dec_Cons: obtains c cs where "dec n = c # cs" and "is_digit c"
  using dec_nonempty [of n] dec_digits [of _ n] by (cases "dec n") auto

lemma json_text_start:
  assumes "plain v"
  shows "\<exists>c cs. json_text v = c # cs \<and> c \<noteq> CHR '']''"
proof (cases v)
  case (JNum x)
  show ?thesis
  proof (cases x)
    case (PosInt n)
    obtain c cs where "dec (unat n) = c # cs" and "is_digit c" by (rule dec_Cons)
    then show ?thesis using JNum PosInt by (auto simp: is_digit_def)
  qed (use assms JNum in auto)
qed (auto simp: json_string_def quote_char_def)

lemma read_printed_number:
  assumes "plain (JNum x)" and "no_digit r"
  shows "read_value (Suc n) (json_number x @ r) = Some (JNum x, r)"
proof (cases x)
  case (PosInt k)
  obtain c cs where c: "dec (unat k) = c # cs" "is_digit c" by (rule dec_Cons)
  then have "c \<noteq> quote_char" "c \<noteq> CHR ''[''" "c \<noteq> CHR ''{''" "c \<noteq> CHR ''-''"
    by (auto simp: is_digit_def quote_char_def)
  with c PosInt read_nat_dec [OF assms(2), of "unat k"] show ?thesis by simp
next
  case (NegInt k)
  have "(word_of_nat (2 ^ 64 - (2 ^ 64 - unat k)) :: u64) = k"
    using unsigned_less [of k, where 'a = nat] by (subst diff_diff_cancel) simp_all
  then show ?thesis
    using NegInt read_nat_dec [OF assms(2), of "2 ^ 64 - unat k"] by (simp add: quote_char_def)
qed (use assms in simp)

lemma commas_start:
  "xs \<noteq> [] \<Longrightarrow> hd xs = c # cs \<Longrightarrow> \<exists>r. commas xs = c # r"
  by (induction xs rule: commas.induct) auto

theorem read_printed:
  "plain v \<Longrightarrow> work v \<le> n \<Longrightarrow> no_digit r \<Longrightarrow> read_value n (json_text v @ r) = Some (v, r)"
proof (induction v arbitrary: n r)
  case (JNum x)
  then obtain m where "n = Suc m" by (cases n) auto
  then show ?case using read_printed_number JNum.prems by simp
next
  case (JArr vs)
  then obtain m where n: "n = Suc m" by (cases n) auto
  show ?case
  proof (cases vs)
    case Nil
    with n show ?thesis by (simp add: quote_char_def)
  next
    case (Cons w ws)
    with JArr.prems obtain c cs where "json_text w = c # cs" and c: "c \<noteq> CHR '']''"
      using json_text_start [of w] by auto
    with Cons obtain t where t: "commas (map json_text vs) = c # t"
      using commas_start [of "map json_text vs" c cs] by auto
    have "read_elems m (commas (map json_text vs) @ CHR '']'' # r) = Some (vs, r)"
      by (rule read_elems_printed) (use JArr Cons n in \<open>auto simp: list_all_iff\<close>)
    with n t c show ?thesis by (simp add: quote_char_def)
  qed
next
  case (JObj kvs)
  then obtain m where n: "n = Suc m" by (cases n) auto
  show ?case
  proof (cases kvs)
    case Nil
    with n show ?thesis by (simp add: quote_char_def)
  next
    case (Cons kv ws)
    then obtain t where t: "commas (map member_text kvs) = quote_char # t"
      using commas_start [of "map member_text kvs" quote_char] by (auto simp: member_text_def json_string_def)
    have "read_members m (commas (map member_text kvs) @ CHR ''}'' # r) = Some (kvs, r)"
      by (rule read_members_printed) (use JObj Cons n in \<open>fastforce simp: list_all_iff\<close>)+
    with n t show ?thesis unfolding json_text_obj by (simp add: quote_char_def)
  qed
next
  case (JStr x)
  then show ?case by (cases n) (simp_all add: json_string_def read_string_printed)
next
  case JNull
  then show ?case by (cases n) (simp_all add: quote_char_def is_digit_def read_literal_def strip_prefix_def
      starts_with_iff_prefix Let_def)
next
  case (JBool b)
  then show ?case
    by (cases n; cases b) (simp_all add: quote_char_def is_digit_def read_literal_def strip_prefix_def
      starts_with_iff_prefix Let_def)
qed

section \<open>Enough fuel\<close>

lemma length_commas: "sum_list (map length xs) + length xs \<le> Suc (length (commas xs))"
  by (induction xs rule: commas.induct) auto

lemma work_elems:
  assumes "\<And>v. v \<in> set vs \<Longrightarrow> work v \<le> 2 * length (json_text v)"
  shows "sum_list (map (\<lambda>v. Suc (work v)) vs) \<le> 2 * (sum_list (map length (map json_text vs)) + length vs)"
  using assms by (induction vs) fastforce+

lemma work_members:
  assumes "\<And>k v. (k, v) \<in> set kvs \<Longrightarrow> work v \<le> 2 * length (json_text v)"
  shows "sum_list (map (\<lambda>(k, v). Suc (work v)) kvs)
    \<le> 2 * (sum_list (map length (map member_text kvs)) + length kvs)"
  using assms
proof (induction kvs)
  case (Cons kv kvs)
  obtain k v where kv: "kv = (k, v)" by (cases kv)
  then have "work v \<le> 2 * length (json_text v)" by (intro Cons.prems [of k]) simp
  moreover have "sum_list (map (\<lambda>(k, v). Suc (work v)) kvs)
      \<le> 2 * (sum_list (map length (map member_text kvs)) + length kvs)"
    by (rule Cons.IH) (use Cons.prems in auto)
  moreover have "length (json_text v) < length (member_text kv)" using kv by (simp add: member_text_def)
  ultimately show ?case using kv by simp
qed simp

lemma json_work_bound: "plain v \<Longrightarrow> work v \<le> 2 * length (json_text v)"
proof (induction v)
  case (JNum x)
  show ?case
  proof (cases x)
    case (PosInt n)
    obtain c cs where "dec (unat n) = c # cs" by (rule dec_Cons)
    with PosInt show ?thesis by simp
  qed (use JNum in auto)
next
  case (JArr vs)
  then have "sum_list (map (\<lambda>v. Suc (work v)) vs) \<le> 2 * (sum_list (map length (map json_text vs)) + length vs)"
    by (intro work_elems) (auto simp: list_all_iff)
  with length_commas [of "map json_text vs"] show ?case by simp
next
  case (JObj kvs)
  then have "sum_list (map (\<lambda>(k, v). Suc (work v)) kvs) \<le> 2 * (sum_list (map length (map member_text kvs)) + length kvs)"
    by (intro work_members) (force simp: list_all_iff)
  with length_commas [of "map member_text kvs"] show ?case unfolding json_text_obj by simp
qed (simp_all add: json_string_def)

lemma json_read_text: "plain v \<Longrightarrow> json_read (json_text v) = Some v"
  using read_printed [OF _ json_work_bound, of v "[]"] by (simp add: json_read_def no_digit_def)

section \<open>One line of UTF-8\<close>

lemma utf8_bytes_append: "utf8_bytes xs \<Longrightarrow> utf8_bytes (xs @ ys) = utf8_bytes ys"
  by (induction xs rule: utf8_bytes.induct) (auto split: if_splits list.splits)

lemma utf8_append: "utf8 s \<Longrightarrow> utf8 (s @ t) = utf8 t"
  by (simp add: utf8_def utf8_bytes_append)

lemma utf8_simps [simp]:
  "utf8 []" "(of_char c :: nat) < 128 \<Longrightarrow> utf8 (c # s) = utf8 s"
  by (simp_all add: utf8_def)

lemma utf8_ascii: "list_all (\<lambda>c. (of_char c :: nat) < 128) s \<Longrightarrow> utf8 s"
  by (induction s) simp_all

text \<open>Escaping keeps bytes from 128 on and writes ASCII for the others.\<close>

lemma escape_high: "128 \<le> (of_char c :: nat) \<Longrightarrow> escape c = [c]"
  by (auto simp: escape_def quote_char_def backslash_def)

lemma escape_low: "(of_char c :: nat) < 128 \<Longrightarrow> list_all (\<lambda>d. (of_char d :: nat) < 128) (escape c)"
  by (auto simp: escape_def backslash_def of_char_hex_digit)

lemma escape_high_string:
  "list_all (\<lambda>c. 128 \<le> (of_char c :: nat)) s \<Longrightarrow> concat (map escape s) = s"
  by (induction s) (simp_all add: escape_high)

text \<open>A UTF-8 string starts with an ASCII byte or with a character of bytes from 128 on.\<close>

lemma utf8_first:
  assumes "utf8_bytes bs" and "bs \<noteq> []"
  shows "\<exists>h r. bs = h @ r \<and> h \<noteq> [] \<and> utf8_bytes h \<and> utf8_bytes r
    \<and> (list_all (\<lambda>b. 128 \<le> b) h \<or> list_all (\<lambda>b. b < 128) h)"
proof (cases bs)
  case (Cons b cs)
  consider "b < 0x80" | "0xC2 \<le> b" "b \<le> 0xDF" | "0xE0 \<le> b" "b \<le> 0xEF" | "0xF0 \<le> b" "b \<le> 0xF4"
    using assms Cons by (fastforce split: if_splits)
  then show ?thesis
  proof cases
    case 1
    with assms Cons show ?thesis by (intro exI [of _ "[b]"] exI [of _ cs]) simp
  next
    case 2
    with assms Cons obtain c r where "cs = c # r" "cont c" "utf8_bytes r" by (auto split: list.splits)
    with 2 Cons show ?thesis by (intro exI [of _ "[b, c]"] exI [of _ r]) (simp add: cont_def)
  next
    case 3
    with assms Cons obtain c d r where "cs = c # d # r" "cont c" "cont d" "utf8_bytes r"
      "b = 0xE0 \<longrightarrow> 0xA0 \<le> c" "b = 0xED \<longrightarrow> c \<le> 0x9F" by (auto split: list.splits)
    with 3 Cons show ?thesis by (intro exI [of _ "[b, c, d]"] exI [of _ r]) (simp add: cont_def)
  next
    case 4
    with assms Cons obtain c d e r where "cs = c # d # e # r" "cont c" "cont d" "cont e" "utf8_bytes r"
      "b = 0xF0 \<longrightarrow> 0x90 \<le> c" "b = 0xF4 \<longrightarrow> c \<le> 0x8F" by (auto split: list.splits)
    with 4 Cons show ?thesis by (intro exI [of _ "[b, c, d, e]"] exI [of _ r]) (simp add: cont_def)
  qed
qed (use assms in simp)

lemma escape_low_string:
  "list_all (\<lambda>c. (of_char c :: nat) < 128) s \<Longrightarrow> list_all (\<lambda>d. (of_char d :: nat) < 128) (concat (map escape s))"
  by (induction s) (simp_all add: escape_low)

lemma utf8_escaped: "utf8 s \<Longrightarrow> utf8 (concat (map escape s))"
proof (induction "length s" arbitrary: s rule: less_induct)
  case less
  show ?case
  proof (cases s)
    case (Cons c cs)
    with less.prems obtain h r where "map of_char s = h @ r" "h \<noteq> []" "utf8_bytes h" "utf8_bytes r"
      and hi: "list_all (\<lambda>b. 128 \<le> b) h \<or> list_all (\<lambda>b. b < 128) h"
      using utf8_first [of "map of_char s"] by (auto simp: utf8_def)
    then obtain t u where tu: "s = t @ u" "h = map of_char t" "r = map of_char u"
      by (metis map_eq_append_conv)
    with \<open>h \<noteq> []\<close> \<open>utf8_bytes r\<close> have "utf8 (concat (map escape u))"
      by (intro less.hyps) (auto simp: utf8_def)
    moreover have "utf8 (concat (map escape t))"
      using hi tu(2) \<open>utf8_bytes h\<close> escape_high_string [of t] utf8_ascii [OF escape_low_string, of t]
      by (auto simp: list_all_iff utf8_def)
    ultimately show ?thesis by (simp add: tu(1) utf8_append)
  qed (simp add: utf8_def)
qed

lemma utf8_json_string: "utf8 s \<Longrightarrow> utf8 (json_string s)"
  using utf8_append [OF utf8_escaped, of s "[quote_char]"]
  by (simp add: json_string_def quote_char_def)

lemma utf8_dec: "utf8 (dec n)"
  by (rule utf8_ascii) (use dec_digits in \<open>force simp: list_all_iff is_digit_def\<close>)

lemma utf8_commas: "list_all utf8 xs \<Longrightarrow> utf8 (commas xs)"
  by (induction xs rule: commas.induct) (auto simp: utf8_append)

lemma utf8_json_text: "plain v \<Longrightarrow> utf8 (json_text v)"
proof (induction v)
  case (JNum x)
  then show ?case by (cases x) (auto simp: utf8_dec)
next
  case (JArr vs)
  then have "utf8 (commas (map json_text vs))" by (intro utf8_commas) (auto simp: list_all_iff)
  then have "utf8 (commas (map json_text vs) @ '']'')" by (simp add: utf8_append)
  then show ?case by simp
next
  case (JObj kvs)
  have "utf8 (member_text (k, v))" if "(k, v) \<in> set kvs" for k v
  proof -
    have "utf8 (CHR '':'' # json_text v)"
      using JObj that by (fastforce simp: list_all_iff)
    with JObj that show ?thesis by (force simp: member_text_def utf8_append utf8_json_string list_all_iff)
  qed
  then have "utf8 (commas (map member_text kvs))" by (intro utf8_commas) (auto simp: list_all_iff)
  then have "utf8 (commas (map member_text kvs) @ ''}'')" by (simp add: utf8_append)
  then show ?case unfolding json_text_obj by simp
qed (simp_all add: utf8_json_string)

text \<open>Every byte printed is at least 32, so none is a newline.\<close>

definition printable :: "string \<Rightarrow> bool" where
  "printable s = list_all (\<lambda>c. 32 \<le> (of_char c :: nat)) s"

lemma printable_simps [simp]:
  "printable []" "printable (c # s) = (32 \<le> (of_char c :: nat) \<and> printable s)"
  "printable (s @ t) = (printable s \<and> printable t)"
  by (simp_all add: printable_def)

lemma printable_json_string: "printable (json_string s)"
proof -
  have "printable (escape c)" for c
    by (auto simp: escape_def backslash_def quote_char_def of_char_hex_digit)
  then have "printable (concat (map escape s))" by (induction s) simp_all
  then show ?thesis by (simp add: json_string_def quote_char_def)
qed

lemma printable_dec: "printable (dec n)"
  using dec_digits by (force simp: printable_def list_all_iff is_digit_def)

lemma printable_commas: "list_all printable xs \<Longrightarrow> printable (commas xs)"
  by (induction xs rule: commas.induct) auto

lemma printable_json_text: "printable (json_text v)"
proof (induction v)
  case (JNum x)
  show ?case by (cases x) (simp_all add: printable_dec)
next
  case (JArr vs)
  then have "printable (commas (map json_text vs))" by (intro printable_commas) (auto simp: list_all_iff)
  then show ?case by simp
next
  case (JObj kvs)
  then have "printable (commas (map member_text kvs))"
    by (intro printable_commas) (force simp: list_all_iff member_text_def printable_json_string)
  then show ?case unfolding json_text_obj by simp
qed (simp_all add: printable_json_string)

lemma json_text_line:
  "newline \<notin> set (json_text (JObj kvs)) \<and> (\<exists>mid. json_text (JObj kvs) = ''{'' @ mid @ ''}'')"
proof
  show "newline \<notin> set (json_text (JObj kvs))"
    using printable_json_text [of "JObj kvs"] by (auto simp: printable_def list_all_iff)
  have "json_text (JObj kvs) = ''{'' @ commas (map member_text kvs) @ ''}''"
    by (simp only: json_text_obj append.simps)
  then show "\<exists>mid. json_text (JObj kvs) = ''{'' @ mid @ ''}''" by blast
qed

lemma json_text_layer:
  assumes "plain (JObj kvs)"
  shows "text_layer json_read json_text (JObj kvs)"
  using json_read_text [OF assms] utf8_json_text [OF assms] json_text_line unfolding text_layer_def by blast

end
