(* ===== verification/Wire_Text.thy ===== *)
theory Wire_Text
  imports Ipc_Delivery Json_Text
begin

text \<open>
  The bytes on the Unix socket: \<open>write_line\<close> of \<open>src/ipc/server.rs\<close> and the writer task that calls it, with
  writes that fail. Messages written at one end are the messages read at the other.
\<close>

section \<open>Writing and reading messages\<close>

text \<open>
  \<open>write_line\<close>: \<open>to_vec\<close> is the serializer, \<open>write_all\<close> gives the part it wrote and the error when it
  fails, \<open>flush\<close> is the outcome of flushing. The result is what is on the wire, and the outcome.
\<close>

definition write_line ::
    "(json \<Rightarrow> string + string) \<Rightarrow> (string \<Rightarrow> (string \<times> string) + unit) \<Rightarrow> string + unit \<Rightarrow> string
     \<Rightarrow> daemon_message \<Rightarrow> string \<times> (string + unit)" where
  "write_line to_vec write_all flush wire m =
     (case to_vec (daemon_to_json m) of
        Inl e \<Rightarrow> (wire, Inl e)
      | Inr buf \<Rightarrow>
          let buf' = buf @ [newline] in
          (case write_all buf' of
             Inl (part, e) \<Rightarrow> (wire @ part, Inl e)
           | Inr _ \<Rightarrow> (wire @ buf', flush)))"

text \<open>The bytes a connection's writer has put on the wire by successful writes.\<close>

definition message_line :: "(json \<Rightarrow> string) \<Rightarrow> daemon_message \<Rightarrow> string" where
  "message_line enc m = enc (daemon_to_json m) @ [newline]"

fun written_message :: "written \<Rightarrow> daemon_message" where
  "written_message (Direct m) = m"
| "written_message (Event m) = m"

definition wire_bytes :: "(json \<Rightarrow> string) \<Rightarrow> written list \<Rightarrow> string" where
  "wire_bytes enc ws = concat (map (message_line enc \<circ> written_message) ws)"

lemma write_line_appends:
  "write_line (\<lambda>v. Inr (enc v)) (\<lambda>_. Inr ()) (Inr ()) wire m = (wire @ message_line enc m, Inr ())"
  by (simp add: write_line_def message_line_def)

definition readable :: "(string \<Rightarrow> json option) \<Rightarrow> (json \<Rightarrow> string) \<Rightarrow> daemon_message \<Rightarrow> bool" where
  "readable parse enc m = (daemon_finite m \<and> text_layer parse enc (daemon_to_json m))"

text \<open>The concrete text layer carries every message whose strings are UTF-8 and that holds no float.\<close>

lemma readable_plain:
  "daemon_finite m \<Longrightarrow> plain (daemon_to_json m) \<Longrightarrow> readable json_read json_text m"
  using json_text_layer by (cases m) (auto simp: readable_def ser_variant_def simp del: plain.simps)

lemma client_text_layer:
  "plain (client_to_json m) \<Longrightarrow> text_layer json_read json_text (client_to_json m)"
  using json_text_layer by (cases m) (auto simp: ser_variant_def simp del: plain.simps)

lemma carries_bytes:
  assumes "list_all (readable parse enc) ms"
  shows "\<exists>ls. carries parse ls ms
    \<and> (\<forall>rest. socket_lines (concat (map (message_line enc) ms) @ rest) = ls @ socket_lines rest)"
  using assms
proof (induction ms)
  case Nil
  show ?case by (intro exI [of _ "[]"]) (simp add: carries_def)
next
  case (Cons m ms)
  then obtain ls where ls: "carries parse ls ms"
    "\<And>rest. socket_lines (concat (map (message_line enc) ms) @ rest) = ls @ socket_lines rest" by auto
  from Cons.prems have m: "daemon_finite m" "text_layer parse enc (daemon_to_json m)"
    by (simp_all add: readable_def)
  let ?l = "enc (daemon_to_json m)"
  have "carries parse (Line ?l # ls) (m # ms)"
    using ls(1) text_layer_line(2,3) [OF m(2)] daemon_roundtrip_finite [OF m(1)]
    by (simp add: carries_Cons)
  moreover have "socket_lines (concat (map (message_line enc) (m # ms)) @ rest) =
      (Line ?l # ls) @ socket_lines rest" for rest
    using text_layer_line(1) [OF m(2)] ls(2) by (simp add: message_line_def)
  ultimately show ?case by blast
qed

text \<open>The lines are the texts of the messages.\<close>

lemma socket_lines_messages:
  "list_all (readable parse enc) ms \<Longrightarrow>
     socket_lines (concat (map (message_line enc) ms)) = map (\<lambda>m. Line (enc (daemon_to_json m))) ms"
proof (induction ms)
  case (Cons m ms)
  then have "text_layer parse enc (daemon_to_json m)" by (simp add: readable_def)
  from text_layer_line(1) [OF this] Cons show ?case by (simp add: message_line_def)
qed simp

section \<open>The writer on the socket\<close>

text \<open>
  The two arms of the writer with the bytes they put on the socket: \<open>w\<close> is what is on the wire, and the
  outcome of \<open>write_line\<close> is what the connection's step goes by. An event that is not for this client is
  not written.
\<close>

definition bytes_direct ::
    "(json \<Rightarrow> string + string) \<Rightarrow> (string \<Rightarrow> (string \<times> string) + unit) \<Rightarrow> string + unit
     \<Rightarrow> string \<times> conn \<Rightarrow> (string \<times> conn) option" where
  "bytes_direct to_vec write_all flush = (\<lambda>(w, cs).
     case snd (chan_recv (outq cs)) of
       Item m \<Rightarrow>
         let (w', r) = write_line to_vec write_all flush w m
         in map_option (Pair w') (writer_direct (\<not> isl r) cs)
     | _ \<Rightarrow> None)"

definition bytes_event ::
    "(json \<Rightarrow> string + string) \<Rightarrow> (string \<Rightarrow> (string \<times> string) + unit) \<Rightarrow> string + unit \<Rightarrow> bool
     \<Rightarrow> nat \<Rightarrow> daemon_message list \<Rightarrow> string \<times> conn \<Rightarrow> (string \<times> conn) option" where
  "bytes_event to_vec write_all flush closed capacity log = (\<lambda>(w, cs).
     case fst (bcast_recv closed capacity log (bpos cs)) of
       BcastOk m \<Rightarrow>
         let (w', r) = (if subscribed cs then write_line to_vec write_all flush w m else (w, Inr ()))
         in map_option (Pair w') (writer_event (\<not> isl r) closed capacity log cs)
     | _ \<Rightarrow> map_option (Pair w) (writer_event True closed capacity log cs))"

text \<open>
  What serializing and writing may do: \<open>to_vec\<close> gives the text or fails, \<open>write_all\<close> that fails has
  written a prefix.
\<close>

definition sink_ok ::
    "(json \<Rightarrow> string) \<Rightarrow> (json \<Rightarrow> string + string) \<Rightarrow> (string \<Rightarrow> (string \<times> string) + unit) \<Rightarrow> bool" where
  "sink_ok enc to_vec write_all =
     ((\<forall>v. isl (to_vec v) \<or> to_vec v = Inr (enc v))
      \<and> (\<forall>buf. case write_all buf of Inl (part, e) \<Rightarrow> prefix part buf | Inr _ \<Rightarrow> True))"

text \<open>
  A connection's states with what is on the wire. The steps other than the writer's two arms write
  nothing.
\<close>

inductive bytes_reach ::
    "(json \<Rightarrow> string) \<Rightarrow> (client_message \<Rightarrow> daemon_message list \<Rightarrow> bool)
     \<Rightarrow> daemon_message list \<Rightarrow> string \<times> conn \<Rightarrow> bool"
  for enc may
where
  bytes_new: "bytes_reach enc may log ([], conn_new (length log))"
| bytes_direct: "bytes_reach enc may log s \<Longrightarrow> sink_ok enc to_vec write_all \<Longrightarrow>
    bytes_direct to_vec write_all flush s = Some s' \<Longrightarrow> bytes_reach enc may log s'"
| bytes_event: "bytes_reach enc may log s \<Longrightarrow> sink_ok enc to_vec write_all \<Longrightarrow>
    bytes_event to_vec write_all flush closed capacity log s = Some s' \<Longrightarrow> bytes_reach enc may log s'"
| bytes_other: "bytes_reach enc may log (w, cs) \<Longrightarrow> conn_step may log cs cs' \<Longrightarrow>
    wire_out cs' = wire_out cs \<Longrightarrow> bytes_reach enc may log (w, cs')"
| bytes_bcast: "bytes_reach enc may log s \<Longrightarrow> bytes_reach enc may (log @ [m]) s"

text \<open>Every state with its bytes is a state of the connection.\<close>

lemma bytes_reach_conn: "bytes_reach enc may log s \<Longrightarrow> conn_reach may log (snd s)"
proof (induction rule: bytes_reach.induct)
  case (bytes_direct log s to_vec write_all flush s')
  then obtain r where "writer_direct r (snd s) = Some (snd s')"
    by (auto simp: bytes_direct_def case_prod_unfold Let_def split: recv.splits)
  then show ?case using bytes_direct.IH by (blast intro: reach_step conn_write)
next
  case (bytes_event log s to_vec write_all flush closed capacity s')
  then obtain r where "writer_event r closed capacity log (snd s) = Some (snd s')"
    by (auto simp: bytes_event_def case_prod_unfold Let_def split: bcast_recv.splits)
  then show ?case using bytes_event.IH by (blast intro: reach_step conn_event)
qed (auto intro: conn_reach.intros)

lemma write_line_writes:
  assumes "sink_ok enc to_vec write_all" and "write_line to_vec write_all flush w m = (w', r)"
  shows "\<exists>part. w' = w @ part \<and> prefix part (message_line enc m)
    \<and> (\<not> isl r \<longrightarrow> part = message_line enc m)"
proof (cases "to_vec (daemon_to_json m)")
  case (Inr buf)
  with assms(1) have buf: "buf @ [newline] = message_line enc m"
    by (auto simp: sink_ok_def message_line_def dest: spec [of _ "daemon_to_json m"])
  show ?thesis
  proof (cases "write_all (buf @ [newline])")
    case (Inl pe)
    then obtain part e where pe: "write_all (buf @ [newline]) = Inl (part, e)" by (cases pe) simp
    moreover from assms(1) have "case write_all (buf @ [newline]) of
        Inl (part, e) \<Rightarrow> prefix part (buf @ [newline]) | Inr _ \<Rightarrow> True"
      unfolding sink_ok_def by blast
    ultimately show ?thesis using assms(2) Inr buf by (auto simp: write_line_def)
  qed (use assms(2) Inr buf in \<open>auto simp: write_line_def\<close>)
qed (use assms(2) in \<open>auto simp: write_line_def\<close>)

text \<open>What is on the wire: the lines written, and after a failed write part of one more.\<close>

definition bytes_inv :: "(json \<Rightarrow> string) \<Rightarrow> string \<times> conn \<Rightarrow> bool" where
  "bytes_inv enc s =
     (\<exists>part m. fst s = wire_bytes enc (wire_out (snd s)) @ part \<and> prefix part (message_line enc m)
        \<and> (rx_live (outq (snd s)) \<longrightarrow> part = []))"

lemma bytes_inv_write:
  assumes "sink_ok enc to_vec write_all" and "write_line to_vec write_all flush w m = (w', r)"
    and "bytes_inv enc (w, cs)" and "rx_live (outq cs)"
    and "if isl r then wire_out cs' = wire_out cs \<and> \<not> rx_live (outq cs')
         else wire_out cs' = wire_out cs @ [x] \<and> written_message x = m"
  shows "bytes_inv enc (w', cs')"
proof -
  from assms(3,4) have w: "w = wire_bytes enc (wire_out cs)" by (auto simp: bytes_inv_def)
  from write_line_writes [OF assms(1,2)] obtain part where part: "w' = w @ part"
    "prefix part (message_line enc m)" "\<not> isl r \<longrightarrow> part = message_line enc m" by blast
  show ?thesis
  proof (cases "isl r")
    case True
    with assms(5) part w show ?thesis by (auto simp: bytes_inv_def)
  next
    case False
    with assms(5) part w have "w' = wire_bytes enc (wire_out cs')" by (simp add: wire_bytes_def)
    then show ?thesis unfolding bytes_inv_def by (intro exI [of _ "[]"]) simp
  qed
qed

lemma bytes_inv_same:
  "bytes_inv enc (w, cs) \<Longrightarrow> wire_out cs' = wire_out cs \<Longrightarrow> rx_live (outq cs') \<longrightarrow> rx_live (outq cs) \<Longrightarrow>
     bytes_inv enc (w, cs')"
  by (auto simp: bytes_inv_def)

lemma conn_step_rx_live:
  "conn_step may log cs cs' \<Longrightarrow> rx_live (outq cs') \<Longrightarrow> rx_live (outq cs)"
proof (induction rule: conn_step.induct)
  case (conn_line parse err l cs cs')
  then show ?case by (cases rule: on_line_cases) auto
next
  case (conn_event ok cs cs' closed capacity)
  then show ?case by (auto simp: writer_event_def split: if_splits)
qed (auto simp: reader_stops_def shutdown_fires_def writer_ends_def task_sends_def task_ends_def
      writer_direct_def conn_send_def split: if_splits option.splits recv.splits prod.splits)

lemma bytes_reach_inv: "bytes_reach enc may log s \<Longrightarrow> bytes_inv enc s"
proof (induction rule: bytes_reach.induct)
  case (bytes_new log)
  show ?case by (simp add: bytes_inv_def conn_new_def wire_bytes_def)
next
  case (bytes_direct log s to_vec write_all flush s')
  obtain w cs where s: "s = (w, cs)" by (cases s)
  with bytes_direct.hyps(3) obtain m where m: "snd (chan_recv (outq cs)) = Item m"
    by (auto simp: bytes_direct_def split: recv.splits)
  obtain w' r where w': "write_line to_vec write_all flush w m = (w', r)" by fastforce
  with bytes_direct.hyps(3) s m obtain cs' where s': "s' = (w', cs')" "writer_direct (\<not> isl r) cs = Some cs'"
    by (auto simp: bytes_direct_def)
  then have "rx_live (outq cs)"
    and "if isl r then wire_out cs' = wire_out cs \<and> \<not> rx_live (outq cs')
         else wire_out cs' = wire_out cs @ [Direct m] \<and> written_message (Direct m) = m"
    using m by (auto simp: writer_direct_def split: if_splits recv.splits prod.splits)
  with bytes_inv_write [OF bytes_direct.hyps(2) w'] bytes_direct.IH s s'(1) show ?case by blast
next
  case (bytes_event log s to_vec write_all flush closed capacity s')
  obtain w cs where s: "s = (w, cs)" by (cases s)
  show ?case
  proof (cases "\<exists>m. fst (bcast_recv closed capacity log (bpos cs)) = BcastOk m \<and> subscribed cs")
    case True
    then obtain m where m: "fst (bcast_recv closed capacity log (bpos cs)) = BcastOk m" "subscribed cs" by blast
    obtain w' r where w': "write_line to_vec write_all flush w m = (w', r)" by fastforce
    with bytes_event.hyps(3) s m obtain cs' where
      s': "s' = (w', cs')" "writer_event (\<not> isl r) closed capacity log cs = Some cs'"
      by (auto simp: bytes_event_def)
    then have "rx_live (outq cs)"
      and "if isl r then wire_out cs' = wire_out cs \<and> \<not> rx_live (outq cs')
           else wire_out cs' = wire_out cs @ [Event m] \<and> written_message (Event m) = m"
      using m by (auto simp: writer_event_def Let_def split: if_splits bcast_recv.splits prod.splits)
    with bytes_inv_write [OF bytes_event.hyps(2) w'] bytes_event.IH s s'(1) show ?thesis by blast
  next
    case False
    with bytes_event.hyps(3) s obtain cs' where "s' = (w, cs')" "writer_event True closed capacity log cs = Some cs'"
      by (auto simp: bytes_event_def split: bcast_recv.splits if_splits)
    moreover from this False have "wire_out cs' = wire_out cs" "rx_live (outq cs') \<longrightarrow> rx_live (outq cs)"
      by (auto simp: writer_event_def Let_def split: if_splits bcast_recv.splits prod.splits)
    ultimately show ?thesis using bytes_event.IH s bytes_inv_same by blast
  qed
next
  case (bytes_other log w cs cs')
  then show ?case using bytes_inv_same conn_step_rx_live by blast
qed

section \<open>The wire's guarantees\<close>

text \<open>The text of a message: one line between braces, as compact JSON objects are.\<close>

definition one_line :: "(json \<Rightarrow> string) \<Rightarrow> bool" where
  "one_line enc =
     (\<forall>m. newline \<notin> set (enc (daemon_to_json m))
        \<and> (\<exists>mid. enc (daemon_to_json m) = ''{'' @ mid @ ''}''))"

lemma one_line_json: "one_line json_text"
proof -
  have "\<exists>kvs. daemon_to_json m = JObj kvs" for m by (cases m) (auto simp: ser_variant_def)
  then show ?thesis unfolding one_line_def by (metis json_text_line)
qed

text \<open>What a reader makes of part of a line.\<close>

lemma socket_lines_part:
  assumes "one_line enc" and "prefix part (message_line enc m)" and "part \<noteq> []"
  shows "\<exists>p. p \<noteq> [] \<and> prefix p (enc (daemon_to_json m)) \<and> socket_lines part = [line_in_of p]"
proof -
  let ?t = "enc (daemon_to_json m)"
  from assms(1) obtain mid where t: "newline \<notin> set ?t" "?t = ''{'' @ mid @ ''}''"
    unfolding one_line_def by blast
  consider "prefix part ?t" | "part = ?t @ [newline]"
    using assms(2) by (auto simp: message_line_def)
  then show ?thesis
  proof cases
    case 1
    then have "newline \<notin> set part" using t(1) set_mono_prefix by blast
    then have *: "takeWhile (\<lambda>c. c \<noteq> newline) part = part" "dropWhile (\<lambda>c. c \<noteq> newline) part = []"
      by (auto simp: takeWhile_eq_all_conv)
    have "socket_lines part = [line_in_of part]"
      unfolding socket_lines.simps [of part] Let_def * using assms(3) by simp
    with 1 assms(3) show ?thesis by blast
  next
    case 2
    have "chop_cr ?t = ?t" by (simp add: t(2) chop_cr_def carriage_return_def)
    with 2 socket_lines_line [OF t(1), of "[]"] t(2) show ?thesis by (intro exI [of _ ?t]) simp
  qed
qed

text \<open>
  C21: what a connection's writer has put on the socket, whichever of its writes failed and wherever they
  were cut, is read by the client's line reader as exactly the messages written, in order, none merged,
  split or lost. After them there is at most one more line: the text of a message, or its beginning, that
  was being written when the writer ended with the write's error.
\<close>

theorem written_messages_are_read:
  assumes "bytes_reach enc may log (w, cs)" and "one_line enc"
    and "\<forall>x \<in> set (wire_out cs). readable parse enc (written_message x)"
  shows "\<exists>ls tail. carries parse ls (map written_message (wire_out cs)) \<and> socket_lines w = ls @ tail
    \<and> (tail = [] \<or> \<not> rx_live (outq cs)
        \<and> (\<exists>m p. p \<noteq> [] \<and> prefix p (enc (daemon_to_json m)) \<and> tail = [line_in_of p]))"
proof -
  let ?ms = "map written_message (wire_out cs)"
  from bytes_reach_inv [OF assms(1)] obtain part m where part: "w = wire_bytes enc (wire_out cs) @ part"
    "prefix part (message_line enc m)" "rx_live (outq cs) \<longrightarrow> part = []"
    by (auto simp: bytes_inv_def)
  from assms(3) have "list_all (readable parse enc) ?ms" by (auto simp: list_all_iff)
  from carries_bytes [OF this] part(1) obtain ls where ls: "carries parse ls ?ms"
    "socket_lines w = ls @ socket_lines part"
    by (auto simp: wire_bytes_def comp_def)
  show ?thesis
  proof (cases "part = []")
    case True
    with ls show ?thesis by (intro exI [of _ ls] exI [of _ "[]"]) simp
  next
    case False
    with socket_lines_part [OF assms(2) part(2)] part(3) ls show ?thesis by blast
  qed
qed

text \<open>Two malformed lines, of whose replies the first is written and the second cut after three bytes.\<close>

definition demo_reply :: daemon_message where
  "demo_reply = Error None ''malformed request: e''"

definition demo_queue :: "nat \<Rightarrow> conn" where
  "demo_queue n = (conn_new 0)\<lparr>outq := chan_new\<lparr>queue := replicate n demo_reply\<rparr>\<rparr>"

lemma demo_line: "n < 2 \<Longrightarrow> on_line json_read (\<lambda>_. ''e'') ''x'' (demo_queue n) = Some (demo_queue (Suc n))"
proof -
  assume "n < 2"
  moreover have "trim ''x'' \<noteq> []" "json_read ''x'' = None" by code_simp+
  ultimately show ?thesis
    by (simp add: on_line_def read_request_def conn_send_def demo_queue_def demo_reply_def conn_new_def
        chan_new_def chan_send_def conn_queue_def replicate_append_same)
qed

lemma demo_cut:
  "bytes_reach json_text may []
     (message_line json_text demo_reply @ take 3 (message_line json_text demo_reply),
      (conn_new 0)\<lparr>outq := chan_drop_rx chan_new, wire_out := [Direct demo_reply]\<rparr>)"
proof -
  let ?to_vec = "\<lambda>v. Inr (json_text v)"
  have "bytes_reach json_text may [] ([], demo_queue 0)"
    using bytes_new [of json_text may "[]"] by (simp add: demo_queue_def conn_new_def chan_new_def)
  then have "bytes_reach json_text may [] ([], demo_queue 1)"
    using bytes_other [OF _ conn_line [OF demo_line [of 0]]] by (simp add: demo_queue_def)
  then have "bytes_reach json_text may [] ([], demo_queue 2)"
    using bytes_other [OF _ conn_line [OF demo_line [of 1]]] by (simp add: demo_queue_def numeral_2_eq_2)
  moreover have "sink_ok json_text ?to_vec (\<lambda>_. Inr ())"
    and "sink_ok json_text ?to_vec (\<lambda>buf. Inl (take 3 buf, ''broken pipe''))"
    by (simp_all add: sink_ok_def take_is_prefix)
  moreover have "bytes_direct ?to_vec (\<lambda>_. Inr ()) (Inr ()) ([], demo_queue 2) =
      Some (message_line json_text demo_reply, (demo_queue 1)\<lparr>wire_out := [Direct demo_reply]\<rparr>)"
    by (simp add: bytes_direct_def write_line_appends writer_direct_def demo_queue_def chan_recv_def
        numeral_2_eq_2 conn_new_def chan_new_def)
  moreover have "bytes_direct ?to_vec (\<lambda>buf. Inl (take 3 buf, ''broken pipe'')) (Inr ())
      (message_line json_text demo_reply, (demo_queue 1)\<lparr>wire_out := [Direct demo_reply]\<rparr>) =
      Some (message_line json_text demo_reply @ take 3 (message_line json_text demo_reply),
        (conn_new 0)\<lparr>outq := chan_drop_rx chan_new, wire_out := [Direct demo_reply]\<rparr>)"
    by (simp add: bytes_direct_def write_line_def message_line_def writer_direct_def demo_queue_def
        chan_recv_def chan_drop_rx_def conn_new_def chan_new_def del: daemon_to_json.simps json_text.simps)
  ultimately show ?thesis by (blast intro: bytes_direct)
qed

theorem written_messages_are_read_witness:
  "\<exists>ls tail. carries json_read ls [demo_reply]
     \<and> socket_lines (message_line json_text demo_reply @ take 3 (message_line json_text demo_reply)) = ls @ tail
     \<and> (tail = [] \<or> (\<exists>m p. p \<noteq> [] \<and> prefix p (json_text (daemon_to_json m)) \<and> tail = [line_in_of p]))"
proof -
  let ?cs = "(conn_new 0)\<lparr>outq := chan_drop_rx chan_new, wire_out := [Direct demo_reply]\<rparr>"
  have "plain (daemon_to_json demo_reply)" by code_simp
  then have "\<forall>x \<in> set (wire_out ?cs). readable json_read json_text (written_message x)"
    using readable_plain [of demo_reply] by (simp add: demo_reply_def)
  from written_messages_are_read [OF demo_cut one_line_json this] show ?thesis by auto
qed

text \<open>
  C22: a request line that \<open>hermes-dms-ctl\<close> or the panel writes is one line to the daemon's reader, and
  the reader acts on the very message that was sent, whatever text the message holds.
\<close>

theorem request_line_is_acted_on:
  assumes "text_layer parse enc (client_to_json m)" and "reading cs"
  shows "socket_lines (send_line enc m @ rest) = Line (enc (client_to_json m)) # socket_lines rest
    \<and> on_line parse err (enc (client_to_json m)) cs = Some (on_message m cs)"
  using text_layer_line [OF assms(1)] assms(2)
  by (simp add: send_line_def on_line_def read_request_def client_roundtrip)

theorem request_line_is_acted_on_witness:
  "on_line json_read (\<lambda>_. []) (json_text (client_to_json (Cancel ''a''))) (conn_new 0) =
     Some (on_message (Cancel ''a'') (conn_new 0))"
proof -
  have "plain (client_to_json (Cancel ''a''))" by code_simp
  from request_line_is_acted_on [OF client_text_layer [OF this], of "conn_new 0" "[]" "\<lambda>_. []"] show ?thesis
    by (simp add: conn_new_def)
qed

end
