(* ===== verification/Request_Types.thy ===== *)
theory Request_Types
  imports Protocol
begin

text \<open>
  Which objects the daemon accepts as a request. The derived reader of \<open>ClientMessage\<close> is compared with
  a table of the request types: an object is read exactly if it is well typed.
\<close>

section \<open>Types of requests\<close>

datatype field_type = Required | Optional

text \<open>The members each kind of request has, all of them strings.\<close>

definition request_type :: "string \<Rightarrow> (string \<times> field_type) list option" where
  "request_type tag =
     map_of
       [(''chat'', [(''request_id'', Required), (''session_id'', Optional), (''message'', Required)]),
        (''session_create'', [(''request_id'', Required), (''title'', Optional)]),
        (''session_list'', [(''request_id'', Required)]),
        (''session_resume'', [(''request_id'', Required), (''session_id'', Required)]),
        (''session_messages'', [(''request_id'', Required), (''session_id'', Required)]),
        (''cancel'', [(''request_id'', Required)]),
        (''status'', [(''request_id'', Required)]),
        (''subscribe'', [(''request_id'', Optional)]),
        (''model_list'', [(''request_id'', Required)]),
        (''set_model'', [(''request_id'', Optional), (''model'', Required)])] tag"

text \<open>All values an object gives a key.\<close>

definition values_of :: "string \<Rightarrow> (string \<times> json) list \<Rightarrow> json list" where
  "values_of k kvs = map snd (filter (\<lambda>(k', _). k' = k) kvs)"

fun is_str :: "json \<Rightarrow> bool" where
  "is_str (JStr _) = True"
| "is_str _ = False"

text \<open>A member that occurs once, or not at all where it is optional, with a string or \<open>null\<close>.\<close>

fun field_typed :: "field_type \<Rightarrow> json list \<Rightarrow> bool" where
  "field_typed Required [v] = is_str v"
| "field_typed Required _ = False"
| "field_typed Optional [] = True"
| "field_typed Optional [v] = (v = JNull \<or> is_str v)"
| "field_typed Optional _ = False"

text \<open>One \<open>type\<close> that is known, and each of its members well typed; other members are free.\<close>

definition request_typed :: "(string \<times> json) list \<Rightarrow> bool" where
  "request_typed kvs =
     (case values_of tag_key kvs of
        [JStr tag] \<Rightarrow>
          (case request_type tag of
             None \<Rightarrow> False
           | Some decls \<Rightarrow> list_all (\<lambda>(k, ty). field_typed ty (values_of k kvs)) decls)
      | _ \<Rightarrow> False)"

section \<open>What the readers see of an object\<close>

lemma values_of_simps [simp]:
  "values_of k [] = []"
  "values_of k ((k', v) # kvs) = (if k' = k then v # values_of k kvs else values_of k kvs)"
  by (simp_all add: values_of_def)

lemma values_of_filter:
  "values_of k (filter (\<lambda>(k', _). P k') kvs) = (if P k then values_of k kvs else [])"
  by (induction kvs) auto

lemma values_of_empty: "values_of k kvs = [] \<longleftrightarrow> k \<notin> fst ` set kvs"
  by (induction kvs rule: list.induct) (simp_all add: case_prod_beta image_iff values_of_def)

lemma map_of_values: "map_of kvs k = (case values_of k kvs of [] \<Rightarrow> None | v # _ \<Rightarrow> Some v)"
  by (induction kvs) auto

lemma distinct_values:
  "distinct (map fst kvs) \<longleftrightarrow> (\<forall>k. length (values_of k kvs) \<le> 1)"
proof (induction kvs)
  case (Cons kv kvs)
  obtain k v where kv: "kv = (k, v)" by force
  have "(\<forall>j. length (values_of j (kv # kvs)) \<le> 1) \<longleftrightarrow>
      values_of k kvs = [] \<and> (\<forall>j. length (values_of j kvs) \<le> 1)"
  proof (intro iffI conjI allI)
    assume "\<forall>j. length (values_of j (kv # kvs)) \<le> 1"
    from spec [OF this, of k] show "values_of k kvs = []" by (simp add: kv)
  next
    fix j
    assume "\<forall>j. length (values_of j (kv # kvs)) \<le> 1"
    from spec [OF this, of j] show "length (values_of j kvs) \<le> 1" by (simp add: kv split: if_splits)
  next
    fix j
    assume "values_of k kvs = [] \<and> (\<forall>j. length (values_of j kvs) \<le> 1)"
    then show "length (values_of j (kv # kvs)) \<le> 1" by (cases "j = k") (simp_all add: kv)
  qed
  with Cons.IH show ?case by (simp add: kv values_of_empty)
qed simp

lemma struct_fields_obj:
  "struct_fields ks (JObj kvs) =
     (if \<forall>k \<in> set ks. length (values_of k kvs) \<le> 1
      then Some (\<lambda>k. if k \<in> set ks
                     then case values_of k kvs of [] \<Rightarrow> None | v # _ \<Rightarrow> Some v else None)
      else None)"
proof -
  let ?known = "filter (\<lambda>(k, _). k \<in> set ks) kvs"
  have vals: "values_of k ?known = (if k \<in> set ks then values_of k kvs else [])" for k
    using values_of_filter [of k "\<lambda>k. k \<in> set ks" kvs] by simp
  then have "distinct (map fst ?known) \<longleftrightarrow> (\<forall>k \<in> set ks. length (values_of k kvs) \<le> 1)"
    unfolding distinct_values by (auto split: if_splits)
  moreover have "map_of ?known = (\<lambda>k. if k \<in> set ks
      then case values_of k kvs of [] \<Rightarrow> None | v # _ \<Rightarrow> Some v else None)"
    by (rule ext) (simp add: map_of_values vals)
  ultimately show ?thesis by (simp add: struct_fields_def Let_def)
qed

text \<open>Reading a field, against its type.\<close>

lemma de_str_typed: "(\<exists>s. de_str v = Some s) \<longleftrightarrow> is_str v"
  by (cases v) (simp_all add: de_str_def)

lemma field_typed_iff:
  "field_typed Required vs \<longleftrightarrow> (\<exists>s. vs = [JStr s])"
  "field_typed Optional vs \<longleftrightarrow> vs = [] \<or> vs = [JNull] \<or> (\<exists>s. vs = [JStr s])"
proof -
  have *: "is_str v \<longleftrightarrow> (\<exists>s. v = JStr s)" for v by (cases v) simp_all
  show "field_typed Required vs \<longleftrightarrow> (\<exists>s. vs = [JStr s])"
    using * by (cases "(Required, vs)" rule: field_typed.cases) simp_all
  show "field_typed Optional vs \<longleftrightarrow> vs = [] \<or> vs = [JNull] \<or> (\<exists>s. vs = [JStr s])"
    using * by (cases "(Optional, vs)" rule: field_typed.cases) simp_all
qed

text \<open>The readers of one field, for an object whose known fields occur at most once.\<close>

definition field_map :: "string list \<Rightarrow> (string \<times> json) list \<Rightarrow> string \<rightharpoonup> json" where
  "field_map ks kvs k =
     (if k \<in> set ks then case values_of k kvs of [] \<Rightarrow> None | v # _ \<Rightarrow> Some v else None)"

lemma req_field_typed:
  assumes "length (values_of k kvs) \<le> 1" and "k \<in> set ks"
  shows "(\<exists>s. req_field de_str (field_map ks kvs) k = Some s) \<longleftrightarrow> field_typed Required (values_of k kvs)"
  using assms by (cases "values_of k kvs") (auto simp: field_map_def req_field_def de_str_typed)

lemma opt_field_typed:
  assumes "length (values_of k kvs) \<le> 1" and "k \<in> set ks"
  shows "(\<exists>s. opt_field de_str (field_map ks kvs) k = Some s) \<longleftrightarrow> field_typed Optional (values_of k kvs)"
  using assms
  by (cases "values_of k kvs") (auto simp: field_map_def opt_field_def de_opt_def de_str_typed)

lemma typed_once: "field_typed ty vs \<Longrightarrow> length vs \<le> 1"
  by (cases "(ty, vs)" rule: field_typed.cases) simp_all

lemma ap_read:
  "(\<exists>r. ap1 f a = Some r) \<longleftrightarrow> (\<exists>x. a = Some x)"
  "(\<exists>r. ap2 g a b = Some r) \<longleftrightarrow> (\<exists>x. a = Some x) \<and> (\<exists>y. b = Some y)"
  "(\<exists>r. ap3 h a b c = Some r) \<longleftrightarrow> (\<exists>x. a = Some x) \<and> (\<exists>y. b = Some y) \<and> (\<exists>z. c = Some z)"
  by (auto simp: ap1_def ap2_def ap3_def bind_eq_Some_conv)

lemma values_of_content:
  "k \<noteq> tag_key \<Longrightarrow> values_of k (filter (\<lambda>(k, _). k \<noteq> tag_key) kvs) = values_of k kvs"
  using values_of_filter [of k "\<lambda>k. k \<noteq> tag_key" kvs] by simp

lemma tagged_obj:
  "tagged (JObj kvs) =
     (case values_of tag_key kvs of
        [JStr tag] \<Rightarrow> Some (tag, JObj (filter (\<lambda>(k, _). k \<noteq> tag_key) kvs))
      | _ \<Rightarrow> None)"
  by (auto simp: tagged_def values_of_def split: list.split json.split)

text \<open>One kind of request.\<close>

lemma variant_typed:
  assumes ks: "client_fields tag = Some ks" and ty: "request_type tag = Some decls"
  shows "(\<exists>m. Option.bind (struct_fields ks (JObj kvs)) (client_variant tag) = Some m) \<longleftrightarrow>
    list_all (\<lambda>(k, t). field_typed t (values_of k kvs)) decls"
proof (cases "\<forall>k \<in> set ks. length (values_of k kvs) \<le> 1")
  case True
  then have read: "struct_fields ks (JObj kvs) = Some (field_map ks kvs)"
    by (simp add: struct_fields_obj field_map_def fun_eq_iff)
  from ks ty True show ?thesis
    unfolding read client_fields_def request_type_def
    by (simp split: if_splits; hypsubst;
        simp add: client_variant_def ap_read req_field_typed opt_field_typed Let_def)
next
  case False
  then have "struct_fields ks (JObj kvs) = None" by (auto simp: struct_fields_obj)
  moreover have "set ks \<subseteq> fst ` set decls"
    using ks ty by (auto simp: client_fields_def request_type_def split: if_splits)
  with False have "\<not> list_all (\<lambda>(k, t). field_typed t (values_of k kvs)) decls"
    using typed_once by (fastforce simp: list_all_iff)
  ultimately show ?thesis by simp
qed

section \<open>The reader's guarantee\<close>

text \<open>
  C20: an object is accepted as a request exactly if it is well typed: one \<open>type\<close> that names a
  request, each required member once and a string, each optional one at most once and a string or
  \<open>null\<close>; members the request does not have are free.
\<close>

theorem request_accepted_iff_typed:
  "(\<exists>m. client_of_json (JObj kvs) = Some m) = request_typed kvs"
proof (cases "\<exists>tag. values_of tag_key kvs = [JStr tag]")
  case True
  then obtain tag where tag: "values_of tag_key kvs = [JStr tag]" by blast
  let ?content = "filter (\<lambda>(k, _). k \<noteq> tag_key) kvs"
  show ?thesis
  proof (cases "client_fields tag")
    case None
    then have "request_type tag = None"
      by (auto simp: client_fields_def request_type_def split: if_splits)
    with None tag show ?thesis by (simp add: client_of_json_def tagged_obj request_typed_def)
  next
    case (Some ks)
    then obtain decls where ty: "request_type tag = Some decls"
      and keys: "\<forall>(k, t) \<in> set decls. k \<noteq> tag_key"
      by (auto simp: client_fields_def request_type_def tag_key_def split: if_splits)
    have "list_all (\<lambda>(k, t). field_typed t (values_of k ?content)) decls =
        list_all (\<lambda>(k, t). field_typed t (values_of k kvs)) decls"
      using keys by (intro list.pred_cong refl) (auto simp: values_of_content)
    with variant_typed [OF Some ty, of ?content] Some tag ty show ?thesis
      by (simp add: client_of_json_def tagged_obj request_typed_def)
  qed
next
  case False
  then have "tagged (JObj kvs) = None" and "\<not> request_typed kvs"
    by (auto simp: tagged_obj request_typed_def neq_Nil_conv split: list.splits json.splits)
  then show ?thesis by (simp add: client_of_json_def)
qed

end
