(* ===== verification/Bridge_System.thy ===== *)
theory Bridge_System
  imports Daemon
begin

text \<open>
  The running bridge: every chat turn, every adapter socket and its write task over the one hub they
  share. \<open>sys_step\<close> interleaves their steps as the tasks of the runtime do; the label of a step is what
  an observer of the daemon could write down. \<open>sys_trace ok\<close> are the runs in which each step also
  satisfies the assumption \<open>ok\<close> about the clients.
\<close>

section \<open>The shared state and its steps\<close>

record sys =
  sy_hub :: hub
  sy_turns :: "nat \<rightharpoonup> chat"
  sy_cancelled :: "nat set"
  sy_sockets :: "nat set"

datatype event =
    Spawned nat chat
  | Stepped nat phase "effect list"
  | CancelFired nat
  | Connected nat
  | TextIn nat string
  | Disconnected nat
  | Wrote nat "json option"

definition sys_start :: "hub \<Rightarrow> sys" where
  "sys_start h = \<lparr>sy_hub = h, sy_turns = Map.empty, sy_cancelled = {}, sy_sockets = {}\<rparr>"

inductive sys_step :: "(string \<Rightarrow> json option) \<Rightarrow> bool \<Rightarrow> sys \<Rightarrow> event \<Rightarrow> sys \<Rightarrow> bool"
  for parse dbus
where
  sys_spawn: "sy_turns s t = None \<Longrightarrow> c = handle_chat now rand rid session_id message \<Longrightarrow>
    sys_step parse dbus s (Spawned t c) (s\<lparr>sy_turns := (sy_turns s)(t \<mapsto> c)\<rparr>)"
| sys_turn: "sy_turns s t = Some c \<Longrightarrow>
    chat_step dbus (t \<in> sy_cancelled s) c (sy_hub s) es c' h' \<Longrightarrow>
    sys_step parse dbus s (Stepped t (ch_phase c) es)
      (s\<lparr>sy_hub := h', sy_turns := (sy_turns s)(t \<mapsto> c')\<rparr>)"
| sys_cancel: "sy_turns s t = Some c \<Longrightarrow>
    sys_step parse dbus s (CancelFired t) (s\<lparr>sy_cancelled := insert t (sy_cancelled s)\<rparr>)"
| sys_connect: "socket_open (sy_hub s) = (a, h') \<Longrightarrow>
    sys_step parse dbus s (Connected a)
      (s\<lparr>sy_hub := h', sy_sockets := insert a (sy_sockets s)\<rparr>)"
| sys_text: "a \<in> sy_sockets s \<Longrightarrow>
    sys_step parse dbus s (TextIn a line) (s\<lparr>sy_hub := socket_text parse line (sy_hub s)\<rparr>)"
| sys_disconnect: "a \<in> sy_sockets s \<Longrightarrow>
    sys_step parse dbus s (Disconnected a)
      (s\<lparr>sy_hub := socket_close a (sy_hub s), sy_sockets := sy_sockets s - {a}\<rparr>)"
| sys_write: "writer_round accepted a (sy_hub s) = (h', j) \<Longrightarrow>
    sys_step parse dbus s (Wrote a j) (s\<lparr>sy_hub := h'\<rparr>)"

inductive_cases sys_stepE: "sys_step parse dbus s e s'"

inductive sys_trace ::
    "(sys \<Rightarrow> event \<Rightarrow> bool) \<Rightarrow> (string \<Rightarrow> json option) \<Rightarrow> bool \<Rightarrow> event list \<Rightarrow> sys \<Rightarrow> bool"
  for ok parse dbus
where
  sys_init: "sys_trace ok parse dbus [] (sys_start hub_new)"
| sys_next: "sys_trace ok parse dbus tr s \<Longrightarrow> sys_step parse dbus s e s' \<Longrightarrow> ok s e \<Longrightarrow>
    sys_trace ok parse dbus (tr @ [e]) s'"

definition any_client :: "sys \<Rightarrow> event \<Rightarrow> bool" where
  "any_client s e = True"

text \<open>Clients that never start a chat under an id another running chat uses.\<close>

definition live_turn :: "sys \<Rightarrow> nat \<Rightarrow> chat \<Rightarrow> bool" where
  "live_turn s t c = (sy_turns s t = Some c \<and> ch_phase c \<noteq> Done)"

definition distinct_chats :: "sys \<Rightarrow> event \<Rightarrow> bool" where
  "distinct_chats s e =
     (case e of
        Spawned t c \<Rightarrow> \<forall>t' c'. live_turn s t' c' \<longrightarrow> ch_chat c' \<noteq> ch_chat c
      | _ \<Rightarrow> True)"

lemma any_client_trace: "sys_trace ok parse dbus tr s \<Longrightarrow> sys_trace any_client parse dbus tr s"
  by (induction rule: sys_trace.induct) (auto intro: sys_trace.intros simp: any_client_def)

section \<open>Where a turn stands with the hub\<close>

definition has_rx :: "chat \<Rightarrow> bool" where
  "has_rx c = (ch_phase c \<notin> {Opening, Done})"

lemma chat_step_phase_cases:
  assumes "chat_step dbus stop c h es c' h'"
  obtains
    (opened) "ch_phase c = Opening" "c' = c\<lparr>ch_rx := next_from h, ch_phase := Sending\<rparr>"
      "h' = snd (open_chat (ch_chat c) h)" "es = []"
  | (pushed) "ch_phase c = Sending" "ch_phase c' = Looping \<or> ch_phase c' = Rejecting"
      "ch_rx c' = ch_rx c" "h' = fst (send_inbound (ch_chat c) (ch_message c) (ch_request c) h)"
      "es = []"
  | (took) f where "ch_phase c = Looping" "queue (from_chans h (ch_rx c)) = f # tl (queue (from_chans h (ch_rx c)))"
      "h' = fst (recv_frame (ch_rx c) h)" "frame_arm dbus c (Item f) = Some (es, c')"
      "ch_rx c' = ch_rx c"
  | (lost) "ch_phase c = Looping" "queue (from_chans h (ch_rx c)) = []" "tx_count (from_chans h (ch_rx c)) = 0"
      "h' = fst (recv_frame (ch_rx c) h)" "c' = c\<lparr>ch_phase := Closing\<rparr>"
      "es = [send_error (ch_request c) ''desktop platform disconnected'']"
  | (stopped) "ch_phase c = Looping" "stop" "h' = h" "c' = c\<lparr>ch_phase := Closing\<rparr>"
      "es = [send_error (ch_request c) ''cancelled'']"
  | (left) "ch_phase c = Closing \<or> ch_phase c = Rejecting" "c' = c\<lparr>ch_phase := Done\<rparr>"
      "h' = drop_frames (ch_rx c) (close_chat (ch_chat c) h)"
      "es = (if ch_phase c = Closing then [] else [send_error (ch_request c) ''desktop platform offline''])"
  using assms
proof (cases rule: chat_step.cases)
  case step_open
  then show ?thesis using opened by (auto simp: chat_open_def Let_def case_prod_beta)
next
  case step_push
  then show ?thesis using pushed by (auto simp: chat_push_def Let_def case_prod_beta split: if_splits)
next
  case step_reject
  then show ?thesis using left by (auto simp: chat_reject_def Let_def)
next
  case step_cancel
  then show ?thesis using stopped by (auto simp: chat_cancelled_def)
next
  case step_finish
  then show ?thesis using left by (auto simp: chat_finish_def Let_def)
next
  case step_frame
  from step_frame(2) have arm: "frame_arm dbus c (snd (chan_recv (from_chans h (ch_rx c)))) = Some (es, c')"
    and h': "h' = fst (recv_frame (ch_rx c) h)"
    by (auto simp: chat_frame_def Let_def case_prod_beta)
  show ?thesis
  proof (cases "snd (chan_recv (from_chans h (ch_rx c)))")
    case (Item f)
    with arm have "frame_arm dbus c (Item f) = Some (es, c')" by simp
    moreover from this have "ch_rx c' = ch_rx c"
      by (auto simp: frame_arm_def split: from_adapter.splits)
    ultimately show ?thesis
      using took [OF step_frame(1) chan_recv_ItemD [OF Item] h'] by blast
  next
    case Closed
    with arm have "c' = c\<lparr>ch_phase := Closing\<rparr>"
      and "es = [send_error (ch_request c) ''desktop platform disconnected'']"
      by (auto simp: frame_arm_def)
    moreover from Closed have "queue (from_chans h (ch_rx c)) = []"
      and "tx_count (from_chans h (ch_rx c)) = 0"
      by (simp_all add: mpsc.recv_closed_iff)
    ultimately show ?thesis using lost step_frame(1) h' by simp
  next
    case Pending
    with arm show ?thesis by (simp add: frame_arm_def)
  qed
qed

text \<open>
  What the hub keeps for a turn that holds a receiver: the channel is its own, nobody else's id leads
  to it, and only frames of its chat wait in it.
\<close>

definition turn_ok :: "hub \<Rightarrow> chat \<Rightarrow> bool" where
  "turn_ok h c =
     (has_rx c \<longrightarrow>
        ch_rx c < next_from h \<and> rx_live (from_chans h (ch_rx c))
        \<and> (\<forall>k. routes h k = Some (ch_rx c) \<longrightarrow> k = ch_chat c)
        \<and> (\<forall>f \<in> set (queue (from_chans h (ch_rx c))). chat_id f = ch_chat c))"

text \<open>And whether its route is still there.\<close>

definition turn_routed :: "hub \<Rightarrow> chat \<Rightarrow> bool" where
  "turn_routed h c = (has_rx c \<longrightarrow> routes h (ch_chat c) = Some (ch_rx c))"

lemma turn_ok_other:
  assumes "turn_ok h c"
  shows "has_rx c \<Longrightarrow> ch_rx c \<noteq> next_from h"
    and "turn_ok (snd (open_chat k h)) c"
    and "turn_ok (close_chat k h) c"
    and "turn_ok (fst (send_inbound k s m h)) c"
    and "turn_ok (dispatch f h) c"
    and "turn_ok (fst (recv_frame r h)) c"
    and "(has_rx c \<Longrightarrow> r \<noteq> ch_rx c) \<Longrightarrow> turn_ok (drop_frames r h) c"
    and "turn_ok (snd (socket_open h)) c"
    and "turn_ok (socket_close a h) c"
    and "turn_ok (fst (writer_round b a h)) c"
  using assms unfolding turn_ok_def by (auto dest: in_set_tl)

lemma turn_routed_other:
  assumes "turn_routed h c"
  shows "k \<noteq> ch_chat c \<Longrightarrow> turn_routed (snd (open_chat k h)) c"
    and "k \<noteq> ch_chat c \<Longrightarrow> turn_routed (close_chat k h) c"
    and "turn_routed (fst (send_inbound k s m h)) c"
    and "turn_routed (dispatch f h) c"
    and "turn_routed (fst (recv_frame r h)) c"
    and "turn_routed (drop_frames r h) c"
    and "turn_routed (snd (socket_open h)) c"
    and "turn_routed (socket_close a h) c"
    and "turn_routed (fst (writer_round b a h)) c"
  using assms unfolding turn_routed_def by auto

section \<open>The invariant of every run\<close>

text \<open>
  The hub's own invariant, the turns' channels, no two turns on one channel, and no route without the
  running turn that opened it.
\<close>

definition sys_inv :: "sys \<Rightarrow> bool" where
  "sys_inv s =
     (hub_inv (sy_hub s)
      \<and> (\<forall>t c. sy_turns s t = Some c \<longrightarrow> turn_ok (sy_hub s) c)
      \<and> (\<forall>t t' c c'. sy_turns s t = Some c \<and> sy_turns s t' = Some c' \<and> has_rx c \<and> has_rx c'
           \<and> ch_rx c = ch_rx c' \<longrightarrow> t = t')
      \<and> (\<forall>k ch. routes (sy_hub s) k = Some ch \<longrightarrow>
           (\<exists>t c. sy_turns s t = Some c \<and> has_rx c \<and> ch_chat c = k \<and> ch_rx c = ch)))"

lemma sys_invD:
  assumes "sys_inv s"
  shows "hub_inv (sy_hub s)"
    and "sy_turns s t = Some c \<Longrightarrow> turn_ok (sy_hub s) c"
    and "sy_turns s t = Some c \<Longrightarrow> sy_turns s t' = Some c' \<Longrightarrow> has_rx c \<Longrightarrow> has_rx c' \<Longrightarrow>
      ch_rx c = ch_rx c' \<Longrightarrow> t = t'"
    and "routes (sy_hub s) k = Some ch \<Longrightarrow>
      \<exists>t c. sy_turns s t = Some c \<and> has_rx c \<and> ch_chat c = k \<and> ch_rx c = ch"
  using assms unfolding sys_inv_def by blast+

lemma sys_inv_hub_only:
  assumes inv: "sys_inv s" and "hub_inv h'" and "routes h' = routes (sy_hub s)"
    and "\<And>c. turn_ok (sy_hub s) c \<Longrightarrow> turn_ok h' c"
    and "sy_hub s' = h'" and "sy_turns s' = sy_turns s"
  shows "sys_inv s'"
  using assms unfolding sys_inv_def by (metis)

text \<open>A turn's step changes the hub and the one turn.\<close>

lemma sys_inv_turn:
  assumes inv: "sys_inv s" and "sy_turns s t = Some c"
    and hub: "hub_inv h'" and own: "turn_ok h' c'"
    and other: "\<And>t' d. sy_turns s t' = Some d \<Longrightarrow> t' \<noteq> t \<Longrightarrow> turn_ok h' d"
    and apart: "\<And>t' d. sy_turns s t' = Some d \<Longrightarrow> t' \<noteq> t \<Longrightarrow> has_rx d \<Longrightarrow> has_rx c' \<Longrightarrow> ch_rx d \<noteq> ch_rx c'"
    and owned: "\<And>k ch. routes h' k = Some ch \<Longrightarrow>
      (has_rx c' \<and> ch_chat c' = k \<and> ch_rx c' = ch)
      \<or> (\<exists>t' d. t' \<noteq> t \<and> sy_turns s t' = Some d \<and> has_rx d \<and> ch_chat d = k \<and> ch_rx d = ch)"
  shows "sys_inv (s\<lparr>sy_hub := h', sy_turns := (sy_turns s)(t \<mapsto> c')\<rparr>)"
  unfolding sys_inv_def
proof (intro conjI allI impI)
  show "hub_inv (sy_hub (s\<lparr>sy_hub := h', sy_turns := (sy_turns s)(t \<mapsto> c')\<rparr>))"
    using hub by simp
next
  fix u d
  assume "sy_turns (s\<lparr>sy_hub := h', sy_turns := (sy_turns s)(t \<mapsto> c')\<rparr>) u = Some d"
  then show "turn_ok (sy_hub (s\<lparr>sy_hub := h', sy_turns := (sy_turns s)(t \<mapsto> c')\<rparr>)) d"
    using own other by (auto split: if_splits)
next
  fix u v d e
  assume "sy_turns (s\<lparr>sy_hub := h', sy_turns := (sy_turns s)(t \<mapsto> c')\<rparr>) u = Some d
    \<and> sy_turns (s\<lparr>sy_hub := h', sy_turns := (sy_turns s)(t \<mapsto> c')\<rparr>) v = Some e
    \<and> has_rx d \<and> has_rx e \<and> ch_rx d = ch_rx e"
  then show "u = v"
    using apart sys_invD(3) [OF inv] by (auto split: if_splits)
next
  fix k ch
  assume "routes (sy_hub (s\<lparr>sy_hub := h', sy_turns := (sy_turns s)(t \<mapsto> c')\<rparr>)) k = Some ch"
  then have "routes h' k = Some ch" by simp
  from owned [OF this] show "\<exists>u d. sy_turns (s\<lparr>sy_hub := h', sy_turns := (sy_turns s)(t \<mapsto> c')\<rparr>) u = Some d
    \<and> has_rx d \<and> ch_chat d = k \<and> ch_rx d = ch"
    by auto
qed

lemma chat_step_same:
  assumes "chat_step dbus stop c h es c' h'"
  shows "ch_chat c' = ch_chat c" and "ch_request c' = ch_request c" and "ch_notify c' = ch_notify c"
  using chat_step_frame [OF assms] by simp_all

text \<open>A step in which the turn keeps its receiver and the routes stay.\<close>

lemma sys_inv_keep:
  assumes inv: "sys_inv s" and c: "sy_turns s t = Some c"
    and "has_rx c" "ch_chat c' = ch_chat c" "ch_rx c' = ch_rx c"
    and hub: "hub_inv h'" and "routes h' = routes (sy_hub s)"
    and keep: "\<And>d. turn_ok (sy_hub s) d \<Longrightarrow> turn_ok h' d"
    and "has_rx c'"
  shows "sys_inv (s\<lparr>sy_hub := h', sy_turns := (sy_turns s)(t \<mapsto> c')\<rparr>)"
proof (rule sys_inv_turn [OF inv c hub])
  from keep [OF sys_invD(2) [OF inv c]] show "turn_ok h' c'"
    using assms(3-5,9) by (simp add: turn_ok_def)
  show "ch_rx d \<noteq> ch_rx c'" if "sy_turns s t' = Some d" "t' \<noteq> t" "has_rx d" for t' d
    using sys_invD(3) [OF inv that(1) c that(3) assms(3)] that(2) assms(5) by auto
next
  fix k ch
  assume "routes h' k = Some ch"
  then show "(has_rx c' \<and> ch_chat c' = k \<and> ch_rx c' = ch)
      \<or> (\<exists>t' d. t' \<noteq> t \<and> sy_turns s t' = Some d \<and> has_rx d \<and> ch_chat d = k \<and> ch_rx d = ch)"
    using sys_invD(4) [OF inv, of k ch] assms(4,5,7,9) c by (metis option.inject)
qed (simp add: keep sys_invD(2) [OF inv])

lemma sys_inv_opened:
  assumes inv: "sys_inv s" and c: "sy_turns s t = Some c" and op: "ch_phase c = Opening"
  shows "sys_inv (s\<lparr>sy_hub := snd (open_chat (ch_chat c) (sy_hub s)),
    sy_turns := (sy_turns s)(t \<mapsto> c\<lparr>ch_rx := next_from (sy_hub s), ch_phase := Sending\<rparr>)\<rparr>)"
proof (rule sys_inv_turn [OF inv c])
  show "hub_inv (snd (open_chat (ch_chat c) (sy_hub s)))"
    by (simp add: hub_inv_intros sys_invD(1) [OF inv])
  show "turn_ok (snd (open_chat (ch_chat c) (sy_hub s)))
      (c\<lparr>ch_rx := next_from (sy_hub s), ch_phase := Sending\<rparr>)"
    using hub_inv_fresh [OF sys_invD(1) [OF inv]] by (auto simp: turn_ok_def)
  show "turn_ok (snd (open_chat (ch_chat c) (sy_hub s))) d" if "sy_turns s t' = Some d" for t' d
    by (rule turn_ok_other(2) [OF sys_invD(2) [OF inv that]])
  show "ch_rx d \<noteq> ch_rx (c\<lparr>ch_rx := next_from (sy_hub s), ch_phase := Sending\<rparr>)"
    if "sy_turns s t' = Some d" "has_rx d" for t' d
    using turn_ok_other(1) [OF sys_invD(2) [OF inv that(1)] that(2)] by simp
next
  fix k ch
  assume "routes (snd (open_chat (ch_chat c) (sy_hub s))) k = Some ch"
  moreover have "t' \<noteq> t" if "sy_turns s t' = Some d" "has_rx d" for t' d
    using that c op by (auto simp: has_rx_def)
  ultimately show "(has_rx (c\<lparr>ch_rx := next_from (sy_hub s), ch_phase := Sending\<rparr>)
      \<and> ch_chat (c\<lparr>ch_rx := next_from (sy_hub s), ch_phase := Sending\<rparr>) = k
      \<and> ch_rx (c\<lparr>ch_rx := next_from (sy_hub s), ch_phase := Sending\<rparr>) = ch)
    \<or> (\<exists>t' d. t' \<noteq> t \<and> sy_turns s t' = Some d \<and> has_rx d \<and> ch_chat d = k \<and> ch_rx d = ch)"
    using sys_invD(4) [OF inv, of k ch]
    by (cases "k = ch_chat c") (auto simp: has_rx_def)
qed

lemma sys_inv_left:
  assumes inv: "sys_inv s" and c: "sy_turns s t = Some c" and rx: "has_rx c"
  shows "sys_inv (s\<lparr>sy_hub := drop_frames (ch_rx c) (close_chat (ch_chat c) (sy_hub s)),
    sy_turns := (sy_turns s)(t \<mapsto> c\<lparr>ch_phase := Done\<rparr>)\<rparr>)"
proof (rule sys_inv_turn [OF inv c])
  have own: "\<And>k. routes (sy_hub s) k = Some (ch_rx c) \<Longrightarrow> k = ch_chat c"
    using sys_invD(2) [OF inv c] rx by (simp add: turn_ok_def)
  show "hub_inv (drop_frames (ch_rx c) (close_chat (ch_chat c) (sy_hub s)))"
    using own by (intro hub_inv_drop_frames hub_inv_close_chat sys_invD(1) [OF inv]) auto
  show "turn_ok (drop_frames (ch_rx c) (close_chat (ch_chat c) (sy_hub s))) (c\<lparr>ch_phase := Done\<rparr>)"
    by (simp add: turn_ok_def has_rx_def)
  show "turn_ok (drop_frames (ch_rx c) (close_chat (ch_chat c) (sy_hub s))) d"
    if "sy_turns s t' = Some d" "t' \<noteq> t" for t' d
    using sys_invD(3) [OF inv that(1) c _ rx] that(2)
    by (intro turn_ok_other(7) turn_ok_other(3) sys_invD(2) [OF inv that(1)]) auto
  show "has_rx (c\<lparr>ch_phase := Done\<rparr>) \<Longrightarrow> ch_rx d \<noteq> ch_rx (c\<lparr>ch_phase := Done\<rparr>)" for d
    by (simp add: has_rx_def)
next
  fix k ch
  assume r: "routes (drop_frames (ch_rx c) (close_chat (ch_chat c) (sy_hub s))) k = Some ch"
  then have "k \<noteq> ch_chat c" and "routes (sy_hub s) k = Some ch" by (auto split: if_splits)
  with sys_invD(4) [OF inv, of k ch] c
  show "(has_rx (c\<lparr>ch_phase := Done\<rparr>) \<and> ch_chat (c\<lparr>ch_phase := Done\<rparr>) = k
      \<and> ch_rx (c\<lparr>ch_phase := Done\<rparr>) = ch)
    \<or> (\<exists>t' d. t' \<noteq> t \<and> sy_turns s t' = Some d \<and> has_rx d \<and> ch_chat d = k \<and> ch_rx d = ch)"
    by (metis option.inject)
qed

lemma frame_arm_phase:
  "frame_arm dbus c item = Some (es, c') \<Longrightarrow> ch_phase c = Looping \<Longrightarrow> has_rx c' \<and> has_rx c"
  by (auto simp: frame_arm_def has_rx_def split: recv.splits from_adapter.splits)

lemma chat_step_system:
  assumes inv: "sys_inv s" and c: "sy_turns s t = Some c"
    and step: "chat_step dbus stop c (sy_hub s) es c' h'"
  shows "sys_inv (s\<lparr>sy_hub := h', sy_turns := (sy_turns s)(t \<mapsto> c')\<rparr>)"
  using step
proof (cases rule: chat_step_phase_cases)
  case opened
  with sys_inv_opened [OF inv c] show ?thesis by simp
next
  case pushed
  then have "has_rx c" "has_rx c'" by (auto simp: has_rx_def)
  with pushed chat_step_same [OF step] show ?thesis
    by (intro sys_inv_keep [OF inv c])
      (simp_all add: hub_inv_send_inbound turn_ok_other(4) sys_invD(1) [OF inv])
next
  case (took f)
  with frame_arm_phase chat_step_same [OF step] show ?thesis
    by (intro sys_inv_keep [OF inv c])
      (simp_all add: hub_inv_recv_frame turn_ok_other(6) sys_invD(1) [OF inv])
next
  case lost
  then have "has_rx c" "has_rx c'" by (auto simp: has_rx_def)
  with lost show ?thesis
    by (intro sys_inv_keep [OF inv c])
      (simp_all add: hub_inv_recv_frame turn_ok_other(6) sys_invD(1) [OF inv])
next
  case stopped
  then have "has_rx c" "has_rx c'" by (auto simp: has_rx_def)
  with stopped show ?thesis
    by (intro sys_inv_keep [OF inv c]) (simp_all add: sys_invD(1) [OF inv])
next
  case left
  then have "has_rx c" by (auto simp: has_rx_def)
  with sys_inv_left [OF inv c] left show ?thesis by simp
qed

lemma turn_ok_socket_text: "turn_ok h c \<Longrightarrow> turn_ok (socket_text parse line h) c"
  by (simp add: socket_text_def turn_ok_other(5) split: option.splits)

lemma routes_socket_text [simp]: "routes (socket_text parse line h) = routes h"
  by (simp add: socket_text_def split: option.splits)

lemma sys_step_inv: "sys_step parse dbus s e s' \<Longrightarrow> sys_inv s \<Longrightarrow> sys_inv s'"
proof (induction rule: sys_step.induct)
  case (sys_spawn s t c now rand rid session_id message)
  have no: "\<not> has_rx c" by (simp add: sys_spawn.hyps(2) has_rx_def)
  from sys_spawn.hyps(1) sys_spawn.prems no show ?case
    unfolding sys_inv_def by (auto simp: turn_ok_def split: if_splits) (metis option.distinct(1))+
next
  case (sys_turn s t c es c' h')
  then show ?case using chat_step_system by blast
next
  case (sys_cancel s t c)
  then show ?case by (simp add: sys_inv_def)
next
  case (sys_connect s a h')
  then have "h' = snd (socket_open (sy_hub s))" by simp
  then show ?case
    by (intro sys_inv_hub_only [OF sys_connect.prems, of h'])
      (simp_all add: hub_inv_socket_open sys_invD(1) [OF sys_connect.prems] turn_ok_other(8))
next
  case (sys_text a s line)
  then show ?case
    by (intro sys_inv_hub_only [OF sys_text.prems, of "socket_text parse line (sy_hub s)"])
      (simp_all add: hub_inv_socket_text sys_invD(1) turn_ok_socket_text)
next
  case (sys_disconnect a s)
  then show ?case
    by (intro sys_inv_hub_only [OF sys_disconnect.prems, of "socket_close a (sy_hub s)"])
      (simp_all add: hub_inv_socket_close sys_invD(1) turn_ok_other(9))
next
  case (sys_write accepted a s h' j)
  then have "h' = fst (writer_round accepted a (sy_hub s))" by simp
  then show ?case
    by (intro sys_inv_hub_only [OF sys_write.prems, of h'])
      (simp_all add: hub_inv_writer_round sys_invD(1) [OF sys_write.prems] turn_ok_other(10))
qed

lemma sys_start_inv: "sys_inv (sys_start hub_new)"
  by (simp add: sys_inv_def sys_start_def hub_inv_new) (simp add: hub_new_def)

lemma sys_trace_inv: "sys_trace ok parse dbus tr s \<Longrightarrow> sys_inv s"
  by (induction rule: sys_trace.induct) (auto intro: sys_step_inv sys_start_inv)

section \<open>Clients with distinct chats\<close>

text \<open>Then a running turn's route stays its own until the turn itself closes it.\<close>

definition routes_held :: "sys \<Rightarrow> bool" where
  "routes_held s =
     ((\<forall>t t' c c'. live_turn s t c \<and> live_turn s t' c' \<and> ch_chat c = ch_chat c' \<longrightarrow> t = t')
      \<and> (\<forall>t c. sy_turns s t = Some c \<longrightarrow> turn_routed (sy_hub s) c))"

lemma routes_heldD:
  assumes "routes_held s"
  shows "live_turn s t c \<Longrightarrow> live_turn s t' c' \<Longrightarrow> ch_chat c = ch_chat c' \<Longrightarrow> t = t'"
    and "sy_turns s t = Some c \<Longrightarrow> turn_routed (sy_hub s) c"
  using assms unfolding routes_held_def by blast+

lemma routes_held_hub_only:
  assumes "routes_held s" and "\<And>c. turn_routed (sy_hub s) c \<Longrightarrow> turn_routed h' c"
    and "sy_hub s' = h'" and "sy_turns s' = sy_turns s"
  shows "routes_held s'"
  using assms unfolding routes_held_def live_turn_def by metis

lemma routes_held_turn:
  assumes held: "routes_held s" and c: "sy_turns s t = Some c"
    and same: "ch_chat c' = ch_chat c" "ch_phase c \<noteq> Done"
    and own: "turn_routed h' c'"
    and other: "\<And>t' d. sy_turns s t' = Some d \<Longrightarrow> t' \<noteq> t \<Longrightarrow> turn_routed h' d"
  shows "routes_held (s\<lparr>sy_hub := h', sy_turns := (sy_turns s)(t \<mapsto> c')\<rparr>)"
proof -
  have "u = v" if "live_turn (s\<lparr>sy_hub := h', sy_turns := (sy_turns s)(t \<mapsto> c')\<rparr>) u d"
    "live_turn (s\<lparr>sy_hub := h', sy_turns := (sy_turns s)(t \<mapsto> c')\<rparr>) v e" "ch_chat d = ch_chat e" for u v d e
    using that routes_heldD(1) [OF held] c same
    by (auto simp: live_turn_def split: if_splits)
  with own other show ?thesis
    unfolding routes_held_def by (auto split: if_splits)
qed

lemma live_chats_differ:
  assumes held: "routes_held s" and "sy_turns s t = Some c" "ch_phase c \<noteq> Done"
    and "sy_turns s u = Some d" "has_rx d" "u \<noteq> t"
  shows "ch_chat c \<noteq> ch_chat d"
  using routes_heldD(1) [OF held, of t c u d] assms by (auto simp: live_turn_def has_rx_def)

lemma turn_routed_unheld: "\<not> has_rx c \<Longrightarrow> turn_routed h c"
  by (simp add: turn_routed_def)

lemma chat_step_held:
  assumes held: "routes_held s" and c: "sy_turns s t = Some c"
    and step: "chat_step dbus stop c (sy_hub s) es c' h'"
  shows "routes_held (s\<lparr>sy_hub := h', sy_turns := (sy_turns s)(t \<mapsto> c')\<rparr>)"
  using step
proof (cases rule: chat_step_phase_cases)
  case opened
  have "turn_routed h' d" if "sy_turns s u = Some d" "u \<noteq> t" for u d
    using live_chats_differ [OF held c _ that(1) _ that(2)] routes_heldD(2) [OF held that(1)] opened
    by (cases "has_rx d") (auto simp: turn_routed_unheld intro: turn_routed_other(1))
  moreover have "turn_routed h' c'" by (simp add: opened turn_routed_def)
  ultimately show ?thesis by (intro routes_held_turn [OF held c]) (auto simp: opened)
next
  case pushed
  with routes_heldD(2) [OF held c] chat_step_same [OF step] show ?thesis
    by (intro routes_held_turn [OF held c])
      (auto simp: turn_routed_def has_rx_def routes_heldD(2) [OF held, unfolded turn_routed_def])
next
  case (took f)
  with routes_heldD(2) [OF held c] chat_step_same [OF step] frame_arm_phase show ?thesis
    by (intro routes_held_turn [OF held c])
      (auto simp: turn_routed_def has_rx_def routes_heldD(2) [OF held, unfolded turn_routed_def])
next
  case lost
  with routes_heldD(2) [OF held c] show ?thesis
    by (intro routes_held_turn [OF held c])
      (auto simp: turn_routed_def has_rx_def routes_heldD(2) [OF held, unfolded turn_routed_def])
next
  case stopped
  with routes_heldD(2) [OF held c] show ?thesis
    by (intro routes_held_turn [OF held c])
      (auto simp: turn_routed_def has_rx_def routes_heldD(2) [OF held, unfolded turn_routed_def])
next
  case left
  have "turn_routed h' d" if "sy_turns s u = Some d" "u \<noteq> t" for u d
    using live_chats_differ [OF held c _ that(1) _ that(2)] routes_heldD(2) [OF held that(1)] left
    by (cases "has_rx d") (auto simp: turn_routed_unheld intro!: turn_routed_other(2,6))
  moreover have "turn_routed h' c'" by (simp add: left turn_routed_def has_rx_def)
  ultimately show ?thesis using left by (intro routes_held_turn [OF held c]) auto
qed

lemma turn_routed_socket_text: "turn_routed h c \<Longrightarrow> turn_routed (socket_text parse line h) c"
  by (simp add: turn_routed_def)

lemma sys_step_held:
  "sys_step parse dbus s e s' \<Longrightarrow> distinct_chats s e \<Longrightarrow> routes_held s \<Longrightarrow> routes_held s'"
proof (induction rule: sys_step.induct)
  case (sys_spawn s t c now rand rid session_id message)
  have "\<not> has_rx c" by (simp add: sys_spawn.hyps(2) has_rx_def)
  with sys_spawn.hyps(1) sys_spawn.prems show ?case
    unfolding routes_held_def live_turn_def distinct_chats_def
    by (simp add: turn_routed_unheld) metis
next
  case (sys_turn s t c es c' h')
  then show ?case using chat_step_held by blast
next
  case (sys_cancel s t c)
  then show ?case by (simp add: routes_held_def live_turn_def)
next
  case (sys_connect s a h')
  then have "h' = snd (socket_open (sy_hub s))" by simp
  then show ?case
    by (intro routes_held_hub_only [OF sys_connect.prems(2), of h']) (simp_all add: turn_routed_other(7))
next
  case (sys_text a s line)
  then show ?case
    by (intro routes_held_hub_only [OF sys_text.prems(2), of "socket_text parse line (sy_hub s)"])
      (simp_all add: turn_routed_socket_text)
next
  case (sys_disconnect a s)
  then show ?case
    by (intro routes_held_hub_only [OF sys_disconnect.prems(2), of "socket_close a (sy_hub s)"])
      (simp_all add: turn_routed_other(8))
next
  case (sys_write accepted a s h' j)
  then have "h' = fst (writer_round accepted a (sy_hub s))" by simp
  then show ?case
    by (intro routes_held_hub_only [OF sys_write.prems(2), of h']) (simp_all add: turn_routed_other(9))
qed

lemma sys_trace_held: "sys_trace distinct_chats parse dbus tr s \<Longrightarrow> routes_held s"
proof (induction rule: sys_trace.induct)
  case sys_init
  show ?case by (simp add: routes_held_def sys_start_def live_turn_def)
next
  case (sys_next tr s e s')
  then show ?case using sys_step_held by blast
qed

text \<open>A turn never finds its channel closed: its one sender is still in the map.\<close>

lemma held_open:
  assumes "sys_inv s" and "routes_held s" and "sy_turns s t = Some c" and "has_rx c"
  shows "tx_count (from_chans (sy_hub s) (ch_rx c)) = 1"
  using hub_invD(1) [OF sys_invD(1) [OF assms(1)]] routes_heldD(2) [OF assms(2,3)] assms(4)
  by (auto simp: turn_routed_def route_ok_def)

section \<open>A run with one chat\<close>

text \<open>
  A chat under the id \<open>c\<close> on a connected adapter that sends one draft and the final reply: the frames'
  texts and their values, and the run.
\<close>

definition demo_parse :: "string \<Rightarrow> json option" where
  "demo_parse l =
     (if l = ''d'' then
        Some (JObj [(''type'', JStr ''draft''), (''chat_id'', JStr ''c''), (''text'', JStr ''He'')])
      else if l = ''s'' then
        Some (JObj [(''type'', JStr ''send''), (''chat_id'', JStr ''c''), (''text'', JStr ''Hello'')])
      else if l = ''q'' then Some (client_to_json (Chat ''r'' (Some ''c'') ''hi''))
      else if l = ''x'' then Some (client_to_json (Cancel ''r''))
      else if l = ''{d}'' then Some (daemon_to_json (daemon_message.Draft ''r'' ''He''))
      else if l = ''{c}'' then Some (daemon_to_json (ChatComplete ''r'' ''Hello''))
      else None)"

lemma demo_frames:
  "Option.bind (demo_parse ''d'') from_adapter_of_json = Some (from_adapter.Draft ''c'' ''He'')"
  "Option.bind (demo_parse ''s'') from_adapter_of_json = Some (Send ''c'' ''Hello'')"
  by (simp_all add: demo_parse_def from_adapter_of_json_def from_adapter_fields_def
      from_adapter_variant_def tagged_def tag_key_def struct_fields_def req_field_def)

definition demo_chat :: chat where
  "demo_chat = handle_chat None (\<lambda>_. 0) ''r'' (Some ''c'') ''hi''"

definition demo_events :: "event list" where
  "demo_events =
     [Spawned 0 demo_chat, Connected 0, Stepped 0 Opening [], Stepped 0 Sending [], TextIn 0 ''d'',
      Stepped 0 Looping [ToConn (daemon_message.Draft ''r'' ''He'')], TextIn 0 ''s'',
      Stepped 0 Looping [ToConn (ChatComplete ''r'' ''Hello'')]]"

lemma demo_chat_fields [simp]:
  "ch_phase demo_chat = Opening" "ch_chat demo_chat = ''c''" "ch_request demo_chat = ''r''"
  "ch_message demo_chat = ''hi''" "ch_notify demo_chat = False"
  by (simp_all add: demo_chat_def)

text \<open>The hub after each of the run's steps.\<close>

definition demo_connected :: hub where
  "demo_connected = snd (socket_open hub_new)"

definition demo_opened :: hub where
  "demo_opened = snd (open_chat ''c'' demo_connected)"

definition demo_sent :: hub where
  "demo_sent = fst (send_inbound ''c'' ''hi'' ''r'' demo_opened)"

definition demo_drafted :: hub where
  "demo_drafted = fst (recv_frame 0 (socket_text demo_parse ''d'' demo_sent))"

definition demo_replied :: hub where
  "demo_replied = fst (recv_frame 0 (socket_text demo_parse ''s'' demo_drafted))"

lemma demo_hub_new [simp]:
  "adapter hub_new = None" "routes hub_new = Map.empty" "next_to hub_new = 0" "next_from hub_new = 0"
  "to_chans hub_new c = chan_dead" "from_chans hub_new c = chan_dead"
  by (simp_all add: hub_new_def)

lemma demo_sent_facts:
  "snd (send_inbound ''c'' ''hi'' ''r'' demo_opened)"
  "routes demo_sent = [''c'' \<mapsto> 0]" "queue (from_chans demo_sent 0) = []"
  "rx_live (from_chans demo_sent 0)" "tx_count (from_chans demo_sent 0) = 1"
  by (simp_all add: demo_sent_def demo_opened_def demo_connected_def send_inbound_def Let_def case_prod_beta)

lemma demo_text_facts:
  "queue (from_chans (socket_text demo_parse ''d'' demo_sent) 0) = [from_adapter.Draft ''c'' ''He'']"
  "rx_live (from_chans (socket_text demo_parse ''d'' demo_sent) 0)"
  by (simp_all add: socket_text_def demo_frames demo_sent_facts)

lemma demo_drafted_facts:
  "routes demo_drafted = [''c'' \<mapsto> 0]" "queue (from_chans demo_drafted 0) = []"
  "rx_live (from_chans demo_drafted 0)"
  by (simp_all add: demo_drafted_def demo_text_facts demo_sent_facts)

lemma demo_reply_facts:
  "queue (from_chans (socket_text demo_parse ''s'' demo_drafted) 0) = [Send ''c'' ''Hello'']"
  by (simp add: socket_text_def demo_frames demo_drafted_facts)

lemma demo_chat_steps:
  "chat_step dbus stop demo_chat demo_connected []
     (demo_chat\<lparr>ch_rx := 0, ch_phase := Sending\<rparr>) demo_opened"
  "chat_step dbus stop (demo_chat\<lparr>ch_rx := 0, ch_phase := Sending\<rparr>) demo_opened []
     (demo_chat\<lparr>ch_rx := 0, ch_phase := Looping\<rparr>) demo_sent"
  "chat_step dbus stop (demo_chat\<lparr>ch_rx := 0, ch_phase := Looping\<rparr>)
     (socket_text demo_parse ''d'' demo_sent) [ToConn (daemon_message.Draft ''r'' ''He'')]
     (demo_chat\<lparr>ch_rx := 0, ch_phase := Looping\<rparr>) demo_drafted"
  "chat_step dbus stop (demo_chat\<lparr>ch_rx := 0, ch_phase := Looping\<rparr>)
     (socket_text demo_parse ''s'' demo_drafted) [ToConn (ChatComplete ''r'' ''Hello'')]
     (demo_chat\<lparr>ch_rx := 0, ch_phase := Closing\<rparr>) demo_replied"
proof -
  show "chat_step dbus stop demo_chat demo_connected []
     (demo_chat\<lparr>ch_rx := 0, ch_phase := Sending\<rparr>) demo_opened"
    by (rule chat_step.step_open) (simp_all add: chat_open_def demo_opened_def demo_connected_def Let_def case_prod_beta)
  show "chat_step dbus stop (demo_chat\<lparr>ch_rx := 0, ch_phase := Sending\<rparr>) demo_opened []
     (demo_chat\<lparr>ch_rx := 0, ch_phase := Looping\<rparr>) demo_sent"
    using demo_sent_facts(1)
    by (intro chat_step.step_push) (simp_all add: chat_push_def demo_sent_def Let_def case_prod_beta)
  show "chat_step dbus stop (demo_chat\<lparr>ch_rx := 0, ch_phase := Looping\<rparr>)
     (socket_text demo_parse ''d'' demo_sent) [ToConn (daemon_message.Draft ''r'' ''He'')]
     (demo_chat\<lparr>ch_rx := 0, ch_phase := Looping\<rparr>) demo_drafted"
    by (rule chat_step.step_frame)
      (simp_all add: chat_frame_def frame_arm_def recv_frame_def chan_recv_def demo_drafted_def
        demo_text_facts Let_def case_prod_beta)
  show "chat_step dbus stop (demo_chat\<lparr>ch_rx := 0, ch_phase := Looping\<rparr>)
     (socket_text demo_parse ''s'' demo_drafted) [ToConn (ChatComplete ''r'' ''Hello'')]
     (demo_chat\<lparr>ch_rx := 0, ch_phase := Closing\<rparr>) demo_replied"
    by (rule chat_step.step_frame)
      (simp_all add: chat_frame_def frame_arm_def recv_frame_def chan_recv_def demo_replied_def
        demo_reply_facts Let_def case_prod_beta)
qed

definition demo_state :: "hub \<Rightarrow> chat \<Rightarrow> sys" where
  "demo_state h c =
     \<lparr>sy_hub = h, sy_turns = [0 \<mapsto> c], sy_cancelled = {}, sy_sockets = {0}\<rparr>"

lemma demo_turn:
  "chat_step dbus False c h es c' h' \<Longrightarrow>
     sys_step parse dbus (demo_state h c) (Stepped 0 (ch_phase c) es) (demo_state h' c')"
  using sys_turn [of "demo_state h c" 0 c dbus es c' h'] by (simp add: demo_state_def)

lemma demo_text:
  "sys_step parse dbus (demo_state h c) (TextIn 0 l) (demo_state (socket_text parse l h) c)"
  using sys_text [of 0 "demo_state h c" parse dbus l] by (simp add: demo_state_def)

lemma demo_start:
  "sys_trace distinct_chats parse dbus [Spawned 0 demo_chat, Connected 0]
     (demo_state demo_connected demo_chat)"
proof -
  let ?s1 = "sys_start hub_new\<lparr>sy_turns := [0 \<mapsto> demo_chat]\<rparr>"
  have 1: "sys_step parse dbus (sys_start hub_new) (Spawned 0 demo_chat) ?s1"
    using sys_spawn [of "sys_start hub_new" 0 demo_chat None "\<lambda>_. 0" "''r''" "Some ''c''" "''hi''"]
    by (simp add: demo_chat_def sys_start_def)
  have 2: "sys_step parse dbus ?s1 (Connected 0) (demo_state demo_connected demo_chat)"
    using sys_connect [of ?s1 0 "snd (socket_open hub_new)" parse dbus]
    by (simp add: sys_start_def demo_state_def demo_opened_def demo_connected_def prod_eq_iff)
  have "sys_trace distinct_chats parse dbus (([] @ [Spawned 0 demo_chat]) @ [Connected 0])
      (demo_state demo_connected demo_chat)"
    by (rule sys_next [OF sys_next [OF sys_init 1] 2])
      (simp_all add: distinct_chats_def live_turn_def sys_start_def)
  then show ?thesis by simp
qed

lemma demo_run:
  "\<exists>s. sys_trace distinct_chats demo_parse dbus demo_events s
     \<and> sy_turns s 0 = Some (demo_chat\<lparr>ch_rx := 0, ch_phase := Closing\<rparr>)"
proof -
  let ?c = "\<lambda>p. demo_chat\<lparr>ch_rx := 0, ch_phase := p\<rparr>"
  let ?tr = "[Spawned 0 demo_chat, Connected 0]"
  note steps = demo_chat_steps [where stop = False and dbus = dbus, THEN demo_turn, simplified]
  have "sys_trace distinct_chats demo_parse dbus
      ((((((?tr @ [Stepped 0 Opening []]) @ [Stepped 0 Sending []]) @ [TextIn 0 ''d''])
         @ [Stepped 0 Looping [ToConn (daemon_message.Draft ''r'' ''He'')]]) @ [TextIn 0 ''s''])
         @ [Stepped 0 Looping [ToConn (ChatComplete ''r'' ''Hello'')]]) (demo_state demo_replied (?c Closing))"
    by (rule sys_next [OF sys_next [OF sys_next [OF sys_next [OF sys_next [OF sys_next [OF demo_start
        steps(1)] steps(2)] demo_text] steps(3)] demo_text] steps(4)]) (simp_all add: distinct_chats_def)
  then show ?thesis by (auto simp: demo_events_def demo_state_def)
qed

section \<open>The running bridge's guarantees\<close>

text \<open>
  C6: in every run, however turns, cancels, adapters and frames interleave and whatever ids the clients
  choose, a route belongs to a running turn of its chat id that holds the other end, its channel has
  one sender and holds only frames of that id. So no route outlives its turn: when no turn runs, the
  hub's table is empty.
\<close>

theorem routes_owned_by_turns:
  assumes "sys_trace any_client parse dbus tr s"
  shows "(\<forall>k ch. routes (sy_hub s) k = Some ch \<longrightarrow>
      (\<exists>t c. live_turn s t c \<and> ch_chat c = k \<and> ch_rx c = ch)
      \<and> tx_count (from_chans (sy_hub s) ch) = 1 \<and> rx_live (from_chans (sy_hub s) ch)
      \<and> (\<forall>f \<in> set (queue (from_chans (sy_hub s) ch)). chat_id f = k))
    \<and> ((\<forall>t c. \<not> live_turn s t c) \<longrightarrow> routes (sy_hub s) = Map.empty)"
proof -
  note inv = sys_trace_inv [OF assms]
  have owned: "\<exists>t c. live_turn s t c \<and> ch_chat c = k \<and> ch_rx c = ch"
    if "routes (sy_hub s) k = Some ch" for k ch
    using sys_invD(4) [OF inv that] by (auto simp: live_turn_def has_rx_def)
  moreover have "tx_count (from_chans (sy_hub s) ch) = 1 \<and> rx_live (from_chans (sy_hub s) ch)
      \<and> (\<forall>f \<in> set (queue (from_chans (sy_hub s) ch)). chat_id f = k)"
    if "routes (sy_hub s) k = Some ch" for k ch
    using hub_invD(1) [OF sys_invD(1) [OF inv] that] by (simp add: route_ok_def)
  moreover have "routes (sy_hub s) = Map.empty" if "\<forall>t c. \<not> live_turn s t c"
  proof
    fix k
    from owned [of k] that show "routes (sy_hub s) k = None" by (cases "routes (sy_hub s) k") blast+
  qed
  ultimately show ?thesis by blast
qed

theorem routes_owned_by_turns_witness:
  "\<exists>s. sys_trace any_client demo_parse True demo_events s
     \<and> (\<forall>k ch. routes (sy_hub s) k = Some ch \<longrightarrow> (\<exists>t c. live_turn s t c \<and> ch_chat c = k \<and> ch_rx c = ch))"
proof -
  obtain s where tr: "sys_trace any_client demo_parse True demo_events s"
    using demo_run [of True] any_client_trace by blast
  from routes_owned_by_turns [OF tr] tr show ?thesis by blast
qed

text \<open>
  C33: a second chat under the id of a running one breaks both. Opening it closes the first one's
  channel, which then ends with \<open>desktop platform disconnected\<close> although the adapter is there; and in
  ending, the first one removes the second one's route and thereby closes its channel too.
\<close>

theorem shared_chat_id_ends_both:
  assumes "hub_inv h"
    and first: "ch_phase c = Looping" "routes h (ch_chat c) = Some (ch_rx c)"
      "queue (from_chans h (ch_rx c)) = []"
    and second: "ch_chat d = ch_chat c" "chat_open d h = (d', h')"
  shows "chat_frame dbus c h' =
      Some ([send_error (ch_request c) ''desktop platform disconnected''],
            c\<lparr>ch_phase := Closing\<rparr>, h')
    \<and> routes (snd (chat_finish (c\<lparr>ch_phase := Closing\<rparr>) h')) (ch_chat d) = None
    \<and> tx_count (from_chans (snd (chat_finish (c\<lparr>ch_phase := Closing\<rparr>) h')) (ch_rx d')) = 0"
proof -
  have ne: "ch_rx c \<noteq> next_from h"
    using hub_inv_fresh [OF assms(1), of "ch_chat c"] first(2) by auto
  have one: "tx_count (from_chans h (ch_rx c)) = 1"
    using hub_invD(1) [OF assms(1) first(2)] by (simp add: route_ok_def)
  from second have h': "h' = snd (open_chat (ch_chat c) h)" and rx: "ch_rx d' = next_from h"
    by (auto simp: chat_open_def Let_def case_prod_beta)
  have chan: "from_chans h' (ch_rx c) = chan_drop_tx (from_chans h (ch_rx c))"
    using ne first(2) by (simp add: h')
  have recv: "chan_recv (from_chans h' (ch_rx c)) = (from_chans h' (ch_rx c), Closed)"
    using first(3) one by (simp add: chan chan_recv_def)
  have "chat_frame dbus c h' =
      Some ([send_error (ch_request c) ''desktop platform disconnected''],
            c\<lparr>ch_phase := Closing\<rparr>, h')"
    by (simp add: chat_frame_def recv_frame_def recv frame_arm_def)
  moreover have "routes h' (ch_chat c) = Some (next_from h)" by (simp add: h')
  ultimately show ?thesis
    using second(1) ne first(2) by (simp add: chat_finish_def Let_def rx h')
qed

theorem shared_chat_id_ends_both_witness:
  "\<exists>d' h'. chat_open (demo_chat\<lparr>ch_request := ''r2''\<rparr>) demo_sent = (d', h')
     \<and> chat_frame True (demo_chat\<lparr>ch_rx := 0, ch_phase := Looping\<rparr>) h' =
         Some ([send_error ''r'' ''desktop platform disconnected''],
               demo_chat\<lparr>ch_rx := 0, ch_phase := Closing\<rparr>, h')"
proof -
  obtain d' h' where o: "chat_open (demo_chat\<lparr>ch_request := ''r2''\<rparr>) demo_sent = (d', h')"
    by (cases "chat_open (demo_chat\<lparr>ch_request := ''r2''\<rparr>) demo_sent")
  have "hub_inv demo_sent"
    by (simp add: demo_sent_def demo_opened_def demo_connected_def hub_inv_intros)
  from shared_chat_id_ends_both [OF this _ _ _ _ o, of "demo_chat\<lparr>ch_rx := 0, ch_phase := Looping\<rparr>" True] o
  show ?thesis by (auto simp: demo_sent_facts)
qed

text \<open>
  C34: the adapter's disconnect does not reach a running turn: its channel keeps its sender in the
  hub's table, so a turn that waits for its next frame keeps waiting until the client cancels it.
\<close>

theorem adapter_loss_leaves_turn_waiting:
  assumes "hub_inv h" and "ch_phase c = Looping" and "routes h (ch_chat c) = Some (ch_rx c)"
    and "queue (from_chans h (ch_rx c)) = []"
  shows "(\<exists>es c' h'. chat_step dbus stop c (socket_close a h) es c' h') \<longleftrightarrow> stop"
  using hub_invD(1) [OF assms(1,3)] assms(2,4)
  by (simp add: chat_progress route_ok_def)

theorem adapter_loss_leaves_turn_waiting_witness:
  "\<not> (\<exists>es c' h'. chat_step True False (demo_chat\<lparr>ch_rx := 0, ch_phase := Looping\<rparr>)
        (socket_close 0 demo_sent) es c' h')"
proof -
  have "hub_inv demo_sent"
    by (simp add: demo_sent_def demo_opened_def demo_connected_def hub_inv_intros)
  from adapter_loss_leaves_turn_waiting [OF this, of "demo_chat\<lparr>ch_rx := 0, ch_phase := Looping\<rparr>" True False 0]
  show ?thesis by (simp add: demo_sent_facts)
qed

text \<open>
  C35: an adapter that reconnects before its old socket has been torn down is forgotten when that happens:
  the daemon then reports the platform offline although the new socket is open and its writer waits.
\<close>

theorem stale_socket_disconnects_new_one:
  assumes "socket_open h = (a, h1)" and "socket_open h1 = (b, h2)"
  shows "is_connected h2 \<and> \<not> is_connected (socket_close a h2)
    \<and> \<not> snd (send_inbound cid body mid (socket_close a h2))
    \<and> rx_live (to_chans (socket_close a h2) b)"
proof -
  from assms have "h1 = snd (socket_open h)" "h2 = snd (socket_open h1)" by simp_all
  moreover have "a = next_to h" "b = next_to h1"
    using assms by (metis fst_conv socket_open_simps(1))+
  ultimately show ?thesis by (simp add: is_connected_def send_inbound_def)
qed

theorem stale_socket_disconnects_new_one_witness:
  "\<exists>a h1 b h2. socket_open hub_new = (a, h1) \<and> socket_open h1 = (b, h2)
     \<and> \<not> is_connected (socket_close a h2)"
proof -
  obtain a h1 where 1: "socket_open hub_new = (a, h1)" by (cases "socket_open hub_new")
  obtain b h2 where 2: "socket_open h1 = (b, h2)" by (cases "socket_open h1")
  from stale_socket_disconnects_new_one [OF 1 2] 1 2 show ?thesis by blast
qed

end
