(* ===== verification/Bridge_Relay.thy ===== *)
theory Bridge_Relay
  imports Bridge_System
begin

text \<open>
  What a chat's client hears, as a function of what the adapter sent: along any run in which no two
  running chats share an id, the turn relays the frames of its own chat since it opened, in order, and
  ends at the first final reply, at a cancel, or because the adapter was offline.
\<close>

section \<open>Observations on a run\<close>

definition frame_of :: "(string \<Rightarrow> json option) \<Rightarrow> string \<Rightarrow> from_adapter option" where
  "frame_of parse line = Option.bind (parse line) from_adapter_of_json"

text \<open>The frames the adapter's sockets delivered since turn \<open>t\<close> opened its chat.\<close>

definition since_event ::
    "(string \<Rightarrow> json option) \<Rightarrow> nat \<Rightarrow> event \<Rightarrow> from_adapter list option \<Rightarrow> from_adapter list option"
  where
  "since_event parse t e fs =
     (case e of
        Stepped u p es \<Rightarrow> if u = t \<and> p = Opening then Some [] else fs
      | TextIn a line \<Rightarrow>
          (case frame_of parse line of
             Some f \<Rightarrow> map_option (\<lambda>l. l @ [f]) fs
           | None \<Rightarrow> fs)
      | _ \<Rightarrow> fs)"

definition frames_since ::
    "(string \<Rightarrow> json option) \<Rightarrow> nat \<Rightarrow> event list \<Rightarrow> from_adapter list option" where
  "frames_since parse t tr = fold (since_event parse t) tr None"

definition event_said :: "nat \<Rightarrow> event \<Rightarrow> daemon_message list" where
  "event_said t e =
     (case e of Stepped u p es \<Rightarrow> if u = t then said es else [] | _ \<Rightarrow> [])"

definition said_by :: "nat \<Rightarrow> event list \<Rightarrow> daemon_message list" where
  "said_by t tr = concat (map (event_said t) tr)"

lemma observe_simps [simp]:
  "frames_since parse t [] = None"
  "frames_since parse t (tr @ [e]) = since_event parse t e (frames_since parse t tr)"
  "said_by t [] = []"
  "said_by t (tr @ [e]) = said_by t tr @ event_said t e"
  by (simp_all add: frames_since_def said_by_def)

section \<open>The relay\<close>

fun draft_text :: "from_adapter \<Rightarrow> string option" where
  "draft_text (from_adapter.Draft _ text) = Some text"
| "draft_text _ = None"

fun is_send :: "from_adapter \<Rightarrow> bool" where
  "is_send (Send _ _) = True"
| "is_send _ = False"

definition drafts :: "string \<Rightarrow> from_adapter list \<Rightarrow> daemon_message list" where
  "drafts rid fs = map (daemon_message.Draft rid) (List.map_filter draft_text fs)"

lemma drafts_simps [simp]:
  "drafts rid [] = []"
  "drafts rid (fs @ [f]) =
     drafts rid fs @ (case draft_text f of None \<Rightarrow> [] | Some s \<Rightarrow> [daemon_message.Draft rid s])"
  by (simp_all add: drafts_def List.map_filter_def split: option.splits)

text \<open>
  \<open>relayed rid fin fs out\<close>: \<open>out\<close> is a correct relay of the chat's frames \<open>fs\<close>, finished or not.
\<close>

definition relayed ::
    "string \<Rightarrow> bool \<Rightarrow> from_adapter list \<Rightarrow> daemon_message list \<Rightarrow> bool" where
  "relayed rid fin fs out =
     (\<exists>taken rest. fs = taken @ rest \<and> \<not> list_ex is_send taken
        \<and> (if fin
           then (\<exists>cid text rest'. rest = Send cid text # rest'
                   \<and> out = drafts rid taken @ [ChatComplete rid text])
             \<or> out = drafts rid taken @ [Error (Some rid) ''cancelled'']
             \<or> out = [Error (Some rid) ''desktop platform offline'']
           else out = drafts rid taken))"

lemma relayed_more:
  assumes "relayed rid fin fs out"
  shows "relayed rid fin (fs @ gs) out"
proof -
  from assms obtain taken rest where *: "fs = taken @ rest" "\<not> list_ex is_send taken"
    and out: "if fin
           then (\<exists>cid text rest'. rest = Send cid text # rest'
                   \<and> out = drafts rid taken @ [ChatComplete rid text])
             \<or> out = drafts rid taken @ [Error (Some rid) ''cancelled'']
             \<or> out = [Error (Some rid) ''desktop platform offline'']
           else out = drafts rid taken"
    unfolding relayed_def by blast
  show ?thesis
    unfolding relayed_def
    by (rule exI [of _ taken], rule exI [of _ "rest @ gs"]) (use * out in \<open>auto split: if_splits\<close>)
qed

definition own_frames :: "chat \<Rightarrow> from_adapter list \<Rightarrow> from_adapter list" where
  "own_frames c l = filter (\<lambda>f. chat_id f = ch_chat c) l"

text \<open>The state of a turn against what it has been sent and what it has said.\<close>

definition relay_inv ::
    "hub \<Rightarrow> chat \<Rightarrow> from_adapter list option \<Rightarrow> daemon_message list \<Rightarrow> bool" where
  "relay_inv h c since out =
     (case since of
        None \<Rightarrow> ch_phase c = Opening \<and> out = []
      | Some l \<Rightarrow>
          ch_phase c \<noteq> Opening
          \<and> (ch_phase c \<in> {Sending, Rejecting} \<longrightarrow> out = [])
          \<and> (ch_phase c = Looping \<longrightarrow>
              (\<exists>taken. own_frames c l = taken @ queue (from_chans h (ch_rx c))
                 \<and> \<not> list_ex is_send taken \<and> out = drafts (ch_request c) taken))
          \<and> (ch_phase c = Sending \<longrightarrow> own_frames c l = queue (from_chans h (ch_rx c)))
          \<and> relayed (ch_request c) (ended (ch_phase c)) (own_frames c l) out)"

lemma relay_inv_frame:
  assumes "relay_inv h c since out"
    and "has_rx c \<Longrightarrow> queue (from_chans h' (ch_rx c)) = queue (from_chans h (ch_rx c))"
  shows "relay_inv h' c since out"
  using assms by (auto simp: relay_inv_def has_rx_def split: option.splits)

lemma not_ended_has_rx: "ch_phase c \<in> {Sending, Rejecting, Looping} \<Longrightarrow> has_rx c"
  by (auto simp: has_rx_def)

text \<open>A frame of the socket.\<close>

lemma queue_socket_text:
  assumes "turn_ok h c" and "turn_routed h c" and "has_rx c"
  shows "queue (from_chans (socket_text parse line h) (ch_rx c)) =
    queue (from_chans h (ch_rx c)) @ own_frames c (case frame_of parse line of None \<Rightarrow> [] | Some f \<Rightarrow> [f])"
proof -
  have "routes h k = Some (ch_rx c) \<longleftrightarrow> k = ch_chat c" for k
    using assms unfolding turn_ok_def turn_routed_def by blast
  moreover have "rx_live (from_chans h (ch_rx c))"
    using assms by (simp add: turn_ok_def)
  ultimately show ?thesis
    by (simp add: socket_text_def frame_of_def own_frames_def split: option.split)
qed

lemma relay_inv_text:
  assumes rel: "relay_inv h c since out" and ok: "turn_ok h c" "turn_routed h c"
  shows "relay_inv (socket_text parse line h) c (since_event parse t (TextIn a line) since) out"
proof (cases since)
  case None
  with rel show ?thesis
    by (auto simp: relay_inv_def since_event_def split: option.splits)
next
  case (Some l)
  define new where "new = (case frame_of parse line of None \<Rightarrow> [] | Some f \<Rightarrow> [f])"
  have ev: "since_event parse t (TextIn a line) since = Some (l @ new)"
    by (simp add: since_event_def new_def Some split: option.splits)
  have q: "has_rx c \<Longrightarrow> queue (from_chans (socket_text parse line h) (ch_rx c)) =
      queue (from_chans h (ch_rx c)) @ own_frames c new"
    using queue_socket_text [OF ok] by (simp add: new_def)
  have app: "own_frames c (l @ new) = own_frames c l @ own_frames c new"
    by (simp add: own_frames_def)
  from rel have ne: "ch_phase c \<noteq> Opening" and say: "ch_phase c \<in> {Sending, Rejecting} \<longrightarrow> out = []"
    and loop: "ch_phase c = Looping \<longrightarrow> (\<exists>taken. own_frames c l = taken @ queue (from_chans h (ch_rx c))
                 \<and> \<not> list_ex is_send taken \<and> out = drafts (ch_request c) taken)"
    and send: "ch_phase c = Sending \<longrightarrow> own_frames c l = queue (from_chans h (ch_rx c))"
    and rl: "relayed (ch_request c) (ended (ch_phase c)) (own_frames c l) out"
    by (simp_all add: relay_inv_def Some)
  have "\<exists>taken. own_frames c (l @ new) = taken @ queue (from_chans (socket_text parse line h) (ch_rx c))
      \<and> \<not> list_ex is_send taken \<and> out = drafts (ch_request c) taken" if "ch_phase c = Looping"
    using loop that q by (auto simp: app has_rx_def)
  moreover have "own_frames c (l @ new) = queue (from_chans (socket_text parse line h) (ch_rx c))"
    if "ch_phase c = Sending"
    using send that q by (simp add: app has_rx_def)
  moreover have "relayed (ch_request c) (ended (ch_phase c)) (own_frames c (l @ new)) out"
    unfolding app by (rule relayed_more [OF rl])
  ultimately show ?thesis
    using ne say unfolding ev relay_inv_def by simp
qed

text \<open>The turn's own step.\<close>

lemma relay_inv_took:
  assumes "relay_inv h c (Some l) out" and ph: "ch_phase c = Looping"
    and q: "queue (from_chans h (ch_rx c)) = f # tl (queue (from_chans h (ch_rx c)))"
    and h': "h' = fst (recv_frame (ch_rx c) h)"
    and arm: "frame_arm dbus c (Item f) = Some (es, c')"
  shows "relay_inv h' c' (Some l) (out @ said es)"
proof -
  obtain rest where rest: "queue (from_chans h (ch_rx c)) = f # rest"
    using q by metis
  from assms(1) ph rest obtain taken where split: "own_frames c l = taken @ f # rest"
    and taken: "\<not> list_ex is_send taken" and out: "out = drafts (ch_request c) taken"
    by (auto simp: relay_inv_def)
  have own: "own_frames c' = own_frames c" and same: "ch_request c' = ch_request c"
    "ch_rx c' = ch_rx c"
    using arm by (auto simp: frame_arm_def own_frames_def fun_eq_iff split: from_adapter.splits)
  have q': "queue (from_chans h' (ch_rx c)) = rest"
    by (simp add: h' rest)
  show ?thesis
  proof (cases "is_send f")
    case True
    then obtain cid body where f: "f = Send cid body" by (cases f) auto
    with arm have "said es = [ChatComplete (ch_request c) body]" and "ch_phase c' = Closing"
      by (auto simp: frame_arm_def split: if_splits)
    with split taken out f own same show ?thesis
      by (auto simp: relay_inv_def relayed_def ended_def)
  next
    case False
    with arm ph have ph': "ch_phase c' = Looping"
      and es: "said es = (case draft_text f of None \<Rightarrow> [] | Some s \<Rightarrow> [daemon_message.Draft (ch_request c) s])"
      by (auto simp: frame_arm_def split: from_adapter.splits)
    define taken' where "taken' = taken @ [f]"
    have *: "own_frames c l = taken' @ rest" "\<not> list_ex is_send taken'"
      and "out @ said es = drafts (ch_request c) taken'"
      using split taken out False es by (simp_all add: taken'_def)
    then have "relayed (ch_request c) False (own_frames c l) (out @ said es)"
      unfolding relayed_def by auto
    with * \<open>out @ said es = _\<close> show ?thesis
      using ph' own same q' by (auto simp: relay_inv_def ended_def)
  qed
qed

lemma relay_inv_step:
  assumes rel: "relay_inv h c since out"
    and step: "chat_step dbus stop c h es c' h'"
    and open_rx: "has_rx c \<Longrightarrow> tx_count (from_chans h (ch_rx c)) = 1"
  shows "relay_inv h' c' (since_event parse t (Stepped t (ch_phase c) es) since) (out @ said es)"
  using step
proof (cases rule: chat_step_phase_cases)
  case opened
  with rel show ?thesis
    by (auto simp: relay_inv_def since_event_def own_frames_def relayed_def ended_def
        split: option.splits)
next
  case pushed
  have "own_frames c' = own_frames c" and "ch_request c' = ch_request c"
    using chat_step_same [OF step] by (simp_all add: own_frames_def fun_eq_iff)
  with pushed rel show ?thesis
    by (auto simp: relay_inv_def since_event_def ended_def split: option.splits)
next
  case (took f)
  with rel obtain l where "since = Some l" by (auto simp: relay_inv_def split: option.splits)
  with relay_inv_took [of h c l out f h' dbus es c'] took rel show ?thesis
    by (simp add: since_event_def)
next
  case lost
  with open_rx show ?thesis by (simp add: has_rx_def)
next
  case stopped
  with rel obtain l taken where "since = Some l"
    and "own_frames c l = taken @ queue (from_chans h (ch_rx c))"
    and "\<not> list_ex is_send taken" and "out = drafts (ch_request c) taken"
    by (auto simp: relay_inv_def split: option.splits)
  with stopped show ?thesis
    by (auto simp: relay_inv_def since_event_def send_error_def own_frames_def relayed_def ended_def)
next
  case left
  from left(1) rel obtain l where l: "since = Some l"
    by (auto simp: relay_inv_def split: option.splits)
  have own: "own_frames c' = own_frames c"
    by (simp add: left own_frames_def fun_eq_iff)
  show ?thesis
  proof (cases "ch_phase c = Closing")
    case True
    with rel own show ?thesis
      by (simp add: relay_inv_def since_event_def left l ended_def)
  next
    case False
    with left have "ch_phase c = Rejecting" by simp
    with rel own show ?thesis
      by (simp add: relay_inv_def since_event_def send_error_def left l ended_def)
        (force simp: relayed_def)
  qed
qed

section \<open>Along a run\<close>

definition sys_relay :: "(string \<Rightarrow> json option) \<Rightarrow> event list \<Rightarrow> sys \<Rightarrow> bool" where
  "sys_relay parse tr s =
     (\<forall>t. case sy_turns s t of
            None \<Rightarrow> frames_since parse t tr = None \<and> said_by t tr = []
          | Some c \<Rightarrow> relay_inv (sy_hub s) c (frames_since parse t tr) (said_by t tr))"

lemma sys_relayD:
  assumes "sys_relay parse tr s"
  shows "sy_turns s t = Some c \<Longrightarrow> relay_inv (sy_hub s) c (frames_since parse t tr) (said_by t tr)"
    and "sy_turns s t = None \<Longrightarrow> frames_since parse t tr = None \<and> said_by t tr = []"
proof -
  from assms have *: "case sy_turns s t of
            None \<Rightarrow> frames_since parse t tr = None \<and> said_by t tr = []
          | Some c \<Rightarrow> relay_inv (sy_hub s) c (frames_since parse t tr) (said_by t tr)"
    unfolding sys_relay_def by blast
  from * show "sy_turns s t = Some c \<Longrightarrow>
      relay_inv (sy_hub s) c (frames_since parse t tr) (said_by t tr)" by simp
  from * show "sy_turns s t = None \<Longrightarrow> frames_since parse t tr = None \<and> said_by t tr = []" by simp
qed

text \<open>A step that is no turn's and no frame's.\<close>

definition quiet :: "event \<Rightarrow> bool" where
  "quiet e = (case e of Stepped _ _ _ \<Rightarrow> False | TextIn _ _ \<Rightarrow> False | _ \<Rightarrow> True)"

lemma quiet_observe [simp]:
  "quiet e \<Longrightarrow> since_event parse t e fs = fs"
  "quiet e \<Longrightarrow> event_said t e = []"
  by (cases e; simp add: quiet_def since_event_def event_said_def)+

lemma sys_relay_quiet:
  assumes "sys_relay parse tr s" and "quiet e" and "sy_turns s' = sy_turns s"
    and "\<And>r. queue (from_chans (sy_hub s') r) = queue (from_chans (sy_hub s) r)"
  shows "sys_relay parse (tr @ [e]) s'"
  unfolding sys_relay_def
proof
  fix t
  show "case sy_turns s' t of
            None \<Rightarrow> frames_since parse t (tr @ [e]) = None \<and> said_by t (tr @ [e]) = []
          | Some c \<Rightarrow> relay_inv (sy_hub s') c (frames_since parse t (tr @ [e])) (said_by t (tr @ [e]))"
    using sys_relayD [OF assms(1), of t] relay_inv_frame [of "sy_hub s" _ _ _ "sy_hub s'"] assms(2-4)
    by (auto split: option.split)
qed

lemma queue_other_turn:
  assumes "chat_step dbus stop c h es c' h'" and "r < next_from h" and "has_rx c \<Longrightarrow> ch_rx c \<noteq> r"
  shows "queue (from_chans h' r) = queue (from_chans h r)"
  using assms(1)
proof (cases rule: chat_step_phase_cases)
  case (took f)
  with assms(2,3) show ?thesis by (simp add: has_rx_def)
next
  case left
  with assms(2,3) show ?thesis by (auto simp: has_rx_def)
qed (use assms(2) in \<open>auto simp: has_rx_def\<close>)

lemma sys_relay_step:
  assumes "sys_step parse dbus s e s'" and rel: "sys_relay parse tr s"
    and inv: "sys_inv s" and held: "routes_held s"
  shows "sys_relay parse (tr @ [e]) s'"
  using assms(1)
proof (cases rule: sys_step.cases)
  case (sys_spawn t c now rand rid session_id message)
  have "relay_inv (sy_hub s) c None []" by (simp add: relay_inv_def sys_spawn)
  with sys_relayD [OF rel] sys_spawn(1-3) show ?thesis
    unfolding sys_relay_def by (auto simp: quiet_def split: option.split)
next
  case (sys_turn t c es c' h')
  have own: "relay_inv h' c' (since_event parse t e (frames_since parse t tr))
      (said_by t tr @ event_said t e)"
    using relay_inv_step [OF sys_relayD(1) [OF rel sys_turn(3)] sys_turn(4)]
      held_open [OF inv held sys_turn(3)]
    by (simp add: sys_turn(1) event_said_def)
  have other: "relay_inv h' d (frames_since parse u tr) (said_by u tr)"
    if "sy_turns s u = Some d" "u \<noteq> t" for u d
  proof (rule relay_inv_frame [OF sys_relayD(1) [OF rel that(1)]])
    assume d: "has_rx d"
    show "queue (from_chans h' (ch_rx d)) = queue (from_chans (sy_hub s) (ch_rx d))"
    proof (rule queue_other_turn [OF sys_turn(4)])
      show "ch_rx d < next_from (sy_hub s)"
        using sys_invD(2) [OF inv that(1)] d by (simp add: turn_ok_def)
      show "ch_rx c \<noteq> ch_rx d" if "has_rx c"
        using sys_invD(3) [OF inv \<open>sy_turns s u = Some d\<close> sys_turn(3) d that] \<open>u \<noteq> t\<close> by auto
    qed
  qed
  have unseen: "since_event parse u e fs = fs" "event_said u e = []" if "u \<noteq> t" for u fs
    using that by (simp_all add: sys_turn(1) since_event_def event_said_def)
  show ?thesis
    unfolding sys_relay_def
  proof
    fix u
    show "case sy_turns s' u of
            None \<Rightarrow> frames_since parse u (tr @ [e]) = None \<and> said_by u (tr @ [e]) = []
          | Some c \<Rightarrow> relay_inv (sy_hub s') c (frames_since parse u (tr @ [e])) (said_by u (tr @ [e]))"
      using own other sys_relayD(2) [OF rel, of u]
      by (cases "u = t") (auto simp: sys_turn(2) unseen split: option.split)
  qed
next
  case (sys_cancel t c)
  then show ?thesis by (intro sys_relay_quiet [OF rel]) (auto simp: quiet_def)
next
  case (sys_connect a h')
  from sys_connect(3) have hub: "h' = snd (socket_open (sy_hub s))" by simp
  show ?thesis
    by (rule sys_relay_quiet [OF rel]) (simp_all add: quiet_def sys_connect(1,2) hub)
next
  case (sys_text a line)
  have "relay_inv (sy_hub s') c (since_event parse t e (frames_since parse t tr)) (said_by t tr)"
    if "sy_turns s t = Some c" for t c
    using relay_inv_text [OF sys_relayD(1) [OF rel that] sys_invD(2) [OF inv that]
      routes_heldD(2) [OF held that]] by (simp add: sys_text)
  moreover have "since_event parse t e None = None" "event_said t e = []" for t
    by (simp_all add: sys_text since_event_def event_said_def split: option.split)
  ultimately show ?thesis
    using sys_relayD(2) [OF rel] by (auto simp: sys_relay_def sys_text(2) split: option.split)
next
  case (sys_disconnect a)
  then show ?thesis by (intro sys_relay_quiet [OF rel]) (auto simp: quiet_def)
next
  case (sys_write accepted a h' j)
  from sys_write(3) have hub: "h' = fst (writer_round accepted a (sy_hub s))" by simp
  show ?thesis
    by (rule sys_relay_quiet [OF rel]) (simp_all add: quiet_def sys_write(1,2) hub)
qed

lemma sys_trace_relay: "sys_trace distinct_chats parse dbus tr s \<Longrightarrow> sys_relay parse tr s"
proof (induction rule: sys_trace.induct)
  case sys_init
  show ?case by (simp add: sys_relay_def sys_start_def)
next
  case (sys_next tr s e s')
  from sys_relay_step [OF sys_next.hyps(2) sys_next.IH sys_trace_inv [OF sys_next.hyps(1)]
    sys_trace_held [OF sys_next.hyps(1)]]
  show ?case .
qed

section \<open>The relay's guarantee\<close>

text \<open>
  C5: in every run in which no two running chats share a chat id, what a chat's client has been told is
  a relay of exactly the frames the adapter sent for that chat since it opened: its drafts in order,
  up to the first final reply, which ends the turn and is told as it came; or an early end because
  the client cancelled or no adapter was connected. Frames of other chats never show, no frame is
  skipped, and the turn is never told that the platform disconnected.
\<close>

theorem turn_relays_own_frames:
  assumes "sys_trace distinct_chats parse dbus tr s" and "sy_turns s t = Some c"
    and "frames_since parse t tr = Some fs"
  shows "relayed (ch_request c) (ended (ch_phase c)) (filter (\<lambda>f. chat_id f = ch_chat c) fs)
    (said_by t tr)"
  using sys_relayD(1) [OF sys_trace_relay [OF assms(1)] assms(2)] assms(3)
  by (simp add: relay_inv_def own_frames_def)

theorem turn_relays_own_frames_witness:
  "relayed ''r'' True [from_adapter.Draft ''c'' ''He'', Send ''c'' ''Hello'']
     [daemon_message.Draft ''r'' ''He'', ChatComplete ''r'' ''Hello'']"
proof -
  obtain s where tr: "sys_trace distinct_chats demo_parse True demo_events s"
    and c: "sy_turns s 0 = Some (demo_chat\<lparr>ch_rx := 0, ch_phase := Closing\<rparr>)"
    using demo_run [of True] by blast
  have fs: "frames_since demo_parse 0 demo_events =
      Some [from_adapter.Draft ''c'' ''He'', Send ''c'' ''Hello'']"
    by (simp add: frames_since_def demo_events_def since_event_def frame_of_def demo_frames)
  have "said_by 0 demo_events = [daemon_message.Draft ''r'' ''He'', ChatComplete ''r'' ''Hello'']"
    by (simp add: said_by_def demo_events_def event_said_def)
  with turn_relays_own_frames [OF tr c fs] show ?thesis by (simp add: ended_def)
qed

end
