(* ===== verification/Bridge_Session.thy ===== *)
theory Bridge_Session
  imports Bridge_Relay
begin

text \<open>
  One adapter connection as a whole: \<open>handle_socket\<close> of \<open>src/bridge.rs\<close> against the steps that
  \<open>Bridge_System\<close> splits it into, and against what it should do to the chats.
\<close>

section \<open>The messages a session reads\<close>

text \<open>The texts before the peer closes or the transport fails; pings and the like are passed over.\<close>

fun session_texts :: "ws_item list \<Rightarrow> string list" where
  "session_texts [] = []"
| "session_texts (WsOk (Text l) # items) = l # session_texts items"
| "session_texts (WsOk Close # items) = []"
| "session_texts (WsOk OtherMessage # items) = session_texts items"
| "session_texts (WsErr # items) = []"

lemma read_loop_texts: "read_loop parse items h = fold (socket_text parse) (session_texts items) h"
  by (induction items arbitrary: h rule: session_texts.induct) simp_all

definition session_events :: "nat \<Rightarrow> string list \<Rightarrow> event list" where
  "session_events a ls = Connected a # map (TextIn a) ls @ [Disconnected a]"

lemma texts_trace:
  assumes "sys_trace any_client parse dbus tr s" and "a \<in> sy_sockets s"
  shows "sys_trace any_client parse dbus (tr @ map (TextIn a) ls)
    (s\<lparr>sy_hub := fold (socket_text parse) ls (sy_hub s)\<rparr>)"
  using assms
proof (induction ls arbitrary: tr s)
  case (Cons l ls)
  let ?s = "s\<lparr>sy_hub := socket_text parse l (sy_hub s)\<rparr>"
  have "sys_trace any_client parse dbus (tr @ [TextIn a l]) ?s"
    by (rule sys_next [OF Cons.prems(1) sys_text [OF Cons.prems(2)]]) (simp add: any_client_def)
  from Cons.IH [OF this] Cons.prems(2) show ?case by simp
qed simp

section \<open>The session's guarantees\<close>

text \<open>
  The steps the bridge system has for an adapter connection are \<open>handle_socket\<close>: made one after the
  other from any state of a run, for the texts the session reads, they leave the hub as the function
  does, and no turn is touched. The system only adds that other tasks may run in between.
\<close>

theorem session_is_its_steps:
  assumes "sys_trace any_client parse dbus tr s"
  shows "\<exists>s'. sys_trace any_client parse dbus
      (tr @ session_events (next_to (sy_hub s)) (session_texts items)) s'
    \<and> sy_hub s' = handle_socket parse items (sy_hub s) \<and> sy_turns s' = sy_turns s
    \<and> sy_cancelled s' = sy_cancelled s"
proof -
  let ?h = "sy_hub s" let ?a = "next_to ?h" let ?ls = "session_texts items"
  let ?s1 = "s\<lparr>sy_hub := snd (socket_open ?h), sy_sockets := insert ?a (sy_sockets s)\<rparr>"
  let ?s2 = "?s1\<lparr>sy_hub := fold (socket_text parse) ?ls (sy_hub ?s1)\<rparr>"
  let ?s3 = "?s2\<lparr>sy_hub := socket_close ?a (sy_hub ?s2), sy_sockets := sy_sockets ?s2 - {?a}\<rparr>"
  have open_pair: "socket_open ?h = (?a, snd (socket_open ?h))" by (simp add: socket_open_def Let_def)
  have 1: "sys_trace any_client parse dbus (tr @ [Connected ?a]) ?s1"
    by (rule sys_next [OF assms sys_connect [OF open_pair]]) (simp add: any_client_def)
  have 2: "sys_trace any_client parse dbus ((tr @ [Connected ?a]) @ map (TextIn ?a) ?ls) ?s2"
    by (rule texts_trace [OF 1]) simp
  have "sys_trace any_client parse dbus (((tr @ [Connected ?a]) @ map (TextIn ?a) ?ls) @ [Disconnected ?a]) ?s3"
    by (rule sys_next [OF 2 sys_disconnect]) (simp_all add: any_client_def)
  moreover have "sy_hub ?s3 = handle_socket parse items ?h"
    by (simp add: handle_socket_def read_loop_texts case_prod_beta Let_def)
  ultimately show ?thesis
    by (intro exI [of _ ?s3]) (simp add: session_events_def)
qed

theorem session_is_its_steps_witness:
  "\<exists>s'. sys_trace any_client demo_parse True
      [Connected 0, TextIn 0 ''d'', Disconnected 0] s'
    \<and> sy_hub s' = handle_socket demo_parse [WsOk OtherMessage, WsOk (Text ''d''), WsErr, WsOk (Text ''s'')] hub_new"
  using session_is_its_steps [OF sys_init [of any_client demo_parse True],
      of "[WsOk OtherMessage, WsOk (Text ''d''), WsErr, WsOk (Text ''s'')]"]
  by (auto simp: session_events_def sys_start_def)

text \<open>What the texts do to one chat's channel.\<close>

lemma texts_deliver:
  assumes "hub_inv h" and "routes h k = Some ch"
  shows "queue (from_chans (fold (socket_text parse) ls h) ch) =
      queue (from_chans h ch) @ filter (\<lambda>f. chat_id f = k) (List.map_filter (frame_of parse) ls)
    \<and> routes (fold (socket_text parse) ls h) = routes h"
  using assms
proof (induction ls arbitrary: h)
  case (Cons l ls)
  let ?h = "socket_text parse l h"
  have inv: "hub_inv ?h" by (rule hub_inv_socket_text [OF Cons.prems(1)])
  have r: "routes ?h = routes h" by (simp add: socket_text_def split: option.split)
  have only: "routes h j = Some ch \<longleftrightarrow> j = k" for j
    using Cons.prems hub_invD(2) by blast
  have "rx_live (from_chans h ch)"
    using hub_invD(1) [OF Cons.prems] by (simp add: route_ok_def)
  then have "queue (from_chans ?h ch) = queue (from_chans h ch)
      @ filter (\<lambda>f. chat_id f = k) (case frame_of parse l of None \<Rightarrow> [] | Some f \<Rightarrow> [f])"
    using only by (simp add: socket_text_def frame_of_def split: option.split)
  with Cons.IH [OF inv] Cons.prems(2) r show ?case
    by (simp add: List.map_filter_simps split: option.split)
qed (simp add: List.map_filter_def)

text \<open>
  C19: what a whole adapter session does: every running chat has been given, after what it had, exactly
  the session's well-formed frames of its own id, in order, and no chat's route is lost by it; after it
  no adapter is connected, so that the next chat is told that the platform is offline.
\<close>

theorem session_delivers_frames:
  assumes "hub_inv h" and "routes h k = Some ch"
  shows "queue (from_chans (handle_socket parse items h) ch) =
      queue (from_chans h ch)
        @ filter (\<lambda>f. chat_id f = k) (List.map_filter (frame_of parse) (session_texts items))
    \<and> routes (handle_socket parse items h) = routes h
    \<and> \<not> is_connected (handle_socket parse items h)
    \<and> \<not> snd (send_inbound k text mid (handle_socket parse items h))"
proof -
  let ?h = "snd (socket_open h)"
  have "hub_inv ?h" and "routes ?h k = Some ch"
    using hub_inv_socket_open [OF assms(1)] assms(2) by simp_all
  from texts_deliver [OF this, of parse "session_texts items"] show ?thesis
    by (simp add: handle_socket_def read_loop_texts case_prod_beta is_connected_def send_inbound_def)
qed

theorem session_delivers_frames_witness:
  "queue (from_chans (handle_socket demo_parse [WsOk (Text ''d''), WsOk Close, WsOk (Text ''s'')]
       (snd (open_chat ''c'' hub_new))) 0) = [from_adapter.Draft ''c'' ''He'']"
proof -
  have "hub_inv (snd (open_chat ''c'' hub_new))"
    by (rule hub_inv_open_chat [OF hub_inv_new])
  from session_delivers_frames [OF this, of "''c''" 0 demo_parse
      "[WsOk (Text ''d''), WsOk Close, WsOk (Text ''s'')]" "[]" "[]"]
  show ?thesis by (simp add: List.map_filter_simps frame_of_def demo_frames chan_new_def)
qed

end
