(* ===== verification/Bridge_Progress.thy ===== *)
theory Bridge_Progress
  imports Bridge_Relay
begin

text \<open>
  A chat turn whose final reply has arrived, in the running bridge: whatever the other turns, the adapter
  and the client do from then on, what the turn still tells and how many steps it still makes are fixed.
\<close>

section \<open>Runs between two states\<close>

inductive sys_run :: "(string \<Rightarrow> json option) \<Rightarrow> bool \<Rightarrow> sys \<Rightarrow> event list \<Rightarrow> sys \<Rightarrow> bool"
  for parse dbus s
where
  run_none: "sys_run parse dbus s [] s"
| run_more: "sys_run parse dbus s es s1 \<Longrightarrow> sys_step parse dbus s1 e s2 \<Longrightarrow> sys_run parse dbus s (es @ [e]) s2"

lemma sys_run_one: "sys_step parse dbus s e s' \<Longrightarrow> sys_run parse dbus s [e] s'"
  using run_more [OF run_none] by fastforce

lemma sys_run_inv: "sys_run parse dbus s es s' \<Longrightarrow> sys_inv s \<Longrightarrow> sys_inv s'"
  by (induction rule: sys_run.induct) (blast intro: sys_step_inv)+

text \<open>The steps turn \<open>t\<close> has made itself.\<close>

fun own_event :: "nat \<Rightarrow> event \<Rightarrow> bool" where
  "own_event t (Stepped u p es) = (u = t)"
| "own_event t e = False"

definition own_steps :: "nat \<Rightarrow> event list \<Rightarrow> nat" where
  "own_steps t es = length (filter (own_event t) es)"

lemma own_steps_simps [simp]:
  "own_steps t [] = 0"
  "own_steps t (es @ fs) = own_steps t es + own_steps t fs"
  "own_steps t [e] = (if own_event t e then 1 else 0)"
  by (simp_all add: own_steps_def)

lemma said_by_append: "said_by t (es @ fs) = said_by t es @ said_by t fs"
  by (simp add: said_by_def)

lemma own_event_said: "\<not> own_event t e \<Longrightarrow> event_said t e = []"
  by (cases e) (simp_all add: event_said_def)

section \<open>A turn whose reply has arrived\<close>

text \<open>
  What the turn of request \<open>rid\<close> has told when it ends: the drafts \<open>pre\<close> before the reply and the reply,
  or, only when it was cancelled, some of the drafts and that.
\<close>

definition told_end :: "nat \<Rightarrow> string \<Rightarrow> from_adapter list \<Rightarrow> string \<Rightarrow> event list \<Rightarrow> sys \<Rightarrow> bool" where
  "told_end t rid pre body es s =
     (said_by t es = drafts rid pre @ [ChatComplete rid body]
      \<or> t \<in> sy_cancelled s
        \<and> (\<exists>p. prefix p pre \<and> said_by t es = drafts rid p @ [Error (Some rid) ''cancelled'']))"

text \<open>
  \<open>finishing t c pre body es s\<close>: turn \<open>t\<close>, which was in the state \<open>c\<close> with \<open>pre\<close> and then the reply \<open>body\<close> in
  its channel, stands like this after the further events \<open>es\<close>.
\<close>

definition finishing ::
    "nat \<Rightarrow> chat \<Rightarrow> from_adapter list \<Rightarrow> string \<Rightarrow> event list \<Rightarrow> sys \<Rightarrow> bool" where
  "finishing t c pre body es s =
     (\<exists>d. sy_turns s t = Some d \<and> ch_request d = ch_request c \<and> ch_rx d = ch_rx c
        \<and> (ch_phase d = Looping
             \<and> (\<exists>p q cid post. pre = p @ q \<and> \<not> list_ex is_send q
                  \<and> queue (from_chans (sy_hub s) (ch_rx c)) = q @ Send cid body # post
                  \<and> said_by t es = drafts (ch_request c) p \<and> own_steps t es = length p)
           \<or> ch_phase d = Closing \<and> own_steps t es \<le> Suc (length pre)
             \<and> told_end t (ch_request c) pre body es s
           \<or> ch_phase d = Done \<and> own_steps t es \<le> length pre + 2
             \<and> told_end t (ch_request c) pre body es s
             \<and> ch_rx c < next_from (sy_hub s) \<and> (\<forall>k. routes (sy_hub s) k \<noteq> Some (ch_rx c))))"

text \<open>A step of somebody else.\<close>

lemma finishing_other:
  assumes fin: "finishing t c pre body es s"
    and e: "\<not> own_event t e" and turns: "sy_turns s' t = sy_turns s t"
    and can: "sy_cancelled s \<subseteq> sy_cancelled s'"
    and grows: "\<And>d. sy_turns s t = Some d \<Longrightarrow> has_rx d \<Longrightarrow> ch_rx d = ch_rx c \<Longrightarrow>
      \<exists>more. queue (from_chans (sy_hub s') (ch_rx c)) = queue (from_chans (sy_hub s) (ch_rx c)) @ more"
    and next_up: "next_from (sy_hub s) \<le> next_from (sy_hub s')"
    and old: "\<And>k. routes (sy_hub s') k = Some (ch_rx c) \<Longrightarrow> ch_rx c < next_from (sy_hub s) \<Longrightarrow>
      \<exists>k. routes (sy_hub s) k = Some (ch_rx c)"
  shows "finishing t c pre body (es @ [e]) s'"
proof -
  from fin obtain d where d: "sy_turns s t = Some d" "ch_request d = ch_request c" "ch_rx d = ch_rx c"
    and ph: "ch_phase d = Looping
             \<and> (\<exists>p q cid post. pre = p @ q \<and> \<not> list_ex is_send q
                  \<and> queue (from_chans (sy_hub s) (ch_rx c)) = q @ Send cid body # post
                  \<and> said_by t es = drafts (ch_request c) p \<and> own_steps t es = length p)
           \<or> ch_phase d = Closing \<and> own_steps t es \<le> Suc (length pre)
             \<and> told_end t (ch_request c) pre body es s
           \<or> ch_phase d = Done \<and> own_steps t es \<le> length pre + 2
             \<and> told_end t (ch_request c) pre body es s
             \<and> ch_rx c < next_from (sy_hub s) \<and> (\<forall>k. routes (sy_hub s) k \<noteq> Some (ch_rx c))"
    unfolding finishing_def by blast
  have said: "said_by t (es @ [e]) = said_by t es" and own: "own_steps t (es @ [e]) = own_steps t es"
    using e own_event_said [OF e] by simp_all
  have told: "told_end t (ch_request c) pre body es s \<Longrightarrow>
      told_end t (ch_request c) pre body (es @ [e]) s'"
    using can unfolding told_end_def said by blast
  from ph consider
      (loop) p q cid post where "ch_phase d = Looping" "pre = p @ q" "\<not> list_ex is_send q"
        "queue (from_chans (sy_hub s) (ch_rx c)) = q @ Send cid body # post"
        "said_by t es = drafts (ch_request c) p" "own_steps t es = length p"
    | (closing) "ch_phase d = Closing" | (over) "ch_phase d = Done" by blast
  then show ?thesis
  proof cases
    case loop
    then have "has_rx d" by (simp add: has_rx_def)
    from grows [OF d(1) this d(3)] loop(4) obtain more where
      "queue (from_chans (sy_hub s') (ch_rx c)) = q @ Send cid body # (post @ more)" by auto
    with loop d show ?thesis unfolding finishing_def said own turns by blast
  next
    case closing
    with ph d told show ?thesis unfolding finishing_def own turns by auto
  next
    case over
    with ph d told old next_up show ?thesis unfolding finishing_def own turns
      by (intro exI [of _ d]) (auto dest: less_le_trans)
  qed
qed

text \<open>The turn's own step.\<close>

lemma finishing_own:
  assumes fin: "finishing t c pre body es s" and inv: "sys_inv s"
    and d: "sy_turns s t = Some d"
    and step: "chat_step dbus (t \<in> sy_cancelled s) d (sy_hub s) fs d' h'"
  shows "finishing t c pre body (es @ [Stepped t (ch_phase d) fs])
      (s\<lparr>sy_hub := h', sy_turns := (sy_turns s)(t \<mapsto> d')\<rparr>)" (is "finishing _ _ _ _ ?es ?s")
proof -
  from fin d have same: "ch_request d = ch_request c" "ch_rx d = ch_rx c" by (auto simp: finishing_def)
  have said: "said_by t ?es = said_by t es @ said fs" by (simp add: event_said_def)
  have own: "own_steps t ?es = Suc (own_steps t es)" by simp
  have req: "ch_request d' = ch_request c" using chat_step_same [OF step] same by simp
  from fin d consider
      (loop) p q cid post where "ch_phase d = Looping" "pre = p @ q" "\<not> list_ex is_send q"
        "queue (from_chans (sy_hub s) (ch_rx c)) = q @ Send cid body # post"
        "said_by t es = drafts (ch_request c) p" "own_steps t es = length p"
    | (closing) "ch_phase d = Closing" "own_steps t es \<le> Suc (length pre)"
        "told_end t (ch_request c) pre body es s"
    | (over) "ch_phase d = Done"
    unfolding finishing_def by auto
  then show ?thesis
  proof cases
    case loop
    from step show ?thesis
    proof (cases rule: chat_step_phase_cases)
      case (took f)
      from took(2) loop(4) same have q: "f # tl (q @ Send cid body # post) = q @ Send cid body # post" by simp
      have q': "queue (from_chans h' (ch_rx c)) = tl (q @ Send cid body # post)"
        using loop(4) same by (simp add: took(3))
      show ?thesis
      proof (cases q)
        case Nil
        with q have f: "f = Send cid body" by simp
        with took(4) have "d' = d\<lparr>ch_phase := Closing\<rparr>" "said fs = [ChatComplete (ch_request d) body]"
          by (auto simp: frame_arm_def split: if_splits)
        with loop Nil same show ?thesis
          unfolding finishing_def said own told_end_def by simp
      next
        case (Cons g q1)
        with q have f: "f = g" by simp
        from Cons loop(3) f have ns: "\<not> is_send f" "\<not> list_ex is_send q1" by simp_all
        from took(4) ns(1) have fs: "d' = d" "drafts (ch_request c) (p @ [f]) = drafts (ch_request c) p @ said fs"
          by (auto simp: frame_arm_def same split: from_adapter.splits)
        have "pre = (p @ [f]) @ q1" "queue (from_chans h' (ch_rx c)) = q1 @ Send cid body # post"
          using loop(2) Cons f q' by simp_all
        with loop ns fs same show ?thesis
          unfolding finishing_def said own
          by (intro exI [of _ d'])
            (simp, intro exI [of _ "p @ [f]"] exI [of _ q1], simp)
      qed
    next
      case stopped
      with loop same show ?thesis
        unfolding finishing_def said own told_end_def by (auto simp: send_error_def intro!: exI [of _ p])
    next
      case lost
      with loop same show ?thesis by simp
    qed (use loop in simp_all)
  next
    case closing
    from step have "h' = drop_frames (ch_rx d) (close_chat (ch_chat d) (sy_hub s))
        \<and> d' = d\<lparr>ch_phase := Done\<rparr> \<and> fs = []"
      by (cases rule: chat_step_phase_cases) (use closing in simp_all)
    then have hub: "h' = drop_frames (ch_rx d) (close_chat (ch_chat d) (sy_hub s))"
      and d': "d' = d\<lparr>ch_phase := Done\<rparr>" and fs: "fs = []" by simp_all
    have rx: "has_rx d" using closing by (simp add: has_rx_def)
    have ok: "turn_ok (sy_hub s) d" by (rule sys_invD(2) [OF inv d])
    with rx same have "ch_rx c < next_from h'" by (simp add: turn_ok_def hub)
    moreover have "routes h' k \<noteq> Some (ch_rx c)" for k
      using ok rx same by (auto simp: turn_ok_def hub)
    moreover have "told_end t (ch_request c) pre body ?es ?s"
      using closing(3) unfolding told_end_def said by (simp add: fs)
    ultimately show ?thesis
      using closing(2) same d' unfolding finishing_def own by simp
  next
    case over
    with step show ?thesis by (cases rule: chat_step_phase_cases) simp_all
  qed
qed

lemma finishing_step:
  assumes step: "sys_step parse dbus s e s'" and inv: "sys_inv s" and fin: "finishing t c pre body es s"
  shows "finishing t c pre body (es @ [e]) s'"
  using step
proof (cases rule: sys_step.cases)
  case (sys_spawn u d now rand rid session_id message)
  from fin sys_spawn(3) have "u \<noteq> t" by (auto simp: finishing_def)
  then show ?thesis by (intro finishing_other [OF fin]) (auto simp: sys_spawn(1,2))
next
  case (sys_turn u d fs d' h')
  show ?thesis
  proof (cases "u = t")
    case True
    with finishing_own [OF fin inv] sys_turn show ?thesis by simp
  next
    case False
    have keep: "queue (from_chans h' (ch_rx c)) = queue (from_chans (sy_hub s) (ch_rx c))"
      if "sy_turns s t = Some x" "has_rx x" "ch_rx x = ch_rx c" for x
    proof (rule queue_other_turn [OF sys_turn(4)])
      show "ch_rx c < next_from (sy_hub s)"
        using sys_invD(2) [OF inv that(1)] that by (simp add: turn_ok_def)
      show "has_rx d \<Longrightarrow> ch_rx d \<noteq> ch_rx c"
        using sys_invD(3) [OF inv that(1) sys_turn(3) that(2)] that(3) False by auto
    qed
    have hub: "next_from (sy_hub s) \<le> next_from h'
        \<and> (\<forall>k. routes h' k = Some (ch_rx c) \<longrightarrow> ch_rx c < next_from (sy_hub s) \<longrightarrow>
             (\<exists>k. routes (sy_hub s) k = Some (ch_rx c)))"
      using sys_turn(4) by (cases rule: chat_step_phase_cases) (auto split: if_splits)
    with keep False show ?thesis
      by (intro finishing_other [OF fin]) (auto simp: sys_turn(1,2))
  qed
next
  case (sys_cancel u d)
  then show ?thesis by (intro finishing_other [OF fin]) auto
next
  case (sys_connect a h')
  from sys_connect(3) have "h' = snd (socket_open (sy_hub s))" by simp
  then show ?thesis by (intro finishing_other [OF fin]) (auto simp: sys_connect(1,2))
next
  case (sys_text a line)
  then show ?thesis
    by (intro finishing_other [OF fin]) (auto simp: socket_text_def split: option.splits)
next
  case (sys_disconnect a)
  then show ?thesis by (intro finishing_other [OF fin]) auto
next
  case (sys_write accepted a h' j)
  from sys_write(3) have "h' = fst (writer_round accepted a (sy_hub s))" by simp
  then show ?thesis by (intro finishing_other [OF fin]) (auto simp: sys_write(1,2))
qed

lemma finishing_run:
  "sys_run parse dbus s fs s' \<Longrightarrow> sys_inv s \<Longrightarrow> finishing t c pre body es s \<Longrightarrow>
     finishing t c pre body (es @ fs) s'"
proof (induction rule: sys_run.induct)
  case (run_more fs s1 e s2)
  from finishing_step [OF run_more.hyps(2) sys_run_inv [OF run_more.hyps(1) run_more.prems(1)]
      run_more.IH [OF run_more.prems]]
  show ?case by simp
qed simp

lemma finishing_start:
  assumes "sy_turns s t = Some c" and "ch_phase c = Looping"
    and "queue (from_chans (sy_hub s) (ch_rx c)) = pre @ Send cid body # post" and "\<not> list_ex is_send pre"
  shows "finishing t c pre body [] s"
proof -
  have "\<exists>p q cid post. pre = p @ q \<and> \<not> list_ex is_send q
      \<and> queue (from_chans (sy_hub s) (ch_rx c)) = q @ Send cid body # post
      \<and> said_by t [] = drafts (ch_request c) p \<and> own_steps t [] = length p"
    by (rule exI [of _ "[]"], rule exI [of _ pre], rule exI [of _ cid], rule exI [of _ post]) (simp add: assms(3,4))
  with assms(1,2) show ?thesis unfolding finishing_def by blast
qed

end
