(* ===== verification/Bridge_Inbound.thy ===== *)
theory Bridge_Inbound
  imports Bridge_Relay
begin

text \<open>
  The other direction of the bridge: what goes out on the adapters' sockets. Every chat message that
  was accepted is handed to one adapter, once, in the order of acceptance, and an adapter is written
  nothing else.
\<close>

section \<open>What was written\<close>

definition wrote_event :: "nat \<Rightarrow> event \<Rightarrow> json list" where
  "wrote_event a e = (case e of Wrote b (Some j) \<Rightarrow> if b = a then [j] else [] | _ \<Rightarrow> [])"

text \<open>The frames written on the socket of adapter \<open>a\<close>, in order.\<close>

definition wrote_to :: "nat \<Rightarrow> event list \<Rightarrow> json list" where
  "wrote_to a tr = concat (map (wrote_event a) tr)"

lemma wrote_to_simps [simp]:
  "wrote_to a [] = []" "wrote_to a (tr @ [e]) = wrote_to a tr @ wrote_event a e"
  by (simp_all add: wrote_to_def)

lemma wrote_event_simps [simp]:
  "wrote_event a (Wrote b (Some j)) = (if b = a then [j] else [])"
  "wrote_event a (Wrote b None) = []"
  "wrote_event a (Spawned t c) = []" "wrote_event a (Stepped t p es) = []"
  "wrote_event a (CancelFired t) = []" "wrote_event a (Connected b) = []"
  "wrote_event a (TextIn b l) = []" "wrote_event a (Disconnected b) = []"
  by (simp_all add: wrote_event_def)

text \<open>The turns that tried to hand their message over, in order.\<close>

definition push_event :: "event \<Rightarrow> nat list" where
  "push_event e = (case e of Stepped t p es \<Rightarrow> if p = Sending then [t] else [] | _ \<Rightarrow> [])"

definition pushes :: "event list \<Rightarrow> nat list" where
  "pushes tr = concat (map push_event tr)"

lemma pushes_simps [simp]:
  "pushes [] = []" "pushes (tr @ [e]) = pushes tr @ push_event e"
  by (simp_all add: pushes_def)

definition inbound_of :: "chat \<Rightarrow> to_adapter" where
  "inbound_of c = Inbound (ch_chat c) (ch_message c) (ch_request c)"

definition turn_frame :: "sys \<Rightarrow> nat \<Rightarrow> json" where
  "turn_frame s t = to_adapter_to_json (inbound_of (the (sy_turns s t)))"

text \<open>A turn whose message was accepted, and one that still runs on it.\<close>

definition handed :: "chat \<Rightarrow> bool" where
  "handed c = (ch_phase c \<in> {Looping, Closing, Done})"

definition served :: "chat \<Rightarrow> bool" where
  "served c = (ch_phase c \<in> {Looping, Closing})"

text \<open>
  \<open>ord a\<close> are the turns whose messages adapter \<open>a\<close> was given, in the order in which they were accepted.
\<close>

definition order_ok :: "(nat \<Rightarrow> nat list) \<Rightarrow> sys \<Rightarrow> bool" where
  "order_ok ord s =
     ((\<forall>a. distinct (ord a))
      \<and> (\<forall>a b t. t \<in> set (ord a) \<and> t \<in> set (ord b) \<longrightarrow> a = b)
      \<and> (\<forall>a t. t \<in> set (ord a) \<longrightarrow> (\<exists>c. sy_turns s t = Some c \<and> handed c))
      \<and> (\<forall>t c. sy_turns s t = Some c \<and> served c \<longrightarrow> (\<exists>a. t \<in> set (ord a))))"

definition channel_ok :: "nat \<Rightarrow> nat list \<Rightarrow> event list \<Rightarrow> sys \<Rightarrow> bool" where
  "channel_ok a ts tr s =
     (let ch = to_chans (sy_hub s) a in
      subseq ts (pushes tr)
      \<and> (\<not> rx_live ch \<longrightarrow> queue ch = [])
      \<and> (next_to (sy_hub s) \<le> a \<longrightarrow> ts = [] \<and> \<not> rx_live ch)
      \<and> prefix (wrote_to a tr) (map (turn_frame s) ts)
      \<and> (rx_live ch \<longrightarrow> wrote_to a tr @ map to_adapter_to_json (queue ch) = map (turn_frame s) ts))"

definition inbound_inv :: "(nat \<Rightarrow> nat list) \<Rightarrow> event list \<Rightarrow> sys \<Rightarrow> bool" where
  "inbound_inv ord tr s = (order_ok ord s \<and> (\<forall>a. channel_ok a (ord a) tr s))"

lemma order_okD:
  assumes "order_ok ord s"
  shows "distinct (ord a)"
    and "t \<in> set (ord a) \<Longrightarrow> t \<in> set (ord b) \<Longrightarrow> a = b"
    and "t \<in> set (ord a) \<Longrightarrow> \<exists>c. sy_turns s t = Some c \<and> handed c"
    and "sy_turns s t = Some c \<Longrightarrow> served c \<Longrightarrow> \<exists>a. t \<in> set (ord a)"
  using assms unfolding order_ok_def by blast+

section \<open>Its steps\<close>

text \<open>Turns may move on or start, as long as none gets or loses a handed message.\<close>

definition same_turns :: "sys \<Rightarrow> sys \<Rightarrow> bool" where
  "same_turns s s' =
     ((\<forall>t c. sy_turns s t = Some c \<longrightarrow>
         (\<exists>c'. sy_turns s' t = Some c' \<and> inbound_of c' = inbound_of c \<and> (handed c \<longrightarrow> handed c')))
      \<and> (\<forall>t c'. sy_turns s' t = Some c' \<and> served c' \<longrightarrow> (\<exists>c. sy_turns s t = Some c \<and> served c)))"

lemma same_turns_eq: "sy_turns s' = sy_turns s \<Longrightarrow> same_turns s s'"
  by (simp add: same_turns_def)

lemma same_turns_one:
  assumes "sy_turns s t = Some c" and "sy_turns s' = (sy_turns s)(t \<mapsto> c')"
    and "inbound_of c' = inbound_of c" and "handed c \<Longrightarrow> handed c'" and "served c' \<Longrightarrow> served c"
  shows "same_turns s s'"
  using assms by (auto simp: same_turns_def)

lemma order_same:
  assumes ok: "order_ok ord s" and same: "same_turns s s'"
  shows "order_ok ord s'"
  unfolding order_ok_def
proof (intro conjI allI impI)
  fix a t
  assume "t \<in> set (ord a)"
  then obtain c where "sy_turns s t = Some c" "handed c" using order_okD(3) [OF ok] by blast
  with same show "\<exists>c. sy_turns s' t = Some c \<and> handed c" unfolding same_turns_def by blast
next
  fix t c
  assume "sy_turns s' t = Some c \<and> served c"
  with same obtain d where "sy_turns s t = Some d" "served d" unfolding same_turns_def by blast
  then show "\<exists>a. t \<in> set (ord a)" using order_okD(4) [OF ok] by blast
qed (use order_okD(1,2) [OF ok] in blast)+

lemma frames_same:
  assumes "order_ok ord s" and "same_turns s s'"
  shows "map (turn_frame s') (ord a) = map (turn_frame s) (ord a)"
proof (rule map_cong [OF refl])
  fix t
  assume "t \<in> set (ord a)"
  then obtain c where "sy_turns s t = Some c" using order_okD(3) [OF assms(1)] by blast
  with assms(2) show "turn_frame s' t = turn_frame s t" unfolding same_turns_def turn_frame_def by force
qed

text \<open>
  A step that hands nothing over and writes nothing: it leaves the adapters' channels alone, or it ends
  the receiver of one.
\<close>

lemma inbound_still:
  assumes inv: "inbound_inv ord tr s" and same: "same_turns s s'"
    and next_to: "next_to (sy_hub s') = next_to (sy_hub s)"
    and quiet: "\<And>a. wrote_event a e = []"
    and kept: "\<And>a. rx_live (to_chans (sy_hub s') a) \<Longrightarrow>
      rx_live (to_chans (sy_hub s) a)
      \<and> queue (to_chans (sy_hub s') a) = queue (to_chans (sy_hub s) a)"
    and dead: "\<And>a. \<not> rx_live (to_chans (sy_hub s') a) \<Longrightarrow> queue (to_chans (sy_hub s') a) = []"
  shows "inbound_inv ord (tr @ [e]) s'"
  unfolding inbound_inv_def
proof (intro conjI allI)
  from inv have ok: "order_ok ord s" and ch: "\<And>a. channel_ok a (ord a) tr s"
    by (simp_all add: inbound_inv_def)
  show "order_ok ord s'" by (rule order_same [OF ok same])
  fix a
  show "channel_ok a (ord a) (tr @ [e]) s'"
    using ch [of a] kept [of a] dead [of a]
    unfolding channel_ok_def Let_def frames_same [OF ok same] next_to wrote_to_simps quiet append_Nil2 pushes_simps
    using subseq_rev_drop_many by metis
qed

lemma inbound_alone:
  assumes "inbound_inv ord tr s" and "same_turns s s'"
    and "next_to (sy_hub s') = next_to (sy_hub s)" and "to_chans (sy_hub s') = to_chans (sy_hub s)"
    and "\<And>a. wrote_event a e = []"
  shows "inbound_inv ord (tr @ [e]) s'"
proof (rule inbound_still [OF assms(1-3,5)])
  from assms(1) have "\<And>a. channel_ok a (ord a) tr s" by (simp add: inbound_inv_def)
  then show "queue (to_chans (sy_hub s') a) = []" if "\<not> rx_live (to_chans (sy_hub s') a)" for a
    using that assms(4) by (simp add: channel_ok_def Let_def)
qed (simp_all add: assms(4))

text \<open>An accepted chat message is appended to the order of the registered adapter.\<close>

lemma inbound_push:
  assumes inv: "inbound_inv ord tr s" and c: "sy_turns s t = Some c" "ch_phase c = Sending"
    and up: "adapter (sy_hub s) = Some a" "rx_live (to_chans (sy_hub s) a)"
    and s': "s' = s\<lparr>sy_hub := fst (send_inbound (ch_chat c) (ch_message c) (ch_request c) (sy_hub s)),
      sy_turns := (sy_turns s)(t \<mapsto> c\<lparr>ch_phase := Looping\<rparr>)\<rparr>"
    and e: "e = Stepped t Sending []"
  shows "inbound_inv (ord(a := ord a @ [t])) (tr @ [e]) s'"
proof -
  from inv have ok: "order_ok ord s" and ch: "\<And>b. channel_ok b (ord b) tr s"
    by (simp_all add: inbound_inv_def)
  have quiet: "wrote_event b e = []" "pushes (tr @ [e]) = pushes tr @ [t]" for b
    by (simp_all add: e push_event_def)
  have new: "t \<notin> set (ord b)" for b
    using order_okD(3) [OF ok, of t b] c by (auto simp: handed_def)
  have frames: "map (turn_frame s') (ord b) = map (turn_frame s) (ord b)" for b
    by (rule map_cong [OF refl]) (use new in \<open>auto simp: turn_frame_def s'\<close>)
  have own: "turn_frame s' t = to_adapter_to_json (Inbound (ch_chat c) (ch_message c) (ch_request c))"
    by (simp add: turn_frame_def s' inbound_of_def)
  have chans: "to_chans (sy_hub s') b =
      (if b = a then fst (chan_send (Inbound (ch_chat c) (ch_message c) (ch_request c)) (to_chans (sy_hub s) a))
       else to_chans (sy_hub s) b)" for b
    using up by (simp add: s' send_inbound_def Let_def case_prod_beta)
  have "order_ok (ord(a := ord a @ [t])) s'"
    unfolding order_ok_def
  proof (intro conjI allI impI)
    fix b u
    assume "u \<in> set ((ord(a := ord a @ [t])) b)"
    then show "\<exists>d. sy_turns s' u = Some d \<and> handed d"
      using order_okD(3) [OF ok, of u] by (auto simp: s' handed_def split: if_splits)
  next
    fix u d
    assume "sy_turns s' u = Some d \<and> served d"
    then show "\<exists>b. u \<in> set ((ord(a := ord a @ [t])) b)"
      using order_okD(4) [OF ok, of u d] by (auto simp: s' split: if_splits)
  next
    fix b d u
    assume "u \<in> set ((ord(a := ord a @ [t])) b) \<and> u \<in> set ((ord(a := ord a @ [t])) d)"
    then show "b = d"
      using order_okD(2) [OF ok, of u] new by (auto split: if_splits)
  next
    fix b
    show "distinct ((ord(a := ord a @ [t])) b)"
      using order_okD(1) [OF ok] new by simp
  qed
  moreover have "channel_ok b ((ord(a := ord a @ [t])) b) (tr @ [e]) s'" for b
  proof (cases "b = a")
    case True
    from up(2) ch [of a] have sub: "subseq (ord a) (pushes tr)" and "\<not> next_to (sy_hub s) \<le> a"
      and eq: "wrote_to a tr @ map to_adapter_to_json (queue (to_chans (sy_hub s) a)) =
        map (turn_frame s) (ord a)"
      by (simp_all add: channel_ok_def Let_def)
    moreover have "next_to (sy_hub s') = next_to (sy_hub s)" by (simp add: s')
    moreover have "prefix (wrote_to a tr) (map (turn_frame s) (ord a) @ [turn_frame s' t])"
      using eq by (metis append.assoc prefixI)
    ultimately show ?thesis
      using up(2) quiet eq True
      by (simp add: channel_ok_def Let_def chans frames own subseq_append sub del: map_eq_conv pushes_simps)
  next
    case False
    with ch [of b] quiet show ?thesis
      unfolding channel_ok_def Let_def fun_upd_other [OF False] frames chans
      by (simp add: s' subseq_rev_drop_many del: map_eq_conv pushes_simps)
  qed
  ultimately show ?thesis by (simp add: inbound_inv_def)
qed

text \<open>A new socket gets a fresh channel.\<close>

lemma inbound_connect:
  assumes inv: "inbound_inv ord tr s" and s': "sy_hub s' = snd (socket_open (sy_hub s))"
    "sy_turns s' = sy_turns s" and quiet: "\<And>a. wrote_event a e = []"
  shows "inbound_inv ord (tr @ [e]) s'"
  unfolding inbound_inv_def
proof (intro conjI allI)
  from inv have ok: "order_ok ord s" and ch: "\<And>a. channel_ok a (ord a) tr s"
    by (simp_all add: inbound_inv_def)
  note same = same_turns_eq [OF s'(2)]
  show "order_ok ord s'" by (rule order_same [OF ok same])
  fix a
  from ch [of a] show "channel_ok a (ord a) (tr @ [e]) s'"
    unfolding channel_ok_def Let_def frames_same [OF ok same]
    by (cases "a = next_to (sy_hub s)") (auto simp: s' quiet subseq_rev_drop_many simp del: map_eq_conv)
qed

text \<open>The write task moves the head of the queue onto the socket.\<close>

lemma writer_round_cases:
  assumes "writer_round accepted a h = (h', j)"
  obtains
    (put) x xs where "queue (to_chans h a) = x # xs" "j = Some (to_adapter_to_json x)"
      "to_chans h' = (to_chans h)(a := (to_chans h a)\<lparr>queue := xs\<rparr>)"
  | (idle) "j = None" "\<And>b. rx_live (to_chans h' b) \<Longrightarrow>
      rx_live (to_chans h b) \<and> queue (to_chans h' b) = queue (to_chans h b)"
      "\<And>b. \<not> rx_live (to_chans h' b) \<Longrightarrow>
        queue (to_chans h' b) = [] \<or> to_chans h' b = to_chans h b"
proof (cases "j = None")
  case True
  from assms have "to_chans h' b = to_chans h b \<or> queue (to_chans h' b) = [] \<and> \<not> rx_live (to_chans h' b)" for b
    using True by (cases "queue (to_chans h a)")
      (auto simp: writer_round_def chan_recv_def Let_def split: if_splits)
  then show ?thesis using idle [OF True] by metis
next
  case False
  with assms show ?thesis
    using put by (cases "queue (to_chans h a)")
      (auto simp: writer_round_def chan_recv_def Let_def split: if_splits)
qed

lemma inbound_write:
  assumes inv: "inbound_inv ord tr s" and w: "writer_round accepted a (sy_hub s) = (h', j)"
  shows "inbound_inv ord (tr @ [Wrote a j]) (s\<lparr>sy_hub := h'\<rparr>)"
proof -
  let ?s = "s\<lparr>sy_hub := h'\<rparr>"
  from inv have ok: "order_ok ord s" and ch: "\<And>b. channel_ok b (ord b) tr s"
    by (simp_all add: inbound_inv_def)
  have same: "same_turns s ?s" by (simp add: same_turns_eq)
  from w have next_to: "next_to h' = next_to (sy_hub s)" by (metis fst_conv writer_round_simps(4))
  from w show ?thesis
  proof (cases rule: writer_round_cases)
    case (put x xs)
    from ch [of a] put(1) have live: "rx_live (to_chans (sy_hub s) a)"
      by (auto simp: channel_ok_def Let_def)
    have "channel_ok b (ord b) (tr @ [Wrote a j]) ?s" for b
      using ch [of b] live put next_to
      unfolding channel_ok_def Let_def frames_same [OF ok same]
      by (cases "b = a") (auto simp: prefix_def subseq_rev_drop_many simp del: map_eq_conv)
    then show ?thesis
      using order_same [OF ok same] by (simp add: inbound_inv_def)
  next
    case idle
    show ?thesis
    proof (rule inbound_still [OF inv same])
      show "queue (to_chans (sy_hub ?s) b) = []" if "\<not> rx_live (to_chans (sy_hub ?s) b)" for b
        using idle(3) [of b] that ch [of b] by (auto simp: channel_ok_def Let_def)
    qed (use idle next_to in auto)
  qed
qed

section \<open>Every run\<close>

lemma inbound_turn:
  assumes inv: "inbound_inv ord tr s" and c: "sy_turns s t = Some c"
    and step: "chat_step dbus stop c (sy_hub s) es c' h'"
  shows "\<exists>ord'. inbound_inv ord' (tr @ [Stepped t (ch_phase c) es])
    (s\<lparr>sy_hub := h', sy_turns := (sy_turns s)(t \<mapsto> c')\<rparr>)"
    (is "\<exists>ord'. inbound_inv ord' (tr @ [?e]) ?s")
proof -
  have same: "same_turns s ?s" if "handed c \<Longrightarrow> handed c'" "served c' \<Longrightarrow> served c"
    using that chat_step_frame [OF step] c by (intro same_turns_one [of s t c _ c']) (simp_all add: inbound_of_def)
  have alone: ?thesis
    if "to_chans h' = to_chans (sy_hub s)" "next_to h' = next_to (sy_hub s)"
      "handed c \<Longrightarrow> handed c'" "served c' \<Longrightarrow> served c"
    using inbound_alone [OF inv same [OF that(3,4)], of ?e] that(1,2) by (intro exI [of _ ord]) simp
  from step show ?thesis
  proof (cases rule: chat_step_phase_cases)
    case pushed
    show ?thesis
    proof (cases "snd (send_inbound (ch_chat c) (ch_message c) (ch_request c) (sy_hub s))")
      case True
      then obtain a where up: "adapter (sy_hub s) = Some a" "rx_live (to_chans (sy_hub s) a)"
        by (auto simp: send_inbound_def Let_def case_prod_beta split: option.splits)
      from step pushed(1) True have "c' = c\<lparr>ch_phase := Looping\<rparr>"
        by (cases rule: chat_step.cases) (auto simp: chat_push_def Let_def case_prod_beta)
      with inbound_push [OF inv c pushed(1) up, of ?s ?e] pushed show ?thesis by auto
    next
      case False
      then have "to_chans h' = to_chans (sy_hub s)"
        by (auto simp: pushed send_inbound_def chan_send_def Let_def split: option.splits if_splits)
      moreover from step pushed(1) False have "ch_phase c' = Rejecting"
        by (cases rule: chat_step.cases) (auto simp: chat_push_def Let_def case_prod_beta)
      ultimately show ?thesis
        by (intro alone) (simp_all add: pushed handed_def served_def)
    qed
  next
    case (took f)
    then show ?thesis
      by (intro alone) (auto simp: handed_def served_def frame_arm_def split: from_adapter.splits)
  qed (rule alone; auto simp: handed_def served_def)+
qed

lemma inbound_step:
  assumes "sys_step parse dbus s e s'" and inv: "inbound_inv ord tr s"
  shows "\<exists>ord'. inbound_inv ord' (tr @ [e]) s'"
  using assms(1)
proof (cases rule: sys_step.cases)
  case (sys_spawn t c now rand rid session_id message)
  then have "same_turns s s'" by (auto simp: same_turns_def served_def)
  from inbound_alone [OF inv this, of e] sys_spawn show ?thesis by auto
next
  case (sys_turn t c es c' h')
  then show ?thesis using inbound_turn [OF inv] by simp
next
  case (sys_cancel t c)
  with inbound_alone [OF inv same_turns_eq, of s' e] show ?thesis by auto
next
  case (sys_connect a h')
  with inbound_connect [OF inv, of s' e] show ?thesis by auto
next
  case (sys_text a line)
  then have "to_chans (sy_hub s') = to_chans (sy_hub s)" "next_to (sy_hub s') = next_to (sy_hub s)"
    by (simp_all add: socket_text_def split: option.split)
  with inbound_alone [OF inv same_turns_eq, of s' e] sys_text show ?thesis by auto
next
  case (sys_disconnect a)
  have dead: "queue (to_chans (sy_hub s) b) = []" if "\<not> rx_live (to_chans (sy_hub s) b)" for b
    using inv that by (auto simp: inbound_inv_def channel_ok_def Let_def)
  have "inbound_inv ord (tr @ [e]) s'"
    by (rule inbound_still [OF inv same_turns_eq])
      (use sys_disconnect dead in \<open>auto simp: Let_def split: if_splits\<close>)
  then show ?thesis by blast
next
  case (sys_write accepted a h' j)
  with inbound_write [OF inv, of accepted a h' j] show ?thesis by auto
qed

lemma inbound_trace: "sys_trace ok parse dbus tr s \<Longrightarrow> \<exists>ord. inbound_inv ord tr s"
proof (induction rule: sys_trace.induct)
  case sys_init
  have "inbound_inv (\<lambda>_. []) [] (sys_start hub_new)"
    by (simp add: inbound_inv_def order_ok_def channel_ok_def sys_start_def)
  then show ?case by blast
next
  case (sys_next tr s e s')
  then show ?case using inbound_step by blast
qed

section \<open>A run that writes\<close>

definition demo_frame :: json where
  "demo_frame = to_adapter_to_json (Inbound ''c'' ''hi'' ''r'')"

definition demo_handover :: "event list" where
  "demo_handover =
     [Spawned 0 demo_chat, Connected 0, Stepped 0 Opening [], Stepped 0 Sending [], Wrote 0 (Some demo_frame)]"

lemma demo_handover_run: "\<exists>s. sys_trace any_client parse dbus demo_handover s"
proof -
  let ?c = "\<lambda>p. demo_chat\<lparr>ch_rx := 0, ch_phase := p\<rparr>"
  note steps = demo_chat_steps [where stop = False and dbus = dbus, THEN demo_turn, simplified]
  have "sys_trace any_client parse dbus (([Spawned 0 demo_chat, Connected 0] @ [Stepped 0 Opening []])
      @ [Stepped 0 Sending []]) (demo_state demo_sent (?c Looping))"
    by (rule sys_next [OF sys_next [OF any_client_trace [OF demo_start] steps(1)] steps(2)])
      (simp_all add: any_client_def)
  moreover have "snd (writer_round True 0 demo_sent) = Some demo_frame"
    by (simp add: demo_sent_def demo_opened_def demo_connected_def demo_frame_def writer_round_def
        send_inbound_def chan_recv_def chan_send_def Let_def case_prod_beta)
  then have "sys_step parse dbus (demo_state demo_sent (?c Looping)) (Wrote 0 (Some demo_frame))
      (demo_state demo_sent (?c Looping)\<lparr>sy_hub := fst (writer_round True 0 demo_sent)\<rparr>)"
    by (intro sys_write [where accepted = True]) (simp add: demo_state_def prod_eq_iff)
  ultimately show ?thesis
    using sys_next [where ok = any_client] by (fastforce simp: demo_handover_def any_client_def)
qed

section \<open>Its guarantee\<close>

text \<open>
  C7: in every run each adapter's socket carries the chat messages that were accepted for it, and nothing
  else: there is for every adapter a list of turns, without repetition, in the order in which they
  handed their messages over, of which the socket has been written a prefix and, while its write task
  lives, all but what still waits in its queue. No turn stands in two lists or twice in one, so no
  message goes to two adapters or out twice, and every turn that waits for its reply stands in one.
\<close>

theorem messages_go_out_once:
  assumes "sys_trace any_client parse dbus tr s"
  shows "\<exists>ord.
    (\<forall>a. distinct (ord a) \<and> subseq (ord a) (pushes tr)
      \<and> prefix (wrote_to a tr) (map (turn_frame s) (ord a))
      \<and> (rx_live (to_chans (sy_hub s) a) \<longrightarrow>
          wrote_to a tr @ map to_adapter_to_json (queue (to_chans (sy_hub s) a))
            = map (turn_frame s) (ord a)))
    \<and> (\<forall>a b t. t \<in> set (ord a) \<and> t \<in> set (ord b) \<longrightarrow> a = b)
    \<and> (\<forall>a t. t \<in> set (ord a) \<longrightarrow> (\<exists>c. sy_turns s t = Some c \<and> handed c))
    \<and> (\<forall>t c. sy_turns s t = Some c \<and> served c \<longrightarrow> (\<exists>a. t \<in> set (ord a)))"
proof -
  from inbound_trace [OF assms] obtain ord where "order_ok ord s" "\<And>a. channel_ok a (ord a) tr s"
    by (auto simp: inbound_inv_def)
  then show ?thesis
    unfolding order_ok_def channel_ok_def Let_def by (intro exI [of _ ord]) simp
qed

theorem messages_go_out_once_witness:
  "\<exists>s. sys_trace any_client demo_parse True demo_handover s
     \<and> wrote_to 0 demo_handover = [demo_frame]
     \<and> (\<exists>ts. subseq ts [0] \<and> prefix [demo_frame] (map (turn_frame s) ts))"
proof -
  have wrote: "wrote_to 0 demo_handover = [demo_frame]" "pushes demo_handover = [0]"
    by (simp_all add: demo_handover_def wrote_to_def pushes_def push_event_def)
  obtain s where tr: "sys_trace any_client demo_parse True demo_handover s"
    using demo_handover_run by blast
  from messages_go_out_once [OF tr] have
    "\<exists>ts. subseq ts (pushes demo_handover) \<and> prefix (wrote_to 0 demo_handover) (map (turn_frame s) ts)"
    by blast
  with tr wrote show ?thesis by auto
qed

end
