(* ===== verification/Bridge_Shutdown.thy ===== *)
theory Bridge_Shutdown
  imports Bridge_Relay
begin

text \<open>
  The end of all chat turns. Every request's token is a child of the daemon's shutdown token, so at a
  shutdown the cancel arm of every turn is ready. Whatever the order in which the turns then go on, and
  whatever is still in their channels, all of them end, each having told its client how.
\<close>

section \<open>Only turns make steps\<close>

definition turn_event_of :: "event \<Rightarrow> bool" where
  "turn_event_of e = (case e of Stepped t p es \<Rightarrow> True | _ \<Rightarrow> False)"

inductive turns_run :: "(string \<Rightarrow> json option) \<Rightarrow> bool \<Rightarrow> sys \<Rightarrow> event list \<Rightarrow> sys \<Rightarrow> bool"
  for parse dbus s
where
  turns_none: "turns_run parse dbus s [] s"
| turns_step: "turns_run parse dbus s es s1 \<Longrightarrow> sys_step parse dbus s1 (Stepped t p fs) s2 \<Longrightarrow>
    turns_run parse dbus s (es @ [Stepped t p fs]) s2"

definition all_cancelled :: "sys \<Rightarrow> bool" where
  "all_cancelled s = (\<forall>t \<in> dom (sy_turns s). t \<in> sy_cancelled s)"

definition at_rest :: "(string \<Rightarrow> json option) \<Rightarrow> bool \<Rightarrow> sys \<Rightarrow> bool" where
  "at_rest parse dbus s = (\<forall>t p es s'. \<not> sys_step parse dbus s (Stepped t p es) s')"

lemma sys_turn_cases:
  assumes "sys_step parse dbus s (Stepped t p es) s'"
  obtains c c' h' where "sy_turns s t = Some c" "p = ch_phase c"
    "chat_step dbus (t \<in> sy_cancelled s) c (sy_hub s) es c' h'"
    "s' = s\<lparr>sy_hub := h', sy_turns := (sy_turns s)(t \<mapsto> c')\<rparr>"
  using assms by (cases rule: sys_step.cases) auto

lemma turns_run_trace:
  assumes "turns_run parse dbus s es s'" and "sys_trace any_client parse dbus tr s"
  shows "sys_trace any_client parse dbus (tr @ es) s'"
  using assms
proof (induction rule: turns_run.induct)
  case (turns_step es s1 t p fs s2)
  from sys_next [OF turns_step.IH [OF turns_step.prems] turns_step.hyps(2)] show ?case
    by (simp add: any_client_def)
qed simp

lemma turns_run_keeps:
  "turns_run parse dbus s es s' \<Longrightarrow> dom (sy_turns s') = dom (sy_turns s) \<and> sy_cancelled s' = sy_cancelled s"
proof (induction rule: turns_run.induct)
  case (turns_step es s1 t p fs s2)
  from turns_step.hyps(2) obtain c c' h' where c: "sy_turns s1 t = Some c"
    and s2: "s2 = s1\<lparr>sy_hub := h', sy_turns := (sy_turns s1)(t \<mapsto> c')\<rparr>" by (rule sys_turn_cases)
  from c have "insert t (dom (sy_turns s1)) = dom (sy_turns s1)" by (simp add: insert_absorb domI)
  with turns_step.IH show ?case by (simp add: s2 del: fun_upd_apply)
qed simp

lemma sys_trace_finite: "sys_trace ok parse dbus tr s \<Longrightarrow> finite (dom (sy_turns s))"
proof (induction rule: sys_trace.induct)
  case (sys_next tr s e s')
  from sys_next.hyps(2) sys_next.IH show ?case by (cases rule: sys_step.cases) (simp_all del: fun_upd_apply)
qed (simp add: sys_start_def)

section \<open>What is left to do\<close>

text \<open>The steps a turn can still make, counting what waits in its channel.\<close>

definition turn_work :: "hub \<Rightarrow> chat \<Rightarrow> nat" where
  "turn_work h c =
     (case ch_phase c of
        Opening \<Rightarrow> 4
      | Sending \<Rightarrow> 3 + length (queue (from_chans h (ch_rx c)))
      | Looping \<Rightarrow> 2 + length (queue (from_chans h (ch_rx c)))
      | Rejecting \<Rightarrow> 1
      | Closing \<Rightarrow> 1
      | Done \<Rightarrow> 0)"

definition turns_work :: "sys \<Rightarrow> nat" where
  "turns_work s = (\<Sum>t \<in> dom (sy_turns s). turn_work (sy_hub s) (the (sy_turns s t)))"

lemma turn_work_own:
  assumes "chat_step dbus stop c h es c' h'"
  shows "turn_work h' c' < turn_work h c"
  using assms
proof (cases rule: chat_step_phase_cases)
  case opened
  then show ?thesis by (simp add: turn_work_def)
next
  case pushed
  then show ?thesis by (auto simp: turn_work_def)
next
  case (took f)
  then have "0 < length (queue (from_chans h (ch_rx c)))" by (metis length_greater_0_conv list.discI)
  moreover from took(4) have "ch_phase c' = Looping \<or> ch_phase c' = Closing"
    using took(1) by (auto simp: frame_arm_def split: from_adapter.splits)
  ultimately show ?thesis using took by (auto simp: turn_work_def)
qed (auto simp: turn_work_def)

lemma turn_work_other:
  assumes "chat_step dbus stop c h es c' h'"
    and "has_rx d \<Longrightarrow> has_rx c \<Longrightarrow> ch_rx d \<noteq> ch_rx c" and "has_rx d \<Longrightarrow> ch_rx d \<noteq> next_from h"
  shows "turn_work h' d = turn_work h d"
proof (cases "has_rx d")
  case True
  from assms(1) have "queue (from_chans h' (ch_rx d)) = queue (from_chans h (ch_rx d))"
    by (cases rule: chat_step_phase_cases) (use assms(2,3) True in \<open>auto simp: has_rx_def\<close>)
  then show ?thesis by (simp add: turn_work_def split: phase.split)
next
  case False
  then show ?thesis by (auto simp: turn_work_def has_rx_def)
qed

text \<open>A turn's step brings the work of any group of turns that it is in down.\<close>

lemma group_work_step:
  assumes step: "sys_step parse dbus s (Stepped t p es) s'" and inv: "sys_inv s"
    and T: "finite T" "T \<subseteq> dom (sy_turns s)" "t \<in> T"
  shows "(\<Sum>u \<in> T. turn_work (sy_hub s') (the (sy_turns s' u)))
    < (\<Sum>u \<in> T. turn_work (sy_hub s) (the (sy_turns s u)))"
proof -
  from step obtain c c' h' where c: "sy_turns s t = Some c"
    and own: "chat_step dbus (t \<in> sy_cancelled s) c (sy_hub s) es c' h'"
    and s': "s' = s\<lparr>sy_hub := h', sy_turns := (sy_turns s)(t \<mapsto> c')\<rparr>" by (rule sys_turn_cases)
  have "turn_work (sy_hub s') (the (sy_turns s' u)) = turn_work (sy_hub s) (the (sy_turns s u))"
    if "u \<in> T - {t}" for u
  proof -
    from that T(2) obtain d where d: "sy_turns s u = Some d" "u \<noteq> t" by auto
    have "has_rx d \<Longrightarrow> has_rx c \<Longrightarrow> ch_rx d \<noteq> ch_rx c"
      using sys_invD(3) [OF inv d(1) c] d(2) by blast
    moreover have "has_rx d \<Longrightarrow> ch_rx d \<noteq> next_from (sy_hub s)"
      using turn_ok_other(1) [OF sys_invD(2) [OF inv d(1)]] .
    ultimately show ?thesis using turn_work_other [OF own] d by (simp add: s')
  qed
  then have "(\<Sum>u \<in> T - {t}. turn_work (sy_hub s') (the (sy_turns s' u))) =
      (\<Sum>u \<in> T - {t}. turn_work (sy_hub s) (the (sy_turns s u)))" by (rule sum.cong [OF refl])
  moreover have "turn_work (sy_hub s') (the (sy_turns s' t)) < turn_work (sy_hub s) (the (sy_turns s t))"
    using turn_work_own [OF own] c by (simp add: s')
  ultimately show ?thesis by (simp add: sum.remove [OF T(1,3)])
qed

lemma turns_work_step:
  assumes step: "sys_step parse dbus s (Stepped t p es) s'" and inv: "sys_inv s"
    and fin: "finite (dom (sy_turns s))"
  shows "turns_work s' < turns_work s"
proof -
  from step obtain c c' h' where c: "sy_turns s t = Some c"
    and s': "s' = s\<lparr>sy_hub := h', sy_turns := (sy_turns s)(t \<mapsto> c')\<rparr>" by (rule sys_turn_cases)
  then have "dom (sy_turns s') = dom (sy_turns s)" by (simp add: insert_absorb domI del: fun_upd_apply)
  with group_work_step [OF step inv fin subset_refl] c show ?thesis
    by (simp add: turns_work_def domI)
qed

lemma turns_run_work:
  assumes "turns_run parse dbus s es s'" and "sys_trace any_client parse dbus tr s"
  shows "length es + turns_work s' \<le> turns_work s"
  using assms
proof (induction rule: turns_run.induct)
  case (turns_step es s1 t p fs s2)
  note tr = turns_run_trace [OF turns_step.hyps(1) turns_step.prems]
  from turns_work_step [OF turns_step.hyps(2) sys_trace_inv [OF tr] sys_trace_finite [OF tr]]
    turns_step.IH [OF turns_step.prems] show ?case by simp
qed simp

lemma at_rest_done:
  assumes "at_rest parse dbus s" and "all_cancelled s" and "sy_turns s t = Some c"
  shows "ch_phase c = Done"
proof (rule ccontr)
  assume "ch_phase c \<noteq> Done"
  moreover from assms(2,3) have "t \<in> sy_cancelled s" by (auto simp: all_cancelled_def)
  ultimately have "\<exists>es c' h'. chat_step dbus (t \<in> sy_cancelled s) c (sy_hub s) es c' h'"
    by (simp add: chat_progress)
  with sys_turn [OF assms(3)] assms(1) show False unfolding at_rest_def by blast
qed

lemma turns_run_to_rest:
  assumes "sys_trace any_client parse dbus tr s"
  shows "\<exists>es s'. turns_run parse dbus s es s' \<and> at_rest parse dbus s'"
proof -
  have "\<exists>es' s'. turns_run parse dbus s es' s' \<and> at_rest parse dbus s'"
    if "turns_run parse dbus s es s1" for es s1
    using that
  proof (induction "turns_work s1" arbitrary: es s1 rule: less_induct)
    case less
    show ?case
    proof (cases "at_rest parse dbus s1")
      case True
      with less.prems show ?thesis by blast
    next
      case False
      then obtain t p fs s2 where step: "sys_step parse dbus s1 (Stepped t p fs) s2"
        by (auto simp: at_rest_def)
      note tr = turns_run_trace [OF less.prems assms]
      from less.hyps [OF turns_work_step [OF step sys_trace_inv [OF tr] sys_trace_finite [OF tr]]
          turns_step [OF less.prems step]]
      show ?thesis .
    qed
  qed
  from this [OF turns_none] show ?thesis .
qed

section \<open>What the turns have said\<close>

lemma turn_shape_said:
  assumes "sys_trace ok parse dbus tr s"
  shows "(\<forall>t c. sy_turns s t = Some c \<longrightarrow> turn_shape (ch_request c) (ended (ch_phase c)) (said_by t tr))
    \<and> (\<forall>t. sy_turns s t = None \<longrightarrow> said_by t tr = [])"
  using assms
proof (induction rule: sys_trace.induct)
  case sys_init
  then show ?case by (simp add: sys_start_def)
next
  case (sys_next tr s e s')
  then have old: "\<And>t c. sy_turns s t = Some c \<Longrightarrow> turn_shape (ch_request c) (ended (ch_phase c)) (said_by t tr)"
    and none: "\<And>t. sy_turns s t = None \<Longrightarrow> said_by t tr = []" by blast+
  from sys_next.hyps(2) show ?case
  proof (cases rule: sys_step.cases)
    case (sys_spawn t c now rand rid session_id message)
    moreover have "turn_shape (ch_request c) (ended (ch_phase c)) []"
      by (simp add: sys_spawn turn_shape_def ended_def)
    ultimately show ?thesis using old none by (auto simp: event_said_def)
  next
    case (sys_turn t c es c' h')
    from turn_shape_step [OF old [OF sys_turn(3)] chat_step_said [OF sys_turn(4)]]
    have "turn_shape (ch_request c') (ended (ch_phase c')) (said_by t tr @ said es)"
      by (simp add: chat_step_frame [OF sys_turn(4)])
    with sys_turn(1-3) old none show ?thesis by (auto simp: event_said_def)
  qed (use old none in \<open>auto simp: event_said_def\<close>)
qed

section \<open>The shutdown's guarantee\<close>

text \<open>
  C10: at a shutdown, or whenever the tokens of all chats are cancelled, the turns end by their own steps in every
  order in which they can be taken: the number of steps is bounded by what the turns had left to do,
  some run comes to rest, and wherever a run comes to rest every turn is done, has told its client
  exactly one final reply or error, and the hub's table is empty. No turn waits for the adapter, for
  another turn or for a frame.
\<close>

theorem shutdown_ends_turns:
  assumes tr: "sys_trace any_client parse dbus tr s" and cancel: "all_cancelled s"
  shows "(\<forall>es s'. turns_run parse dbus s es s' \<longrightarrow> length es \<le> turns_work s)
    \<and> (\<exists>es s'. turns_run parse dbus s es s' \<and> at_rest parse dbus s')
    \<and> (\<forall>es s'. turns_run parse dbus s es s' \<and> at_rest parse dbus s' \<longrightarrow>
         routes (sy_hub s') = Map.empty
         \<and> (\<forall>t c. sy_turns s' t = Some c \<longrightarrow> ch_phase c = Done
              \<and> length (filter is_terminal (said_by t (tr @ es))) = 1))"
proof -
  have rest: "routes (sy_hub s') = Map.empty
         \<and> (\<forall>t c. sy_turns s' t = Some c \<longrightarrow> ch_phase c = Done
              \<and> length (filter is_terminal (said_by t (tr @ es))) = 1)"
    if run: "turns_run parse dbus s es s'" "at_rest parse dbus s'" for es s'
  proof -
    note tr' = turns_run_trace [OF run(1) tr]
    have "all_cancelled s'" using cancel turns_run_keeps [OF run(1)] by (simp add: all_cancelled_def)
    note over = at_rest_done [OF run(2) this]
    have "length (filter is_terminal (said_by t (tr @ es))) = 1" if "sy_turns s' t = Some c" for t c
      using turn_shape_said [OF tr'] turn_shape_terminals over [OF that] that by (force simp: ended_def)
    moreover have "routes (sy_hub s') = Map.empty"
    proof
      fix k
      show "routes (sy_hub s') k = None"
        using sys_invD(4) [OF sys_trace_inv [OF tr'], of k] over
        by (cases "routes (sy_hub s') k") (auto simp: has_rx_def)
    qed
    ultimately show ?thesis using over by blast
  qed
  have "length es \<le> turns_work s" if "turns_run parse dbus s es s'" for es s'
    using turns_run_work [OF that tr] by simp
  with rest turns_run_to_rest [OF tr] show ?thesis by blast
qed

text \<open>The demonstration run's turn, cancelled while it waits for its first frame.\<close>

lemma demo_looping_trace:
  "\<exists>tr s. sys_trace any_client demo_parse dbus tr s
     \<and> sy_turns s = [0 \<mapsto> demo_chat\<lparr>ch_rx := 0, ch_phase := Looping\<rparr>]"
proof -
  let ?c = "\<lambda>p. demo_chat\<lparr>ch_rx := 0, ch_phase := p\<rparr>"
  note steps = demo_chat_steps [where stop = False and dbus = dbus, THEN demo_turn, simplified]
  have "sys_trace any_client demo_parse dbus (([Spawned 0 demo_chat, Connected 0] @ [Stepped 0 Opening []])
      @ [Stepped 0 Sending []]) (demo_state demo_sent (?c Looping))"
    by (rule sys_next [OF sys_next [OF any_client_trace [OF demo_start] steps(1)] steps(2)])
      (simp_all add: any_client_def)
  then show ?thesis by (force simp: demo_state_def)
qed

lemma demo_cancelled:
  "\<exists>tr s. sys_trace any_client demo_parse dbus tr s \<and> all_cancelled s
     \<and> sy_turns s 0 = Some (demo_chat\<lparr>ch_rx := 0, ch_phase := Looping\<rparr>)"
proof -
  obtain tr s where tr: "sys_trace any_client demo_parse dbus tr s"
    and c: "sy_turns s = [0 \<mapsto> demo_chat\<lparr>ch_rx := 0, ch_phase := Looping\<rparr>]"
    using demo_looping_trace by blast
  have "sys_trace any_client demo_parse dbus (tr @ [CancelFired 0])
      (s\<lparr>sy_cancelled := insert 0 (sy_cancelled s)\<rparr>)"
    by (rule sys_next [OF tr sys_cancel]) (simp_all add: c any_client_def)
  with c show ?thesis
    by (intro exI [of _ "tr @ [CancelFired 0]"] exI [of _ "s\<lparr>sy_cancelled := insert 0 (sy_cancelled s)\<rparr>"])
      (simp add: all_cancelled_def)
qed

theorem shutdown_ends_turns_witness:
  "\<exists>tr s es s'. sys_trace any_client demo_parse True tr s
     \<and> sy_turns s 0 = Some (demo_chat\<lparr>ch_rx := 0, ch_phase := Looping\<rparr>)
     \<and> turns_run demo_parse True s es s' \<and> routes (sy_hub s') = Map.empty"
proof -
  obtain tr s where tr: "sys_trace any_client demo_parse True tr s" "all_cancelled s"
    and c: "sy_turns s 0 = Some (demo_chat\<lparr>ch_rx := 0, ch_phase := Looping\<rparr>)"
    using demo_cancelled by blast
  from shutdown_ends_turns [OF tr] obtain es s' where "turns_run demo_parse True s es s'"
    "at_rest demo_parse True s'" "routes (sy_hub s') = Map.empty" by blast
  with tr c show ?thesis by blast
qed

end
