(* ===== verification/Mcp_Tools.thy ===== *)
theory Mcp_Tools
  imports Mcp_Server
begin

text \<open>
  \<open>DesktopServer\<close> of \<open>src/mcp/tools.rs\<close> as the tool router serves it: a call names a tool and carries its
  arguments as JSON, which are read as the tool's request type before the tool runs. That a tool is
  called by the name of its function and with arguments of its \<open>Parameters\<close> type is what the
  \<open>tool_router\<close> attribute stands for; the texts of the router's own errors are not modelled.
\<close>

section \<open>Requests\<close>

definition notify_request_of_json :: "json \<Rightarrow> notify_request option" where
  "notify_request_of_json v =
     Option.bind (struct_fields [''title'', ''body'', ''urgency'', ''icon''] v) (\<lambda>f.
       ap4 (\<lambda>t b u i. \<lparr>nr_title = t, nr_body = b, nr_urgency = u, nr_icon = i\<rparr>)
         (req_field de_str f ''title'') (req_field de_str f ''body'')
         (opt_field de_str f ''urgency'') (opt_field de_str f ''icon''))"

definition launch_request_of_json :: "json \<Rightarrow> launch_request option" where
  "launch_request_of_json v =
     Option.bind (struct_fields [''command'', ''args''] v) (\<lambda>f.
       ap2 (\<lambda>c a. \<lparr>lr_command = c, lr_args = a\<rparr>)
         (req_field de_str f ''command'') (opt_field (de_vec de_str) f ''args''))"

record screenshot_request =
  sr_target :: "string option"

definition screenshot_request_of_json :: "json \<Rightarrow> screenshot_request option" where
  "screenshot_request_of_json v =
     Option.bind (struct_fields [''target''] v) (\<lambda>f.
       map_option (\<lambda>t. \<lparr>sr_target = t\<rparr>) (opt_field de_str f ''target''))"

section \<open>The server\<close>

text \<open>
  The server is built once per session with the daemon's D-Bus connection and its broadcast sender;
  what it needs of the system is the outcome of a notification call, of spawning, of the capture on the
  blocking pool and the base64 encoder.
\<close>

record desktop_server =
  dk_dbus :: "(notify_call \<Rightarrow> string + u32) option"

definition desktop_server_new :: "(notify_call \<Rightarrow> string + u32) option \<Rightarrow> desktop_server" where
  "desktop_server_new dbus = \<lparr>dk_dbus = dbus\<rparr>"

record tool_env =
  te_spawn :: "spawn_spec \<Rightarrow> string + u32 option"
  te_capture :: "target \<Rightarrow> string + (screenshot_error + string)"
  te_base64 :: "string \<Rightarrow> string"

datatype tool_call =
    NotifyCall notify_request
  | LaunchCall launch_request
  | ScreenshotCall screenshot_request

datatype tool_failure = UnknownTool | BadArguments | ToolError string

text \<open>The router's table: the tools by name, each with the reader of its arguments.\<close>

definition tool_table :: "(string \<times> (json \<Rightarrow> tool_call option)) list" where
  "tool_table =
     [(''desktop_notify'', \<lambda>v. map_option NotifyCall (notify_request_of_json v)),
      (''desktop_launch_app'', \<lambda>v. map_option LaunchCall (launch_request_of_json v)),
      (''desktop_screenshot'', \<lambda>v. map_option ScreenshotCall (screenshot_request_of_json v))]"

definition read_tool_call :: "string \<Rightarrow> json \<Rightarrow> tool_failure + tool_call" where
  "read_tool_call name args =
     (case map_of tool_table name of
        None \<Rightarrow> Inl UnknownTool
      | Some reader \<Rightarrow> (case reader args of None \<Rightarrow> Inl BadArguments | Some c \<Rightarrow> Inr c))"

definition tool_outcome :: "tool_result \<Rightarrow> tool_failure + content" where
  "tool_outcome r = (case r of Inl e \<Rightarrow> Inl (ToolError e) | Inr c \<Rightarrow> Inr c)"

text \<open>A call: its result, and what it sends to the broadcast channel.\<close>

fun run_tool ::
    "desktop_server \<Rightarrow> tool_env \<Rightarrow> tool_call \<Rightarrow> (tool_failure + content) \<times> daemon_message list" where
  "run_tool dk env (NotifyCall req) = apfst tool_outcome (desktop_notify (dk_dbus dk) req)"
| "run_tool dk env (LaunchCall req) = (tool_outcome (desktop_launch_app (te_spawn env) req), [])"
| "run_tool dk env (ScreenshotCall req) =
     (tool_outcome (desktop_screenshot (te_capture env) (te_base64 env) (sr_target req)), [])"

definition call_tool ::
    "desktop_server \<Rightarrow> tool_env \<Rightarrow> string \<Rightarrow> json \<Rightarrow> (tool_failure + content) \<times> daemon_message list" where
  "call_tool dk env name args =
     (case read_tool_call name args of
        Inl e \<Rightarrow> (Inl e, [])
      | Inr c \<Rightarrow> run_tool dk env c)"

section \<open>What a call does\<close>

text \<open>The arguments of a notification, as any client writes them.\<close>

definition notify_args :: "notify_request \<Rightarrow> json" where
  "notify_args req =
     JObj ([(''title'', JStr (nr_title req)), (''body'', JStr (nr_body req))]
           @ ser_skip_none ''urgency'' JStr (nr_urgency req) @ ser_skip_none ''icon'' JStr (nr_icon req))"

lemma notify_args_read: "notify_request_of_json (notify_args req) = Some req"
  by (cases req; cases "nr_urgency req"; cases "nr_icon req")
    (simp_all add: notify_request_of_json_def notify_args_def struct_fields_def)

lemma read_tool_call_cases:
  "read_tool_call name args = Inr c \<longleftrightarrow>
     (name = ''desktop_notify'' \<and> (\<exists>r. notify_request_of_json args = Some r \<and> c = NotifyCall r))
     \<or> (name = ''desktop_launch_app'' \<and> (\<exists>r. launch_request_of_json args = Some r \<and> c = LaunchCall r))
     \<or> (name = ''desktop_screenshot'' \<and> (\<exists>r. screenshot_request_of_json args = Some r \<and> c = ScreenshotCall r))"
  by (auto simp: read_tool_call_def tool_table_def split: option.splits if_splits)

lemma desktop_notify_events:
  "snd (desktop_notify d req) =
     (if \<exists>c. fst (desktop_notify d req) = Inr c then [Toast (nr_title req) (nr_body req) (nr_icon req)] else [])"
  by (simp add: desktop_notify_def Let_def split: option.split sum.split)

lemma launch_succeeds_iff:
  "(\<exists>c. desktop_launch_app spawn req = Inr c) \<longleftrightarrow>
     (\<exists>pid. launch_detached spawn (lr_command req) (unwrap_or [] (lr_args req)) = Inr pid)"
  by (simp add: desktop_launch_app_def Let_def split: sum.split)

lemma screenshot_succeeds_iff:
  "(\<exists>c. desktop_screenshot run b64 t = Inr c) \<longleftrightarrow> (\<exists>png. run (target_from_opt t) = Inr (Inr png))"
  by (simp add: desktop_screenshot_def split: sum.split)

lemma notify_succeeds_iff:
  "(\<exists>c. fst (desktop_notify d req) = Inr c) \<longleftrightarrow>
     (\<exists>conn i. d = Some conn
        \<and> notify_send conn (nr_title req) (nr_body req) (urgency_from_opt (nr_urgency req)) (nr_icon req) = Inr i)"
  by (simp add: desktop_notify_def Let_def split: option.split sum.split)

lemma tool_outcome_succeeds [simp]: "(\<exists>c. tool_outcome r = Inr c) \<longleftrightarrow> (\<exists>c. r = Inr c)"
  by (simp add: tool_outcome_def split: sum.split)

section \<open>The tools' guarantee\<close>

text \<open>
  C27: a tool call succeeds exactly if it names one of the three tools, its arguments are of that tool's type
  and the desktop did what was asked: the notification service accepted the notification, the command
  was spawned and its pid is known, or the capture gave a picture. A toast is broadcast exactly for a
  notification that was shown, with its title, body and icon; no other call and no failed one
  broadcasts anything, and a call that is not understood has no effect at all.
\<close>

theorem tool_call_succeeds_iff:
  "((\<exists>out. fst (call_tool dk env name args) = Inr out) \<longleftrightarrow>
     (name = ''desktop_notify'' \<and>
        (\<exists>req conn i. notify_request_of_json args = Some req \<and> dk_dbus dk = Some conn
           \<and> notify_send conn (nr_title req) (nr_body req) (urgency_from_opt (nr_urgency req)) (nr_icon req) = Inr i))
     \<or> (name = ''desktop_launch_app'' \<and>
        (\<exists>req pid. launch_request_of_json args = Some req
           \<and> launch_detached (te_spawn env) (lr_command req) (unwrap_or [] (lr_args req)) = Inr pid))
     \<or> (name = ''desktop_screenshot'' \<and>
        (\<exists>req png. screenshot_request_of_json args = Some req
           \<and> te_capture env (target_from_opt (sr_target req)) = Inr (Inr png))))
   \<and> snd (call_tool dk env name args) =
       (case notify_request_of_json args of
          Some req \<Rightarrow>
            if name = ''desktop_notify'' \<and> (\<exists>out. fst (call_tool dk env name args) = Inr out)
            then [Toast (nr_title req) (nr_body req) (nr_icon req)] else []
        | None \<Rightarrow> [])"
proof (cases "read_tool_call name args")
  case (Inl e)
  then have none: "\<not> (\<exists>out. fst (call_tool dk env name args) = Inr out)" "snd (call_tool dk env name args) = []"
    by (simp_all add: call_tool_def)
  moreover from Inl have "\<not> (name = ''desktop_notify'' \<and> (\<exists>r. notify_request_of_json args = Some r))"
    "\<not> (name = ''desktop_launch_app'' \<and> (\<exists>r. launch_request_of_json args = Some r))"
    "\<not> (name = ''desktop_screenshot'' \<and> (\<exists>r. screenshot_request_of_json args = Some r))"
    using read_tool_call_cases [of name args] by (metis Inl_Inr_False)+
  ultimately show ?thesis by (auto split: option.split)
next
  case (Inr c)
  then have call: "call_tool dk env name args = run_tool dk env c" by (simp add: call_tool_def)
  from Inr [unfolded read_tool_call_cases] consider
      r where "name = ''desktop_notify''" "notify_request_of_json args = Some r" "c = NotifyCall r"
    | r where "name = ''desktop_launch_app''" "launch_request_of_json args = Some r" "c = LaunchCall r"
    | r where "name = ''desktop_screenshot''" "screenshot_request_of_json args = Some r" "c = ScreenshotCall r"
    by blast
  then show ?thesis
  proof cases
    case (1 r)
    then have "run_tool dk env c = apfst tool_outcome (desktop_notify (dk_dbus dk) r)" by simp
    with 1 show ?thesis unfolding call by (simp add: notify_succeeds_iff desktop_notify_events)
  next
    case (2 r)
    then have "run_tool dk env c = (tool_outcome (desktop_launch_app (te_spawn env) r), [])" by simp
    with 2 show ?thesis unfolding call by (simp add: launch_succeeds_iff split: option.split)
  next
    case (3 r)
    then have "run_tool dk env c =
        (tool_outcome (desktop_screenshot (te_capture env) (te_base64 env) (sr_target r)), [])" by simp
    with 3 show ?thesis unfolding call by (simp add: screenshot_succeeds_iff split: option.split)
  qed
qed

end
