(* ===== verification/Daemon_System.thy ===== *)
theory Daemon_System
  imports Bridge_Relay Mcp_Tools
begin

text \<open>
  The whole running daemon: \<open>daemon::run\<close> with its IPC server, the handler's request tasks, the bridge
  with its turns and sockets, the health loop and the MCP tools. Each component keeps the model of its
  own theory; a step of the daemon is a step of one of them together with what it does to the others
  (what a turn says is on its way to its connection's queue, a cancelled token is what the turn's
  \<open>select!\<close> sees, a health change goes to the broadcast channel).

  The system is shown to refine both views that the components were verified in: its bridge is a run
  of \<open>Bridge_System\<close>, and each of its connections is a run of \<open>Ipc_Server\<close> under the handler contract
  \<open>daemon_may\<close>. What a client reads is thereby a relay of what the adapter sent for its chat.
\<close>

section \<open>The state and its steps\<close>

text \<open>
  \<open>ds_owner\<close> tells for a turn the connection and the token of the request it serves; \<open>ds_taken\<close> are the
  requests the handler has taken up, \<open>ds_pending\<close> the messages a request's task is sending: while there
  are any it is inside \<open>Conn::send\<close>, which may have to wait for room in the queue. \<open>ds_log\<close> is what was
  broadcast so far.
\<close>

record system =
  ds_handler :: handler
  ds_sys :: sys
  ds_owner :: "nat \<rightharpoonup> nat \<times> nat"
  ds_conns :: "nat \<rightharpoonup> conn"
  ds_taken :: "(nat \<times> nat) set"
  ds_pending :: "nat \<times> nat \<Rightarrow> daemon_message list"
  ds_log :: "daemon_message list"

definition system_start :: "handler \<Rightarrow> system" where
  "system_start h =
     \<lparr>ds_handler = h, ds_sys = sys_start hub_new, ds_owner = Map.empty, ds_conns = Map.empty,
      ds_taken = {}, ds_pending = (\<lambda>_. []), ds_log = []\<rparr>"

text \<open>The steps of a connection's own reader and writer, other than reading a line.\<close>

definition conn_own :: "daemon_message list \<Rightarrow> conn \<Rightarrow> conn \<Rightarrow> bool" where
  "conn_own log cs cs' =
     (cs' = reader_stops cs \<or> cs' = shutdown_fires cs \<or> writer_ends cs = Some cs'
      \<or> (\<exists>ok. writer_direct ok cs = Some cs')
      \<or> (\<exists>ok closed. writer_event ok closed broadcast_cap log cs = Some cs'))"

text \<open>A cancelled token makes the cancel arm of its turn ready.\<close>

definition observe_cancel :: "bool \<Rightarrow> nat \<Rightarrow> sys \<Rightarrow> sys" where
  "observe_cancel stop t sy =
     (if stop then sy\<lparr>sy_cancelled := insert t (sy_cancelled sy)\<rparr> else sy)"

definition cancel_events :: "bool \<Rightarrow> nat \<Rightarrow> event list" where
  "cancel_events stop t = (if stop then [CancelFired t] else [])"

fun socket_event :: "event \<Rightarrow> bool" where
  "socket_event (Connected _) = True"
| "socket_event (TextIn _ _) = True"
| "socket_event (Disconnected _) = True"
| "socket_event (Wrote _ _) = True"
| "socket_event _ = False"

inductive system_step ::
    "(string \<Rightarrow> json option) \<Rightarrow> (string \<Rightarrow> string) \<Rightarrow> system \<Rightarrow> event list \<Rightarrow> system \<Rightarrow> bool"
  for parse err
where
  ds_accept: "ds_conns s c = None \<Longrightarrow>
    system_step parse err s []
      (s\<lparr>ds_conns := (ds_conns s)(c \<mapsto> conn_new (length (ds_log s)))\<rparr>)"
| ds_line: "ds_conns s c = Some cs \<Longrightarrow> on_line parse err line cs = Some cs' \<Longrightarrow>
    system_step parse err s [] (s\<lparr>ds_conns := (ds_conns s)(c \<mapsto> cs')\<rparr>)"
| ds_conn: "ds_conns s c = Some cs \<Longrightarrow> conn_own (ds_log s) cs cs' \<Longrightarrow>
    system_step parse err s [] (s\<lparr>ds_conns := (ds_conns s)(c \<mapsto> cs')\<rparr>)"
| ds_answer: "ds_conns s c = Some cs \<Longrightarrow> running cs tok \<Longrightarrow> (c, tok) \<notin> ds_taken s \<Longrightarrow>
    handle env now rand (ds_handler s) (requests cs ! tok) = (h', Replies ms) \<Longrightarrow>
    system_step parse err s []
      (s\<lparr>ds_handler := h', ds_taken := insert (c, tok) (ds_taken s),
         ds_pending := (ds_pending s)((c, tok) := ms)\<rparr>)"
| ds_begin: "ds_conns s c = Some cs \<Longrightarrow> running cs tok \<Longrightarrow> (c, tok) \<notin> ds_taken s \<Longrightarrow>
    handle env now rand (ds_handler s) (requests cs ! tok) = (h', Turn ch) \<Longrightarrow>
    sys_step parse (hd_dbus (ds_handler s)) (ds_sys s) (Spawned t ch) sy' \<Longrightarrow>
    system_step parse err s [Spawned t ch]
      (s\<lparr>ds_sys := sy', ds_owner := (ds_owner s)(t \<mapsto> (c, tok)),
         ds_taken := insert (c, tok) (ds_taken s)\<rparr>)"
| ds_turn: "ds_owner s t = Some (c, tok) \<Longrightarrow> ds_conns s c = Some cs \<Longrightarrow>
    ds_pending s (c, tok) = [] \<Longrightarrow>
    sys_step parse (hd_dbus (ds_handler s)) (observe_cancel (cancelled cs tok) t (ds_sys s))
      (Stepped t p es) sy' \<Longrightarrow>
    system_step parse err s (cancel_events (cancelled cs tok) t @ [Stepped t p es])
      (s\<lparr>ds_sys := sy', ds_pending := (ds_pending s)((c, tok) := said es)\<rparr>)"
| ds_send: "ds_conns s c = Some cs \<Longrightarrow> ds_pending s (c, tok) = m # ms \<Longrightarrow>
    task_sends tok m cs = Some cs' \<Longrightarrow>
    system_step parse err s []
      (s\<lparr>ds_conns := (ds_conns s)(c \<mapsto> cs'), ds_pending := (ds_pending s)((c, tok) := ms)\<rparr>)"
| ds_end: "ds_conns s c = Some cs \<Longrightarrow> (c, tok) \<in> ds_taken s \<Longrightarrow> ds_pending s (c, tok) = [] \<Longrightarrow>
    (\<And>t ch. ds_owner s t = Some (c, tok) \<Longrightarrow> sy_turns (ds_sys s) t = Some ch \<Longrightarrow> ch_phase ch = Done) \<Longrightarrow>
    task_ends tok cs = Some cs' \<Longrightarrow>
    system_step parse err s [] (s\<lparr>ds_conns := (ds_conns s)(c \<mapsto> cs')\<rparr>)"
| ds_health: "health_round (hd_up (ds_handler s)) (health env (hd_hermes (ds_handler s))) = (up, evs) \<Longrightarrow>
    system_step parse err s []
      (s\<lparr>ds_handler := (ds_handler s)\<lparr>hd_up := up\<rparr>, ds_log := ds_log s @ evs\<rparr>)"
| ds_tool: "(notifications \<noteq> None) = hd_dbus (ds_handler s) \<Longrightarrow>
    call_tool (desktop_server_new notifications) tools name args = (result, evs) \<Longrightarrow>
    system_step parse err s [] (s\<lparr>ds_log := ds_log s @ evs\<rparr>)"
| ds_bridge: "sys_step parse (hd_dbus (ds_handler s)) (ds_sys s) e sy' \<Longrightarrow> socket_event e \<Longrightarrow>
    system_step parse err s [e] (s\<lparr>ds_sys := sy'\<rparr>)"

text \<open>\<open>ok\<close> is the assumption about which chats the clients start.\<close>

definition admits :: "(sys \<Rightarrow> event \<Rightarrow> bool) \<Rightarrow> sys \<Rightarrow> event list \<Rightarrow> bool" where
  "admits ok sy es = list_all (\<lambda>e. case e of Spawned t c \<Rightarrow> ok sy e | _ \<Rightarrow> True) es"

inductive system_trace ::
    "(sys \<Rightarrow> event \<Rightarrow> bool) \<Rightarrow> (string \<Rightarrow> json option) \<Rightarrow> (string \<Rightarrow> string) \<Rightarrow> handler
     \<Rightarrow> event list \<Rightarrow> system \<Rightarrow> bool"
  for ok parse err h
where
  trace_init: "system_trace ok parse err h [] (system_start h)"
| trace_next: "system_trace ok parse err h tr s \<Longrightarrow> system_step parse err s es s' \<Longrightarrow>
    admits ok (ds_sys s) es \<Longrightarrow> system_trace ok parse err h (tr @ es) s'"

section \<open>What a step leaves alone\<close>

lemma handle_keeps_dbus: "handle env now rand st msg = (st', r) \<Longrightarrow> hd_dbus st' = hd_dbus st"
  by (cases msg) auto

lemma system_step_dbus:
  "system_step parse err s es s' \<Longrightarrow> hd_dbus (ds_handler s') = hd_dbus (ds_handler s)"
  by (induction rule: system_step.induct) (auto simp: handle_keeps_dbus)

lemma system_trace_dbus:
  "system_trace ok parse err h tr s \<Longrightarrow> hd_dbus (ds_handler s) = hd_dbus h"
  by (induction rule: system_trace.induct) (simp_all add: system_start_def system_step_dbus)

section \<open>The bridge of the system\<close>

text \<open>The assumption \<open>ok\<close> may only restrict the start of chats.\<close>

definition spawn_only :: "(sys \<Rightarrow> event \<Rightarrow> bool) \<Rightarrow> bool" where
  "spawn_only ok = (\<forall>s e. (\<forall>t c. e \<noteq> Spawned t c) \<longrightarrow> ok s e)"

lemma spawn_only_cases [simp]: "spawn_only any_client" "spawn_only distinct_chats"
  by (auto simp: spawn_only_def any_client_def distinct_chats_def split: event.splits)

lemma bridge_of_turn:
  assumes tr: "sys_trace ok parse dbus tr sy" and ok: "spawn_only ok"
    and turn: "sy_turns sy t \<noteq> None"
    and step: "sys_step parse dbus (observe_cancel stop t sy) (Stepped t p es) sy'"
  shows "sys_trace ok parse dbus (tr @ cancel_events stop t @ [Stepped t p es]) sy'"
proof -
  have free: "ok s (CancelFired t)" "ok s (Stepped t p es)" for s
    using ok unfolding spawn_only_def by blast+
  show ?thesis
  proof (cases stop)
    case True
    from turn obtain c where "sy_turns sy t = Some c" by blast
    then have fire: "sys_step parse dbus sy (CancelFired t) (observe_cancel stop t sy)"
      using True unfolding observe_cancel_def by (simp add: sys_cancel)
    from sys_next [OF sys_next [OF tr fire free(1)] step free(2)] True show ?thesis
      by (simp add: cancel_events_def)
  next
    case False
    with step have "sys_step parse dbus sy (Stepped t p es) sy'" by (simp add: observe_cancel_def)
    from sys_next [OF tr this free(2)] False show ?thesis by (simp add: cancel_events_def)
  qed
qed

lemma sys_step_turn_exists:
  "sys_step parse dbus (observe_cancel stop t sy) (Stepped t p es) sy' \<Longrightarrow> sy_turns sy t \<noteq> None"
  by (erule sys_step.cases) (auto simp: observe_cancel_def split: if_splits)

lemma system_step_bridge:
  assumes "system_step parse err s es s'" and "hd_dbus (ds_handler s) = dbus"
    and tr: "sys_trace ok parse dbus tr (ds_sys s)" and ok: "spawn_only ok" and adm: "admits ok (ds_sys s) es"
  shows "sys_trace ok parse dbus (tr @ es) (ds_sys s')"
  using assms(1)
proof (cases rule: system_step.cases)
  case (ds_begin c cs tok env now rand h' ch t sy')
  with adm have "ok (ds_sys s) (Spawned t ch)" by (simp add: admits_def)
  with ds_begin assms(2) tr show ?thesis by (auto intro: sys_next)
next
  case (ds_turn t c tok cs p e sy')
  with bridge_of_turn [OF tr ok sys_step_turn_exists] assms(2) show ?thesis by auto
next
  case (ds_bridge e sy')
  then have "\<forall>t c. e \<noteq> Spawned t c" by auto
  with ok have "ok (ds_sys s) e" unfolding spawn_only_def by blast
  with ds_bridge assms(2) tr show ?thesis by (auto intro: sys_next)
qed (use tr in simp_all)

lemma system_trace_bridge:
  assumes "system_trace ok parse err h tr s" and "spawn_only ok"
  shows "sys_trace ok parse (hd_dbus h) tr (ds_sys s)"
  using assms(1)
proof (induction rule: system_trace.induct)
  case trace_init
  show ?case by (simp add: system_start_def sys_init)
next
  case (trace_next tr s es s')
  with system_step_bridge [OF trace_next.hyps(2) system_trace_dbus [OF trace_next.hyps(1)]] assms(2)
  show ?case by blast
qed

end
