(* ===== verification/Daemon_Views.thy ===== *)
theory Daemon_Views
  imports Daemon_System
begin

text \<open>
  The connections of the running daemon. Each is a run of the IPC server under the contract
  \<open>daemon_may\<close>, and what a turn has said is exactly what its request's task has queued and is still
  sending; with the bridge
  view of \<open>Daemon_System\<close> this gives the chat client's view of the whole daemon.
\<close>

section \<open>Steps of one connection\<close>

lemma on_line_frame:
  assumes "on_line parse err line cs = Some cs'"
  shows "sent cs' = sent cs \<and> (\<exists>xs. requests cs' = requests cs @ xs)"
  using assms by (cases rule: on_line_cases) auto

lemma conn_own_step:
  "conn_own log cs cs' \<Longrightarrow> conn_step may log cs cs'"
  unfolding conn_own_def by (blast intro: conn_step.intros)

lemma conn_own_frame:
  assumes "conn_own log cs cs'"
  shows "sent cs' = sent cs \<and> requests cs' = requests cs"
proof -
  from assms consider "cs' = reader_stops cs" | "cs' = shutdown_fires cs" | "writer_ends cs = Some cs'"
    | ok where "writer_direct ok cs = Some cs'" | ok closed where "writer_event ok closed broadcast_cap log cs = Some cs'"
    unfolding conn_own_def by blast
  then show ?thesis
  proof cases
    case 3
    then have "cs' = cs\<lparr>outq := chan_drop_rx (outq cs)\<rparr>"
      by (simp add: writer_ends_def split: if_splits)
    then show ?thesis by simp
  next
    case 4
    then show ?thesis by (rule writer_direct_cases) simp
  next
    case 5
    then show ?thesis
      by (auto simp: writer_event_def Let_def split: if_splits prod.splits bcast_recv.splits)
  qed (simp_all add: reader_stops_def shutdown_fires_def)
qed

lemma task_ends_frame:
  "task_ends tok cs = Some cs' \<Longrightarrow> sent cs' = sent cs \<and> requests cs' = requests cs"
  by (auto simp: task_ends_def split: if_splits)

lemma task_sends_frame:
  assumes "task_sends tok m cs = Some cs'"
  shows "requests cs' = requests cs" and "sent cs' = (sent cs)(tok := sent cs tok @ [m])"
  using assms by (auto simp: task_sends_def dest!: conn_send_Some split: if_splits)

lemma conn_reach_log: "conn_reach may log cs \<Longrightarrow> conn_reach may (log @ evs) cs"
proof (induction evs rule: rev_induct)
  case (snoc e evs)
  from conn_reach.reach_bcast [OF snoc.IH [OF snoc.prems], of e] show ?case by simp
qed simp

section \<open>Requests and turns\<close>

text \<open>A connection's task serves a chat by a turn that has said \<open>out\<close>, of which \<open>p\<close> is still to be sent.\<close>

definition serves ::
    "bool \<Rightarrow> conn \<Rightarrow> nat \<Rightarrow> daemon_message list \<Rightarrow> chat \<Rightarrow> daemon_message list \<Rightarrow> bool" where
  "serves dbus cs tok p ch out =
     (tok < length (requests cs) \<and> sent cs tok @ p = out
      \<and> (\<exists>now rand rid session_id message es.
           requests cs ! tok = Chat rid session_id message
           \<and> chat_trace dbus (handle_chat now rand rid session_id message) es ch \<and> said es = out))"

lemma serves_frame:
  "serves dbus cs tok p ch out \<Longrightarrow> requests cs' = requests cs @ xs \<Longrightarrow>
     sent cs' tok @ p' = sent cs tok @ p \<Longrightarrow> serves dbus cs' tok p' ch out"
  unfolding serves_def by (auto simp: nth_append)

lemma serves_request:
  assumes "serves dbus cs tok p ch out"
  shows "\<exists>session_id message. requests cs ! tok = Chat (ch_request ch) session_id message"
proof -
  from assms obtain now rand rid session_id message es where
    "requests cs ! tok = Chat rid session_id message"
    and "chat_trace dbus (handle_chat now rand rid session_id message) es ch"
    unfolding serves_def by blast
  with chat_trace_turn [OF this(2)] show ?thesis by (auto simp: handle_chat_fields)
qed

text \<open>What a request's task is sending is within the contract of its handler.\<close>

definition sendable :: "conn \<Rightarrow> nat \<Rightarrow> daemon_message list \<Rightarrow> bool" where
  "sendable cs tok p =
     (\<forall>ms. ms \<noteq> [] \<and> prefix ms p \<longrightarrow> daemon_may (requests cs ! tok) (sent cs tok @ ms))"

lemma sendable_Nil [simp]: "sendable cs tok []"
  by (simp add: sendable_def)

lemma sendable_frame:
  "sendable cs tok p \<Longrightarrow> requests cs' = requests cs @ xs \<Longrightarrow> sent cs' tok = sent cs tok \<Longrightarrow>
     tok < length (requests cs) \<Longrightarrow> sendable cs' tok p"
  by (simp add: sendable_def nth_append)

lemma sendable_sends:
  assumes "sendable cs tok (m # ms)" and "task_sends tok m cs = Some cs'"
  shows "sendable cs' tok ms"
  unfolding sendable_def
proof (intro allI impI)
  fix ns :: "daemon_message list"
  assume "ns \<noteq> [] \<and> prefix ns ms"
  then have "m # ns \<noteq> [] \<and> prefix (m # ns) (m # ms)" by simp
  with assms(1) have "daemon_may (requests cs ! tok) (sent cs tok @ m # ns)" unfolding sendable_def by blast
  then show "daemon_may (requests cs' ! tok) (sent cs' tok @ ns)" by (simp add: task_sends_frame [OF assms(2)])
qed

lemma sendable_reach:
  assumes "sendable cs tok (m # ms)" and "task_sends tok m cs = Some cs'" and "conn_reach daemon_may log cs"
  shows "conn_reach daemon_may log cs'"
proof -
  have "[m] \<noteq> [] \<and> prefix [m] (m # ms)" by simp
  with assms(1) have "daemon_may (requests cs ! tok) (sent cs tok @ [m])" unfolding sendable_def by blast
  then show ?thesis by (intro reach_step [OF assms(3) conn_step.conn_reply [OF assms(2)]])
qed

text \<open>A step of the turn, with its message to be sent.\<close>

lemma daemon_may_turn:
  assumes "chat_trace dbus (handle_chat now rand rid session_id message) es ch"
  shows "daemon_may (Chat rid session_id message) (said es)"
  unfolding daemon_may_def
  by (rule exI [of _ undefined], rule exI [of _ now], rule exI [of _ rand],
      rule exI [of _ "handler_new undefined True dbus None"])
    (use assms in \<open>auto simp: handler_new_def\<close>)

lemma said_at_most_one: "chat_step dbus stop c h es c' h' \<Longrightarrow> length (said es) \<le> 1"
  by (drule chat_step_said) (auto split: if_splits)

lemma serves_step:
  assumes serves: "serves dbus cs tok [] ch out" and step: "chat_step dbus stop ch h es ch' h'"
  shows "serves dbus cs tok (said es) ch' (out @ said es) \<and> sendable cs tok (said es)"
proof -
  from serves obtain now rand rid session_id message fs where
    tok: "tok < length (requests cs)" "sent cs tok = out"
    and req: "requests cs ! tok = Chat rid session_id message"
    and tr: "chat_trace dbus (handle_chat now rand rid session_id message) fs ch" and out: "said fs = out"
    unfolding serves_def by auto
  from trace_step [OF tr step]
  have tr': "chat_trace dbus (handle_chat now rand rid session_id message) (fs @ es) ch'" .
  have may: "daemon_may (requests cs ! tok) (out @ said es)"
    using daemon_may_turn [OF tr'] by (simp add: req out)
  have "sendable cs tok (said es)"
    unfolding sendable_def
  proof (intro allI impI)
    fix ms :: "daemon_message list"
    assume "ms \<noteq> [] \<and> prefix ms (said es)"
    with said_at_most_one [OF step] have "ms = said es"
      by (cases "said es") (auto simp: prefix_Cons)
    with may tok show "daemon_may (requests cs ! tok) (sent cs tok @ ms)" by simp
  qed
  moreover have "said (fs @ es) = out @ said es" by (simp add: out)
  ultimately show ?thesis unfolding serves_def using tok req tr' by blast
qed

section \<open>The invariant of the running daemon\<close>

definition owners_ok :: "bool \<Rightarrow> event list \<Rightarrow> system \<Rightarrow> bool" where
  "owners_ok dbus tr s =
     (\<forall>t c tok. ds_owner s t = Some (c, tok) \<longrightarrow>
        (c, tok) \<in> ds_taken s
        \<and> (\<exists>cs ch. ds_conns s c = Some cs \<and> sy_turns (ds_sys s) t = Some ch
             \<and> serves dbus cs tok (ds_pending s (c, tok)) ch (said_by t tr)))"

definition unowned_ok :: "event list \<Rightarrow> system \<Rightarrow> bool" where
  "unowned_ok tr s =
     (\<forall>t. (ds_owner s t = None \<longleftrightarrow> sy_turns (ds_sys s) t = None)
        \<and> (ds_owner s t = None \<longrightarrow> said_by t tr = [])
        \<and> (\<forall>u p. ds_owner s t = Some p \<and> ds_owner s u = Some p \<longrightarrow> t = u))"

definition requests_ok :: "system \<Rightarrow> bool" where
  "requests_ok s =
     ((\<forall>c cs. ds_conns s c = Some cs \<longrightarrow> conn_reach daemon_may (ds_log s) cs)
      \<and> (\<forall>c tok. (c, tok) \<in> ds_taken s \<longrightarrow> (\<exists>cs. ds_conns s c = Some cs \<and> tok < length (requests cs)))
      \<and> (\<forall>c cs tok. ds_conns s c = Some cs \<and> (c, tok) \<notin> ds_taken s \<longrightarrow> sent cs tok = [])
      \<and> (\<forall>c cs tok. ds_conns s c = Some cs \<longrightarrow> sendable cs tok (ds_pending s (c, tok)))
      \<and> (\<forall>c tok. (c, tok) \<notin> ds_taken s \<longrightarrow> ds_pending s (c, tok) = []))"

definition views_inv :: "bool \<Rightarrow> event list \<Rightarrow> system \<Rightarrow> bool" where
  "views_inv dbus tr s = (owners_ok dbus tr s \<and> unowned_ok tr s \<and> requests_ok s)"

lemma owners_okD:
  assumes "owners_ok dbus tr s" and "ds_owner s t = Some (c, tok)"
  obtains cs ch where "(c, tok) \<in> ds_taken s" and "ds_conns s c = Some cs"
    and "sy_turns (ds_sys s) t = Some ch" and "serves dbus cs tok (ds_pending s (c, tok)) ch (said_by t tr)"
  using assms unfolding owners_ok_def by blast

lemma unowned_okD:
  assumes "unowned_ok tr s"
  shows "ds_owner s t = None \<longleftrightarrow> sy_turns (ds_sys s) t = None"
    and "ds_owner s t = None \<Longrightarrow> said_by t tr = []"
    and "ds_owner s t = Some p \<Longrightarrow> ds_owner s u = Some p \<Longrightarrow> t = u"
  using assms unfolding unowned_ok_def by blast+

lemma requests_okD:
  assumes "requests_ok s"
  shows "ds_conns s c = Some cs \<Longrightarrow> conn_reach daemon_may (ds_log s) cs"
    and "(c, tok) \<in> ds_taken s \<Longrightarrow> \<exists>cs. ds_conns s c = Some cs \<and> tok < length (requests cs)"
    and "ds_conns s c = Some cs \<Longrightarrow> (c, tok) \<notin> ds_taken s \<Longrightarrow> sent cs tok = []"
    and "ds_conns s c = Some cs \<Longrightarrow> sendable cs tok (ds_pending s (c, tok))"
    and "(c, tok) \<notin> ds_taken s \<Longrightarrow> ds_pending s (c, tok) = []"
  using assms unfolding requests_ok_def by blast+

lemma views_start: "views_inv dbus [] (system_start h)"
  by (simp add: views_inv_def owners_ok_def unowned_ok_def requests_ok_def system_start_def sys_start_def)

text \<open>
  A step of one connection: new requests may come, and what its tasks have sent and are sending stays,
  or is new.
\<close>

lemma owners_conn:
  assumes ok: "owners_ok dbus tr s" and c: "ds_conns s c = Some cs"
    and req: "requests cs' = requests cs @ xs"
    and snt: "\<And>tok. (c, tok) \<in> ds_taken s \<Longrightarrow>
      sent cs' tok @ ds_pending s' (c, tok) = sent cs tok @ ds_pending s (c, tok)"
    and oth: "\<And>d tok. d \<noteq> c \<Longrightarrow> ds_pending s' (d, tok) = ds_pending s (d, tok)"
    and s': "ds_owner s' = ds_owner s" "ds_taken s \<subseteq> ds_taken s'" "ds_sys s' = ds_sys s"
      "ds_conns s' = (ds_conns s)(c \<mapsto> cs')"
  shows "owners_ok dbus tr s'"
  unfolding owners_ok_def
proof (intro allI impI)
  fix t d tok
  assume "ds_owner s' t = Some (d, tok)"
  then have "ds_owner s t = Some (d, tok)" by (simp add: s')
  with ok obtain cs1 ch where *: "(d, tok) \<in> ds_taken s" "ds_conns s d = Some cs1"
    "sy_turns (ds_sys s) t = Some ch" "serves dbus cs1 tok (ds_pending s (d, tok)) ch (said_by t tr)"
    by (rule owners_okD)
  have "\<exists>cs2. ds_conns s' d = Some cs2 \<and> serves dbus cs2 tok (ds_pending s' (d, tok)) ch (said_by t tr)"
  proof (cases "d = c")
    case True
    with * c have "cs1 = cs" by simp
    have "sent cs' tok @ ds_pending s' (c, tok) = sent cs tok @ ds_pending s (c, tok)"
      using *(1) True by (intro snt) simp
    with serves_frame [OF *(4), of cs' xs] req True \<open>cs1 = cs\<close> show ?thesis by (simp add: s')
  next
    case False
    with * oth [OF False] show ?thesis by (simp add: s')
  qed
  with * s' show "(d, tok) \<in> ds_taken s' \<and> (\<exists>cs ch. ds_conns s' d = Some cs
      \<and> sy_turns (ds_sys s') t = Some ch \<and> serves dbus cs tok (ds_pending s' (d, tok)) ch (said_by t tr))"
    by auto
qed

lemma requests_conn:
  assumes ok: "requests_ok s" and c: "ds_conns s c = Some cs"
    and reach: "conn_reach daemon_may (ds_log s) cs'"
    and req: "requests cs' = requests cs @ xs"
    and snd: "\<And>tok. sendable cs' tok (ds_pending s' (c, tok))"
    and new: "\<And>tok. (c, tok) \<notin> ds_taken s' \<Longrightarrow> sent cs' tok = [] \<and> ds_pending s' (c, tok) = []"
    and oth: "\<And>d tok. d \<noteq> c \<Longrightarrow> ds_pending s' (d, tok) = ds_pending s (d, tok)"
    and s': "ds_taken s' = ds_taken s \<union> T" "ds_log s' = ds_log s" "ds_conns s' = (ds_conns s)(c \<mapsto> cs')"
    and T: "\<And>d tok. (d, tok) \<in> T \<Longrightarrow> d = c \<and> tok < length (requests cs)"
  shows "requests_ok s'"
  unfolding requests_ok_def
proof (intro conjI allI impI)
  fix d cs1
  assume "ds_conns s' d = Some cs1"
  then show "conn_reach daemon_may (ds_log s') cs1"
    using requests_okD(1) [OF ok] reach by (auto simp: s' split: if_splits)
next
  fix d tok
  assume "(d, tok) \<in> ds_taken s'"
  then show "\<exists>cs1. ds_conns s' d = Some cs1 \<and> tok < length (requests cs1)"
    using requests_okD(2) [OF ok, of d tok] T [of d tok] c req by (auto simp: s')
next
  fix d cs1 tok
  assume "ds_conns s' d = Some cs1 \<and> (d, tok) \<notin> ds_taken s'"
  then show "sent cs1 tok = []"
    using requests_okD(3) [OF ok, of d cs1 tok] new [of tok] by (auto simp: s' split: if_splits)
next
  fix d cs1 tok
  assume "ds_conns s' d = Some cs1"
  then show "sendable cs1 tok (ds_pending s' (d, tok))"
    using requests_okD(4) [OF ok, of d cs1 tok] snd [of tok] oth [of d tok] by (cases "d = c") (simp_all add: s')
next
  fix d tok
  assume "(d, tok) \<notin> ds_taken s'"
  then show "ds_pending s' (d, tok) = []"
    using requests_okD(5) [OF ok, of d tok] new [of tok] oth [of d tok] by (cases "d = c") (simp_all add: s')
qed

lemma unowned_same:
  assumes "unowned_ok tr s" and "ds_owner s' = ds_owner s" and "ds_sys s' = ds_sys s"
  shows "unowned_ok tr s'"
  using assms by (simp add: unowned_ok_def)

text \<open>A connection moves and nothing of its tasks does.\<close>

lemma views_conn:
  assumes inv: "views_inv dbus tr s" and c: "ds_conns s c = Some cs"
    and reach: "conn_reach daemon_may (ds_log s) cs'"
    and req: "requests cs' = requests cs @ xs" and snt: "sent cs' = sent cs"
  shows "views_inv dbus tr (s\<lparr>ds_conns := (ds_conns s)(c \<mapsto> cs')\<rparr>)"
    (is "views_inv dbus tr ?s")
proof -
  from inv have ok: "owners_ok dbus tr s" "unowned_ok tr s" "requests_ok s" by (simp_all add: views_inv_def)
  have snd: "sendable cs' tok (ds_pending s (c, tok))" for tok
  proof (cases "(c, tok) \<in> ds_taken s")
    case True
    with requests_okD(2) [OF ok(3) True] c have "tok < length (requests cs)" by auto
    with sendable_frame [OF requests_okD(4) [OF ok(3) c] req] snt show ?thesis by simp
  next
    case False
    with requests_okD(5) [OF ok(3) False] show ?thesis by simp
  qed
  have "owners_ok dbus tr ?s"
    by (rule owners_conn [OF ok(1) c req]) (use snt in simp_all)
  moreover have "requests_ok ?s"
    by (rule requests_conn [OF ok(3) c reach req, of _ "{}"])
      (use snt snd requests_okD(3) [OF ok(3) c] requests_okD(5) [OF ok(3)] in auto)
  ultimately show ?thesis using unowned_same [OF ok(2), of ?s] by (simp add: views_inv_def)
qed

text \<open>A task's message gets its place in the queue.\<close>

lemma views_send:
  assumes inv: "views_inv dbus tr s" and c: "ds_conns s c = Some cs"
    and p: "ds_pending s (c, tok) = m # ms" and q: "task_sends tok m cs = Some cs'"
  shows "views_inv dbus tr
      (s\<lparr>ds_conns := (ds_conns s)(c \<mapsto> cs'), ds_pending := (ds_pending s)((c, tok) := ms)\<rparr>)"
    (is "views_inv dbus tr ?s")
proof -
  from inv have ok: "owners_ok dbus tr s" "unowned_ok tr s" "requests_ok s" by (simp_all add: views_inv_def)
  note frame = task_sends_frame [OF q]
  have snd: "sendable cs tok (m # ms)" using requests_okD(4) [OF ok(3) c, of tok] by (simp add: p)
  have taken: "(c, tok) \<in> ds_taken s" using requests_okD(5) [OF ok(3), of c tok] p by force
  have snd': "sendable cs' tk (ds_pending ?s (c, tk))" for tk
  proof (cases "tk = tok")
    case True
    with sendable_sends [OF snd q] show ?thesis by simp
  next
    case False
    with requests_okD(4) [OF ok(3) c, of tk] frame show ?thesis by (simp add: sendable_def)
  qed
  have "owners_ok dbus tr ?s"
    by (rule owners_conn [OF ok(1) c, of _ "[]"]) (use frame p in auto)
  moreover have "requests_ok ?s"
    by (rule requests_conn [OF ok(3) c sendable_reach [OF snd q requests_okD(1) [OF ok(3) c]], of "[]" _ "{}"])
      (use frame snd' taken requests_okD(3) [OF ok(3) c] requests_okD(5) [OF ok(3)] in auto)
  ultimately show ?thesis using unowned_same [OF ok(2), of ?s] by (simp add: views_inv_def)
qed

text \<open>A query is answered.\<close>

lemma daemon_may_replies:
  "handle env now rand st msg = (st', Replies ms) \<Longrightarrow> prefix out ms \<Longrightarrow> daemon_may msg out"
  unfolding daemon_may_def
  by (rule exI [of _ env], rule exI [of _ now], rule exI [of _ rand], rule exI [of _ st]) simp

lemma running_bound: "conn_reach may log cs \<Longrightarrow> running cs tok \<Longrightarrow> tok < length (requests cs)"
  using conn_reach_inv [of may log cs] by (simp add: conn_inv_def)

lemma views_answer:
  assumes inv: "views_inv dbus tr s" and c: "ds_conns s c = Some cs" and run: "running cs tok"
    and fresh: "(c, tok) \<notin> ds_taken s"
    and h: "handle env now rand (ds_handler s) (requests cs ! tok) = (h', Replies ms)"
  shows "views_inv dbus tr
      (s\<lparr>ds_handler := h', ds_taken := insert (c, tok) (ds_taken s),
         ds_pending := (ds_pending s)((c, tok) := ms)\<rparr>)"
    (is "views_inv dbus tr ?s")
proof -
  from inv have ok: "owners_ok dbus tr s" "unowned_ok tr s" "requests_ok s" by (simp_all add: views_inv_def)
  note reach = requests_okD(1) [OF ok(3) c]
  have none: "sent cs tok = []" by (rule requests_okD(3) [OF ok(3) c fresh])
  have conns: "ds_conns ?s = (ds_conns s)(c \<mapsto> cs)" using c by (simp add: fun_upd_idem)
  have "sendable cs tk (ds_pending ?s (c, tk))" for tk
    using requests_okD(4) [OF ok(3) c, of tk]
    by (cases "tk = tok") (simp_all add: sendable_def none daemon_may_replies [OF h])
  then have "requests_ok ?s"
    by (intro requests_conn [OF ok(3) c reach, of "[]" ?s "{(c, tok)}"])
      (use conns running_bound [OF reach run] requests_okD(3) [OF ok(3) c] requests_okD(5) [OF ok(3)] in auto)
  moreover have "owners_ok dbus tr ?s"
    by (rule owners_conn [OF ok(1) c, of cs "[]"]) (use conns fresh in auto)
  moreover have "unowned_ok tr ?s" using ok(2) by (simp add: unowned_ok_def)
  ultimately show ?thesis by (simp add: views_inv_def)
qed

text \<open>A chat is taken up.\<close>

lemma spawned_step:
  "sys_step parse dbus sy (Spawned t ch) sy' \<Longrightarrow>
     sy_turns sy t = None \<and> sy' = sy\<lparr>sy_turns := (sy_turns sy)(t \<mapsto> ch)\<rparr>"
  by (erule sys_step.cases) auto

lemma said_by_spawned [simp]: "said_by u (tr @ [Spawned t ch]) = said_by u tr"
  by (simp add: event_said_def)

lemma views_begin:
  assumes inv: "views_inv dbus tr s" and c: "ds_conns s c = Some cs" and run: "running cs tok"
    and fresh: "(c, tok) \<notin> ds_taken s"
    and h: "handle env now rand (ds_handler s) (requests cs ! tok) = (h', Turn ch)"
    and step: "sys_step parse dbus' (ds_sys s) (Spawned t ch) sy'"
  shows "views_inv dbus (tr @ [Spawned t ch])
      (s\<lparr>ds_sys := sy', ds_owner := (ds_owner s)(t \<mapsto> (c, tok)), ds_taken := insert (c, tok) (ds_taken s)\<rparr>)"
    (is "views_inv dbus ?tr ?s")
proof -
  from inv have ok: "owners_ok dbus tr s" "unowned_ok tr s" "requests_ok s" by (simp_all add: views_inv_def)
  from spawned_step [OF step] have new: "sy_turns (ds_sys s) t = None"
    and sy': "sy' = (ds_sys s)\<lparr>sy_turns := (sy_turns (ds_sys s))(t \<mapsto> ch)\<rparr>" by simp_all
  with unowned_okD(1) [OF ok(2)] have free: "ds_owner s t = None" by simp
  note bound = running_bound [OF requests_okD(1) [OF ok(3) c] run]
  have "snd (handle env now rand (ds_handler s) (requests cs ! tok)) = Turn ch" by (simp add: h)
  then obtain r sid m where req: "requests cs ! tok = Chat r sid m" and ch: "ch = handle_chat now rand r sid m"
    by (auto simp: handle_turn)
  have none: "ds_pending s (c, tok) = []" by (rule requests_okD(5) [OF ok(3) fresh])
  have "serves dbus cs tok [] ch []"
    unfolding serves_def
    using bound requests_okD(3) [OF ok(3) c fresh] req trace_start [of dbus ch] ch by force
  then have mine: "serves dbus cs tok (ds_pending s (c, tok)) ch (said_by t ?tr)"
    using unowned_okD(2) [OF ok(2) free] by (simp add: event_said_def none)
  have "owners_ok dbus ?tr ?s"
    unfolding owners_ok_def
  proof (intro allI impI)
    fix u d tk
    assume u: "ds_owner ?s u = Some (d, tk)"
    show "(d, tk) \<in> ds_taken ?s \<and> (\<exists>cs ch. ds_conns ?s d = Some cs
        \<and> sy_turns (ds_sys ?s) u = Some ch \<and> serves dbus cs tk (ds_pending ?s (d, tk)) ch (said_by u ?tr))"
    proof (cases "u = t")
      case True
      with u c mine sy' show ?thesis by auto
    next
      case False
      with u have "ds_owner s u = Some (d, tk)" by simp
      then obtain cs1 ch1 where "(d, tk) \<in> ds_taken s" "ds_conns s d = Some cs1"
        "sy_turns (ds_sys s) u = Some ch1" "serves dbus cs1 tk (ds_pending s (d, tk)) ch1 (said_by u tr)"
        by (rule owners_okD [OF ok(1)])
      with False sy' show ?thesis by (simp add: event_said_def)
    qed
  qed
  moreover have "unowned_ok ?tr ?s"
  proof -
    have other: "ds_owner s u \<noteq> Some (c, tok)" for u
      using owners_okD [OF ok(1), of u c tok] fresh by blast
    show ?thesis
      unfolding unowned_ok_def
    proof (intro allI conjI impI)
      fix u
      show "(ds_owner ?s u = None) = (sy_turns (ds_sys ?s) u = None)"
        using unowned_okD(1) [OF ok(2), of u] sy' by simp
    next
      fix u
      assume "ds_owner ?s u = None"
      then show "said_by u ?tr = []"
        using unowned_okD(2) [OF ok(2), of u] by (simp add: event_said_def split: if_splits)
    next
      fix u v p
      assume "ds_owner ?s u = Some p \<and> ds_owner ?s v = Some p"
      then show "u = v"
        using unowned_okD(3) [OF ok(2), of u p v] other by (auto split: if_splits)
    qed
  qed
  moreover have "requests_ok ?s"
    using ok(3) c bound by (auto simp: requests_ok_def)
  ultimately show ?thesis by (simp add: views_inv_def)
qed

text \<open>A turn makes a step, and what it says is to be sent.\<close>

lemma stepped_step:
  assumes "sys_step parse dbus sy (Stepped t p es) sy'"
  obtains ch ch' h' where "sy_turns sy t = Some ch"
    and "chat_step dbus (t \<in> sy_cancelled sy) ch (sy_hub sy) es ch' h'"
    and "sy_turns sy' = (sy_turns sy)(t \<mapsto> ch')"
  using assms by (rule sys_step.cases) auto

lemma observe_cancel_turns [simp]: "sy_turns (observe_cancel stop t sy) = sy_turns sy"
  by (simp add: observe_cancel_def)

lemma said_by_stepped [simp]:
  "said_by u (tr @ cancel_events stop t @ [Stepped t p es]) =
     said_by u tr @ (if u = t then said es else [])"
  by (simp add: said_by_def event_said_def cancel_events_def)

lemma views_turn:
  assumes inv: "views_inv dbus tr s" and owner: "ds_owner s t = Some (c, tok)"
    and c: "ds_conns s c = Some cs" and idle: "ds_pending s (c, tok) = []"
    and step: "sys_step parse dbus (observe_cancel stop t (ds_sys s)) (Stepped t p es) sy'"
  shows "views_inv dbus (tr @ cancel_events stop t @ [Stepped t p es])
      (s\<lparr>ds_sys := sy', ds_pending := (ds_pending s)((c, tok) := said es)\<rparr>)"
    (is "views_inv dbus ?tr ?s")
proof -
  from inv have ok: "owners_ok dbus tr s" "unowned_ok tr s" "requests_ok s" by (simp_all add: views_inv_def)
  obtain ch ch' h' where turn: "sy_turns (observe_cancel stop t (ds_sys s)) t = Some ch"
    and cstep: "chat_step dbus (t \<in> sy_cancelled (observe_cancel stop t (ds_sys s))) ch
        (sy_hub (observe_cancel stop t (ds_sys s))) es ch' h'"
    and turns: "sy_turns sy' = (sy_turns (observe_cancel stop t (ds_sys s)))(t \<mapsto> ch')"
    by (rule stepped_step [OF step])
  from turn have ch: "sy_turns (ds_sys s) t = Some ch" by simp
  from turns have sy': "sy_turns sy' = (sy_turns (ds_sys s))(t \<mapsto> ch')" by simp
  from owners_okD [OF ok(1) owner] c ch idle have taken: "(c, tok) \<in> ds_taken s"
    and srv: "serves dbus cs tok [] ch (said_by t tr)" by auto
  from serves_step [OF srv cstep] have srv': "serves dbus cs tok (said es) ch' (said_by t tr @ said es)"
    and snd: "sendable cs tok (said es)" by blast+
  have "owners_ok dbus ?tr ?s"
    unfolding owners_ok_def
  proof (intro allI impI)
    fix u d tk
    assume "ds_owner ?s u = Some (d, tk)"
    then have u: "ds_owner s u = Some (d, tk)" by simp
    show "(d, tk) \<in> ds_taken ?s \<and> (\<exists>cs ch. ds_conns ?s d = Some cs
        \<and> sy_turns (ds_sys ?s) u = Some ch \<and> serves dbus cs tk (ds_pending ?s (d, tk)) ch (said_by u ?tr))"
    proof (cases "u = t")
      case True
      with u owner have "d = c" "tk = tok" by simp_all
      with True taken srv' sy' c show ?thesis by simp
    next
      case False
      obtain cs1 ch1 where *: "(d, tk) \<in> ds_taken s" "ds_conns s d = Some cs1"
        "sy_turns (ds_sys s) u = Some ch1" "serves dbus cs1 tk (ds_pending s (d, tk)) ch1 (said_by u tr)"
        by (rule owners_okD [OF ok(1) u])
      have "(d, tk) \<noteq> (c, tok)" using unowned_okD(3) [OF ok(2) u] owner False by auto
      then have "ds_pending ?s (d, tk) = ds_pending s (d, tk)" by auto
      with * False sy' show ?thesis by simp
    qed
  qed
  moreover have "unowned_ok ?tr ?s"
    using ok(2) owner sy' ch by (auto simp: unowned_ok_def)
  moreover have "requests_ok ?s"
  proof -
    have conns: "ds_conns ?s = (ds_conns s)(c \<mapsto> cs)" using c by (simp add: fun_upd_idem)
    have "sendable cs tk (ds_pending ?s (c, tk))" for tk
      using requests_okD(4) [OF ok(3) c, of tk] snd by (cases "tk = tok") simp_all
    then show ?thesis
      by (intro requests_conn [OF ok(3) c requests_okD(1) [OF ok(3) c], of "[]" ?s "{}"])
        (use conns taken requests_okD(3) [OF ok(3) c] requests_okD(5) [OF ok(3)] in auto)
  qed
  ultimately show ?thesis by (simp add: views_inv_def)
qed

text \<open>The bridge task's own events leave the turns alone.\<close>

lemma socket_step_turns:
  "sys_step parse dbus sy e sy' \<Longrightarrow> socket_event e \<Longrightarrow> sy_turns sy' = sy_turns sy"
  by (erule sys_step.cases) (auto split: prod.splits)

lemma socket_said: "socket_event e \<Longrightarrow> event_said u e = []"
  by (cases e) (simp_all add: event_said_def)

lemma views_bridge:
  assumes inv: "views_inv dbus tr s" and step: "sys_step parse dbus' (ds_sys s) e sy'"
    and e: "socket_event e"
  shows "views_inv dbus (tr @ [e]) (s\<lparr>ds_sys := sy'\<rparr>)"
  using inv socket_step_turns [OF step e] socket_said [OF e]
  by (simp add: views_inv_def owners_ok_def unowned_ok_def requests_ok_def)

text \<open>What is broadcast changes no connection.\<close>

lemma views_log:
  assumes inv: "views_inv dbus tr s" and s': "s' = s\<lparr>ds_handler := h, ds_log := ds_log s @ evs\<rparr>"
  shows "views_inv dbus tr s'"
  using inv conn_reach_log
  by (auto simp: views_inv_def owners_ok_def unowned_ok_def requests_ok_def s')

lemma views_accept:
  assumes inv: "views_inv dbus tr s" and c: "ds_conns s c = None"
  shows "views_inv dbus tr (s\<lparr>ds_conns := (ds_conns s)(c \<mapsto> conn_new (length (ds_log s)))\<rparr>)"
    (is "views_inv dbus tr ?s")
proof -
  from inv have ok: "owners_ok dbus tr s" "unowned_ok tr s" "requests_ok s" by (simp_all add: views_inv_def)
  have old: "d \<noteq> c" if "(d, tok) \<in> ds_taken s" for d tok
    using requests_okD(2) [OF ok(3) that] c by auto
  have "owners_ok dbus tr ?s"
    unfolding owners_ok_def
  proof (intro allI impI)
    fix t d tok
    assume "ds_owner ?s t = Some (d, tok)"
    then have "ds_owner s t = Some (d, tok)" by simp
    then obtain cs ch where "(d, tok) \<in> ds_taken s" "ds_conns s d = Some cs"
      "sy_turns (ds_sys s) t = Some ch" "serves dbus cs tok (ds_pending s (d, tok)) ch (said_by t tr)"
      by (rule owners_okD [OF ok(1)])
    then show "(d, tok) \<in> ds_taken ?s \<and> (\<exists>cs ch. ds_conns ?s d = Some cs
        \<and> sy_turns (ds_sys ?s) t = Some ch \<and> serves dbus cs tok (ds_pending ?s (d, tok)) ch (said_by t tr))"
      using old by simp
  qed
  moreover have "unowned_ok tr ?s" by (rule unowned_same [OF ok(2)]) simp_all
  moreover have "ds_pending s (c, tok) = []" for tok
    using requests_okD(5) [OF ok(3), of c tok] old by blast
  then have "requests_ok ?s"
    using ok(3) old reach_new by (auto simp: requests_ok_def conn_new_def)
  ultimately show ?thesis by (simp add: views_inv_def)
qed

lemma system_step_views:
  assumes "system_step parse err s es s'" and inv: "views_inv dbus tr s"
    and dbus: "hd_dbus (ds_handler s) = dbus"
  shows "views_inv dbus (tr @ es) s'"
  using assms(1)
proof (cases rule: system_step.cases)
  case (ds_accept c)
  with views_accept [OF inv] show ?thesis by simp
next
  case (ds_line c cs line cs')
  from inv have "requests_ok s" by (simp add: views_inv_def)
  from requests_okD(1) [OF this ds_line(3)] ds_line(4) have "conn_reach daemon_may (ds_log s) cs'"
    by (blast intro: conn_reach.intros conn_step.intros)
  with on_line_frame [OF ds_line(4)] views_conn [OF inv ds_line(3)] ds_line show ?thesis by auto
next
  case (ds_conn c cs cs')
  from inv have "requests_ok s" by (simp add: views_inv_def)
  from requests_okD(1) [OF this ds_conn(3)] conn_own_step [OF ds_conn(4)]
  have "conn_reach daemon_may (ds_log s) cs'" by (rule reach_step)
  with conn_own_frame [OF ds_conn(4)] views_conn [OF inv ds_conn(3), of cs' "[]"] ds_conn
  show ?thesis by simp
next
  case (ds_answer c cs tok env now rand h' ms)
  with views_answer [OF inv] show ?thesis by simp
next
  case (ds_begin c cs tok env now rand h' ch t sy')
  with views_begin [OF inv] show ?thesis by simp
next
  case (ds_turn t c tok cs p e sy')
  with views_turn [OF inv ds_turn(3-5)] dbus show ?thesis by simp
next
  case (ds_send c cs tok m ms cs')
  with views_send [OF inv] show ?thesis by simp
next
  case (ds_end c cs tok cs')
  from inv have "requests_ok s" by (simp add: views_inv_def)
  from requests_okD(1) [OF this ds_end(3)] ds_end(7)
  have "conn_reach daemon_may (ds_log s) cs'" by (blast intro: conn_reach.intros conn_step.intros)
  with task_ends_frame [OF ds_end(7)] views_conn [OF inv ds_end(3), of cs' "[]"] ds_end
  show ?thesis by simp
next
  case (ds_health env up evs)
  with views_log [OF inv] show ?thesis by simp
next
  case (ds_tool notifications tools name args result evs)
  then have "s' = s\<lparr>ds_handler := ds_handler s, ds_log := ds_log s @ evs\<rparr>" by simp
  from views_log [OF inv this] ds_tool(1) show ?thesis by simp
next
  case (ds_bridge e sy')
  with views_bridge [OF inv] show ?thesis by simp
qed

lemma system_trace_views:
  assumes "system_trace ok parse err h tr s"
  shows "views_inv (hd_dbus h) tr s"
  using assms
proof (induction rule: system_trace.induct)
  case trace_init
  show ?case by (rule views_start)
next
  case (trace_next tr s es s')
  from system_step_views [OF trace_next.hyps(2) trace_next.IH system_trace_dbus [OF trace_next.hyps(1)]]
  show ?case .
qed

end
