(* ===== verification/Daemon_Relay.thy ===== *)
theory Daemon_Relay
  imports Daemon_Views
begin

text \<open>
  The guarantees of the running daemon: its bridge and its connections are runs of the component models,
  a chat's client reads a relay of what the adapter sent for its chat, and it is told that its request
  was cancelled only if it was.
\<close>

section \<open>Cancels\<close>

text \<open>No step of a connection takes a cancel back.\<close>

lemma cancelled_line:
  "on_line parse err line cs = Some cs' \<Longrightarrow> cancelled cs tok \<Longrightarrow> cancelled cs' tok"
  by (erule on_line_cases) (auto simp: cancel_request_def split: option.splits)

lemma cancelled_own:
  assumes "conn_own log cs cs'" and "cancelled cs tok"
  shows "cancelled cs' tok"
proof -
  from assms(1) consider "cs' = reader_stops cs" | "cs' = shutdown_fires cs" | "writer_ends cs = Some cs'"
    | ok where "writer_direct ok cs = Some cs'" | ok closed where "writer_event ok closed broadcast_cap log cs = Some cs'"
    unfolding conn_own_def by blast
  then show ?thesis
  proof cases
    case 4
    then show ?thesis by (rule writer_direct_cases) (simp add: assms)
  qed (use assms(2) in \<open>auto simp: reader_stops_def shutdown_fires_def writer_ends_def writer_event_def
        Let_def split: if_splits prod.splits bcast_recv.splits\<close>)
qed

lemma cancelled_sends: "task_sends tok m cs = Some cs' \<Longrightarrow> cancelled cs' = cancelled cs"
  by (auto simp: task_sends_def dest!: conn_send_Some split: if_splits)

lemma cancelled_ends: "task_ends tok cs = Some cs' \<Longrightarrow> cancelled cs' = cancelled cs"
  by (auto simp: task_ends_def split: if_splits)

text \<open>A turn says that it was cancelled only when it saw a cancel.\<close>

definition cancel_told :: "daemon_message list \<Rightarrow> bool" where
  "cancel_told ms = (\<exists>rid. Error (Some rid) ''cancelled'' \<in> set ms)"

lemma cancel_told_append [simp]: "cancel_told (ms @ ns) = (cancel_told ms \<or> cancel_told ns)"
  by (auto simp: cancel_told_def)

lemma chat_step_cancelled:
  assumes "chat_step dbus stop c h es c' h'" and "cancel_told (said es)"
  shows stop
  using assms
  by (cases rule: chat_step.cases)
    (auto simp: chat_reject_def chat_frame_def frame_arm_def send_error_def cancel_told_def Let_def
      case_prod_beta split: recv.splits from_adapter.splits if_splits)

definition cancels_ok :: "event list \<Rightarrow> system \<Rightarrow> bool" where
  "cancels_ok tr s =
     (\<forall>t. t \<in> sy_cancelled (ds_sys s) \<or> cancel_told (said_by t tr) \<longrightarrow>
        (\<exists>c tok cs. ds_owner s t = Some (c, tok) \<and> ds_conns s c = Some cs \<and> cancelled cs tok))"

lemma cancels_okD:
  assumes "cancels_ok tr s" and "t \<in> sy_cancelled (ds_sys s) \<or> cancel_told (said_by t tr)"
  obtains c tok cs where "ds_owner s t = Some (c, tok)" and "ds_conns s c = Some cs" and "cancelled cs tok"
  using assms unfolding cancels_ok_def by blast

text \<open>A step that cancels no turn and makes none say so.\<close>

lemma cancels_keep:
  assumes ok: "cancels_ok tr s"
    and told: "\<And>t. cancel_told (said_by t tr') \<Longrightarrow> cancel_told (said_by t tr)"
    and sys: "sy_cancelled (ds_sys s') = sy_cancelled (ds_sys s)"
    and own: "\<And>t p. ds_owner s t = Some p \<Longrightarrow> ds_owner s' t = Some p"
    and conns: "\<And>c cs tok. ds_conns s c = Some cs \<Longrightarrow> cancelled cs tok \<Longrightarrow>
      \<exists>cs'. ds_conns s' c = Some cs' \<and> cancelled cs' tok"
  shows "cancels_ok tr' s'"
  unfolding cancels_ok_def
proof (intro allI impI)
  fix t
  assume "t \<in> sy_cancelled (ds_sys s') \<or> cancel_told (said_by t tr')"
  then have "t \<in> sy_cancelled (ds_sys s) \<or> cancel_told (said_by t tr)" using sys told by auto
  then obtain c tok cs where "ds_owner s t = Some (c, tok)" "ds_conns s c = Some cs" "cancelled cs tok"
    by (rule cancels_okD [OF ok])
  with own conns show "\<exists>c tok cs. ds_owner s' t = Some (c, tok) \<and> ds_conns s' c = Some cs \<and> cancelled cs tok"
    by blast
qed

lemma socket_step_cancelled:
  "sys_step parse dbus sy e sy' \<Longrightarrow> socket_event e \<Longrightarrow> sy_cancelled sy' = sy_cancelled sy"
  by (erule sys_step.cases) (auto split: prod.splits)

lemma stepped_cancelled:
  assumes "sys_step parse dbus sy (Stepped t p es) sy'"
  shows "sy_cancelled sy' = sy_cancelled sy \<and> (cancel_told (said es) \<longrightarrow> t \<in> sy_cancelled sy)"
  using assms
proof (cases rule: sys_step.cases)
  case (sys_turn c c' h')
  with chat_step_cancelled [of dbus "t \<in> sy_cancelled sy" c "sy_hub sy" es c' h'] show ?thesis by simp
qed

lemma cancels_turn:
  assumes ok: "cancels_ok tr s" and owner: "ds_owner s t = Some (c, tok)" and c: "ds_conns s c = Some cs"
    and step: "sys_step parse dbus (observe_cancel (cancelled cs tok) t (ds_sys s)) (Stepped t p es) sy'"
  shows "cancels_ok (tr @ cancel_events (cancelled cs tok) t @ [Stepped t p es])
      (s\<lparr>ds_sys := sy', ds_pending := q\<rparr>)"
    (is "cancels_ok ?tr ?s")
  unfolding cancels_ok_def
proof (intro allI impI)
  fix u
  assume u: "u \<in> sy_cancelled (ds_sys ?s) \<or> cancel_told (said_by u ?tr)"
  have grown: "sy_cancelled sy' = sy_cancelled (ds_sys s) \<union> (if cancelled cs tok then {t} else {})"
    using stepped_cancelled [OF step] by (simp add: observe_cancel_def)
  have here: "t \<in> sy_cancelled (ds_sys s) \<or> cancelled cs tok" if "cancel_told (said es)"
    using stepped_cancelled [OF step] that by (simp add: observe_cancel_def split: if_splits)
  show "\<exists>d tk cs1. ds_owner ?s u = Some (d, tk) \<and> ds_conns ?s d = Some cs1 \<and> cancelled cs1 tk"
  proof (cases "u = t \<and> cancelled cs tok")
    case True
    with owner c show ?thesis by simp
  next
    case False
    have "u \<in> sy_cancelled sy' \<or> cancel_told (said_by u tr) \<or> (u = t \<and> cancel_told (said es))"
      using u by (cases "u = t") auto
    with grown False here have "u \<in> sy_cancelled (ds_sys s) \<or> cancel_told (said_by u tr)"
      by (cases "cancelled cs tok") auto
    then obtain d tk cs1 where "ds_owner s u = Some (d, tk)" "ds_conns s d = Some cs1" "cancelled cs1 tk"
      by (rule cancels_okD [OF ok])
    then show ?thesis by simp
  qed
qed

lemma cancels_conn:
  assumes "cancels_ok tr s" and "ds_conns s c = Some cs"
    and "\<And>tok. cancelled cs tok \<Longrightarrow> cancelled cs' tok"
    and "ds_conns s' = (ds_conns s)(c \<mapsto> cs')" "ds_owner s' = ds_owner s" "ds_sys s' = ds_sys s"
  shows "cancels_ok tr s'"
  by (rule cancels_keep [OF assms(1)]) (use assms(2-) in \<open>auto split: if_splits\<close>)

lemma system_step_cancels:
  assumes "system_step parse err s es s'" and ok: "cancels_ok tr s" and views: "views_inv dbus tr s"
  shows "cancels_ok (tr @ es) s'"
  using assms(1)
proof (cases rule: system_step.cases)
  case (ds_accept c)
  then show ?thesis by (intro cancels_keep [OF ok]) auto
next
  case (ds_line c cs line cs')
  with cancels_conn [OF ok ds_line(3) cancelled_line [OF ds_line(4)]] show ?thesis by simp
next
  case (ds_conn c cs cs')
  with cancels_conn [OF ok ds_conn(3) cancelled_own [OF ds_conn(4)]] show ?thesis by simp
next
  case (ds_answer c cs tok env now rand h' ms)
  then show ?thesis by (intro cancels_keep [OF ok]) auto
next
  case (ds_begin c cs tok env now rand h' ch t sy')
  from spawned_step [OF ds_begin(7)] have new: "sy_turns (ds_sys s) t = None"
    and sy': "sy_cancelled sy' = sy_cancelled (ds_sys s)" by simp_all
  from views have "unowned_ok tr s" by (simp add: views_inv_def)
  from unowned_okD(1) [OF this] new have free: "ds_owner s t = None" by blast
  show ?thesis
    by (rule cancels_keep [OF ok]) (use ds_begin(1,2) sy' free in \<open>auto simp: event_said_def\<close>)
next
  case (ds_turn t c tok cs p e sy')
  with cancels_turn [OF ok ds_turn(3,4,6)] show ?thesis by simp
next
  case (ds_send c cs tok m ms cs')
  with cancels_conn [OF ok ds_send(3), of cs' s'] cancelled_sends show ?thesis by simp
next
  case (ds_end c cs tok cs')
  with cancels_conn [OF ok ds_end(3), of cs' s'] cancelled_ends show ?thesis by simp
next
  case (ds_health env up evs)
  then show ?thesis by (intro cancels_keep [OF ok]) auto
next
  case (ds_tool notifications tools name args result evs)
  then show ?thesis by (intro cancels_keep [OF ok]) auto
next
  case (ds_bridge e sy')
  then show ?thesis
    by (intro cancels_keep [OF ok]) (auto simp: socket_step_cancelled socket_said)
qed

lemma system_trace_cancels: "system_trace ok parse err h tr s \<Longrightarrow> cancels_ok tr s"
proof (induction rule: system_trace.induct)
  case trace_init
  show ?case by (simp add: cancels_ok_def system_start_def sys_start_def cancel_told_def)
next
  case (trace_next tr s es s')
  from system_step_cancels [OF trace_next.hyps(2) trace_next.IH system_trace_views [OF trace_next.hyps(1)]]
  show ?case .
qed

section \<open>A running daemon\<close>

text \<open>One chat over the whole daemon: the request, the adapter's connect, a draft and the reply.\<close>

definition demo_handler :: handler where
  "demo_handler = handler_new \<lparr>hc_base_url = ''http://h'', hc_api_key = ''k''\<rparr> False True None"

definition demo_conn :: "daemon_message list \<Rightarrow> conn" where
  "demo_conn ms =
     (spawn_request (Chat ''r'' (Some ''c'') ''hi'') (conn_new 0))
       \<lparr>sent := (\<lambda>_. [])(0 := ms), outq := chan_new\<lparr>queue := ms\<rparr>\<rparr>"

definition demo_daemon :: "hub \<Rightarrow> chat \<Rightarrow> daemon_message list \<Rightarrow> system" where
  "demo_daemon h c ms =
     \<lparr>ds_handler = demo_handler, ds_sys = demo_state h c, ds_owner = [0 \<mapsto> (0, 0)],
      ds_conns = [0 \<mapsto> demo_conn ms], ds_taken = {(0, 0)}, ds_pending = (\<lambda>_. []),
      ds_log = []\<rparr>"

lemma demo_daemon_simps [simp]:
  "ds_handler (demo_daemon h c ms) = demo_handler" "ds_sys (demo_daemon h c ms) = demo_state h c"
  "ds_owner (demo_daemon h c ms) = [0 \<mapsto> (0, 0)]" "ds_conns (demo_daemon h c ms) = [0 \<mapsto> demo_conn ms]"
  "ds_pending (demo_daemon h c ms) = (\<lambda>_. [])"
  by (simp_all add: demo_daemon_def)

lemma demo_conn_simps [simp]:
  "running (demo_conn ms) 0" "requests (demo_conn ms) = [Chat ''r'' (Some ''c'') ''hi'']"
  "sent (demo_conn ms) 0 = ms" "outq (demo_conn ms) = chan_new\<lparr>queue := ms\<rparr>"
  "\<not> cancelled (demo_conn ms) t" "directs (demo_conn ms) = []"
  by (simp_all add: demo_conn_def conn_new_def directs_def List.map_filter_def)

lemma demo_sends:
  "length ms < conn_queue \<Longrightarrow> task_sends 0 m (demo_conn ms) = Some (demo_conn (ms @ [m]))"
  by (simp add: task_sends_def conn_send_def)
    (simp add: demo_conn_def chan_send_def chan_new_def fun_eq_iff)

text \<open>The turn's step, and the sending of the message it says, if any.\<close>

lemma demo_turn_moves:
  assumes step: "chat_step True False c h es c' h'" and room: "length ms < conn_queue"
  shows "\<exists>s. system_step parse err (demo_daemon h c ms) [Stepped 0 (ch_phase c) es] s
    \<and> (s = demo_daemon h' c' (ms @ said es) \<or> system_step parse err s [] (demo_daemon h' c' (ms @ said es)))"
proof -
  let ?p = "\<lambda>p. (demo_daemon h' c' ms)\<lparr>ds_pending := (\<lambda>_. [])((0, 0) := p)\<rparr>"
  have "sys_step parse True (demo_state h c) (Stepped 0 (ch_phase c) es) (demo_state h' c')"
    by (rule demo_turn [OF step])
  then have 1: "system_step parse err (demo_daemon h c ms) [Stepped 0 (ch_phase c) es] (?p (said es))"
    using ds_turn [of "demo_daemon h c ms" 0 0 0 "demo_conn ms" parse "ch_phase c" es "demo_state h' c'" err]
    by (simp add: observe_cancel_def cancel_events_def demo_daemon_def demo_handler_def handler_new_def)
  show ?thesis
  proof (cases "said es")
    case Nil
    then have "?p (said es) = demo_daemon h' c' (ms @ said es)" by (simp add: demo_daemon_def fun_upd_idem)
    with 1 show ?thesis by metis
  next
    case (Cons m rest)
    with said_at_most_one [OF step] have m: "said es = [m]" by simp
    have "system_step parse err (?p [m]) [] (demo_daemon h' c' (ms @ [m]))"
      using ds_send [of "?p [m]" 0 "demo_conn ms" 0 m "[]" "demo_conn (ms @ [m])" parse err] demo_sends [OF room]
      by (simp add: demo_daemon_def fun_upd_idem)
    with 1 m show ?thesis by metis
  qed
qed

lemma demo_turn_step:
  assumes run: "system_trace distinct_chats parse err demo_handler tr (demo_daemon h c ms)"
    and step: "chat_step True False c h es c' h'" and room: "length ms < conn_queue"
  shows "system_trace distinct_chats parse err demo_handler (tr @ [Stepped 0 (ch_phase c) es])
      (demo_daemon h' c' (ms @ said es))"
proof -
  from demo_turn_moves [OF step room] obtain s where
    1: "system_step parse err (demo_daemon h c ms) [Stepped 0 (ch_phase c) es] s"
    and 2: "s = demo_daemon h' c' (ms @ said es) \<or> system_step parse err s [] (demo_daemon h' c' (ms @ said es))"
    by blast
  from trace_next [OF run 1]
  have run1: "system_trace distinct_chats parse err demo_handler (tr @ [Stepped 0 (ch_phase c) es]) s"
    by (simp add: admits_def)
  from 2 show ?thesis using run1 trace_next [OF run1] by (auto simp: admits_def)
qed

lemma demo_text_step:
  "system_step parse err (demo_daemon h c ms) [TextIn 0 l] (demo_daemon (socket_text parse l h) c ms)"
  using ds_bridge [of parse "demo_daemon h c ms" "TextIn 0 l" "demo_state (socket_text parse l h) c" err]
    demo_text [of parse True h c l]
  by (simp add: demo_daemon_def demo_handler_def handler_new_def)

lemma trim_q: "trim ''q'' = ''q''" and trim_x: "trim ''x'' = ''x''"
  by code_simp+

lemma demo_begin:
  "system_trace distinct_chats demo_parse err demo_handler [Spawned 0 demo_chat, Connected 0]
     (demo_daemon demo_connected demo_chat [])"
proof -
  let ?s0 = "system_start demo_handler"
  let ?s1 = "?s0\<lparr>ds_conns := [0 \<mapsto> conn_new 0]\<rparr>"
  let ?s2 = "?s0\<lparr>ds_conns := [0 \<mapsto> demo_conn []]\<rparr>"
  let ?sy = "sys_start hub_new\<lparr>sy_turns := [0 \<mapsto> demo_chat]\<rparr>"
  let ?s3 = "?s2\<lparr>ds_sys := ?sy, ds_owner := [0 \<mapsto> (0, 0)], ds_taken := {(0, 0)}\<rparr>"
  have 1: "system_step demo_parse err ?s0 [] ?s1"
    using ds_accept [of ?s0 0 demo_parse err] by (simp add: system_start_def)
  have "on_line demo_parse err ''q'' (conn_new 0) = Some (demo_conn [])"
    by (simp add: on_line_def read_request_def demo_parse_def client_roundtrip demo_conn_def
        conn_new_def [of 0] chan_new_def fun_eq_iff trim_q del: client_to_json.simps)
  with ds_line [of ?s1 0 "conn_new 0" demo_parse err "''q''" "demo_conn []"]
  have 2: "system_step demo_parse err ?s1 [] ?s2"
    by (simp add: system_start_def)
  have "sys_step demo_parse True (sys_start hub_new) (Spawned 0 demo_chat) ?sy"
    using sys_spawn [of "sys_start hub_new" 0 demo_chat None "\<lambda>_. 0" "''r''" "Some ''c''" "''hi''"]
    by (simp add: demo_chat_def sys_start_def)
  then have 3: "system_step demo_parse err ?s2 [Spawned 0 demo_chat] ?s3"
    using ds_begin [of ?s2 0 "demo_conn []" 0 undefined None "\<lambda>_. 0" demo_handler demo_chat demo_parse 0
        ?sy err]
    by (simp add: system_start_def demo_chat_def demo_handler_def handler_new_def)
  have "sys_step demo_parse True ?sy (Connected 0) (demo_state demo_connected demo_chat)"
    using sys_connect [of ?sy 0 "snd (socket_open hub_new)" demo_parse True]
    by (simp add: sys_start_def demo_state_def demo_connected_def prod_eq_iff)
  then have 4: "system_step demo_parse err ?s3 [Connected 0] (demo_daemon demo_connected demo_chat [])"
    using ds_bridge [of demo_parse ?s3 "Connected 0" "demo_state demo_connected demo_chat" err]
    by (simp add: system_start_def demo_daemon_def demo_handler_def handler_new_def)
  have "system_trace distinct_chats demo_parse err demo_handler
      (((([] @ []) @ []) @ [Spawned 0 demo_chat]) @ [Connected 0]) (demo_daemon demo_connected demo_chat [])"
    by (rule trace_next [OF trace_next [OF trace_next [OF trace_next [OF trace_init 1] 2] 3] 4])
      (simp_all add: admits_def distinct_chats_def live_turn_def system_start_def sys_start_def)
  then show ?thesis by simp
qed

lemma demo_looping:
  "system_trace distinct_chats demo_parse err demo_handler
     [Spawned 0 demo_chat, Connected 0, Stepped 0 Opening [], Stepped 0 Sending []]
     (demo_daemon demo_sent (demo_chat\<lparr>ch_rx := 0, ch_phase := Looping\<rparr>) [])"
proof -
  note steps = demo_chat_steps [where stop = False and dbus = True]
  from demo_turn_step [OF demo_turn_step [OF demo_begin steps(1)] , OF _ steps(2)] show ?thesis
    by (simp add: conn_queue_def)
qed

lemma demo_daemon_run:
  "system_trace distinct_chats demo_parse err demo_handler demo_events
     (demo_daemon demo_replied (demo_chat\<lparr>ch_rx := 0, ch_phase := Closing\<rparr>)
        [daemon_message.Draft ''r'' ''He'', ChatComplete ''r'' ''Hello''])"
proof -
  let ?d = "daemon_message.Draft ''r'' ''He''"
  let ?tr = "[Spawned 0 demo_chat, Connected 0, Stepped 0 Opening [], Stepped 0 Sending []]"
  note steps = demo_chat_steps [where stop = False and dbus = True]
  note said = trace_next [OF _ demo_text_step]
  have "system_trace distinct_chats demo_parse err demo_handler
      ((?tr @ [TextIn 0 ''d'']) @ [Stepped 0 Looping [ToConn ?d]])
      (demo_daemon demo_drafted (demo_chat\<lparr>ch_rx := 0, ch_phase := Looping\<rparr>) [?d])"
    using demo_turn_step [OF said [OF demo_looping, of "''d''"] steps(3)]
    by (simp add: conn_queue_def admits_def)
  from demo_turn_step [OF said [OF this, of "''s''"] steps(4)] show ?thesis
    by (simp add: conn_queue_def admits_def demo_events_def)
qed

text \<open>The same chat, cancelled by its client before the adapter has answered.\<close>

lemma demo_cancel_run:
  "\<exists>tr s cs. system_trace distinct_chats demo_parse err demo_handler tr s
     \<and> ds_owner s 0 = Some (0, 0) \<and> ds_conns s 0 = Some cs
     \<and> sent cs 0 = [Error (Some ''r'') ''cancelled'']"
proof -
  let ?c = "demo_chat\<lparr>ch_rx := 0, ch_phase := Looping\<rparr>"
  let ?s0 = "demo_daemon demo_sent ?c []" let ?cs0 = "demo_conn []"
  let ?cs1 = "?cs0\<lparr>cancelled := (cancelled ?cs0)(0 := True)\<rparr>"
  let ?s1 = "?s0\<lparr>ds_conns := [0 \<mapsto> ?cs1]\<rparr>"
  let ?e = "Error (Some ''r'') ''cancelled''"
  let ?cs2 = "?cs1\<lparr>outq := chan_new\<lparr>queue := [?e]\<rparr>, sent := (sent ?cs1)(0 := [?e])\<rparr>"
  let ?sy = "(observe_cancel True 0 (ds_sys ?s1))\<lparr>sy_turns := [0 \<mapsto> ?c\<lparr>ch_phase := Closing\<rparr>]\<rparr>"
  have "in_flight ?cs0 ''r'' = Some 0" "reading ?cs0"
    by (simp_all add: demo_conn_def spawn_request_def conn_new_def)
  then have "on_line demo_parse err ''x'' ?cs0 = Some ?cs1"
    by (simp add: on_line_def read_request_def demo_parse_def client_roundtrip trim_x cancel_request_def
        del: client_to_json.simps)
  with ds_line [of ?s0 0 ?cs0 demo_parse err "''x''" ?cs1]
  have 1: "system_step demo_parse err ?s0 [] ?s1" by simp
  have "chat_step True True ?c demo_sent [ToConn ?e] (?c\<lparr>ch_phase := Closing\<rparr>) demo_sent"
    by (rule chat_step.step_cancel) (simp_all add: chat_cancelled_def send_error_def)
  then have "sys_step demo_parse True (observe_cancel True 0 (ds_sys ?s1)) (Stepped 0 Looping [ToConn ?e]) ?sy"
    using sys_turn [of "observe_cancel True 0 (ds_sys ?s1)" 0 ?c True "[ToConn ?e]"
        "?c\<lparr>ch_phase := Closing\<rparr>" demo_sent demo_parse]
    by (simp add: observe_cancel_def demo_state_def)
  then have 2: "system_step demo_parse err ?s1
      (cancel_events True 0 @ [Stepped 0 Looping [ToConn ?e]])
      (?s1\<lparr>ds_sys := ?sy, ds_pending := (\<lambda>_. [])((0, 0) := [?e])\<rparr>)"
    using ds_turn [of ?s1 0 0 0 ?cs1 demo_parse Looping "[ToConn ?e]" ?sy err]
    by (simp add: demo_handler_def handler_new_def)
  have "task_sends 0 ?e ?cs1 = Some ?cs2"
    by (simp add: task_sends_def conn_send_def conn_queue_def chan_send_def chan_new_def)
  then have 3: "system_step demo_parse err (?s1\<lparr>ds_sys := ?sy, ds_pending := (\<lambda>_. [])((0, 0) := [?e])\<rparr>) []
      (?s1\<lparr>ds_sys := ?sy, ds_conns := [0 \<mapsto> ?cs2], ds_pending := \<lambda>_. []\<rparr>)"
    using ds_send [of "?s1\<lparr>ds_sys := ?sy, ds_pending := (\<lambda>_. [])((0, 0) := [?e])\<rparr>" 0 ?cs1 0 ?e "[]" ?cs2
        demo_parse err]
    by (simp add: fun_upd_idem)
  from trace_next [OF trace_next [OF trace_next [OF demo_looping 1] 2] 3] show ?thesis
    by (intro exI conjI) (auto simp: admits_def cancel_events_def)
qed

text \<open>What a client was written, what waits for it and what is being sent to it.\<close>

lemma client_relay:
  assumes "system_trace distinct_chats parse err h tr s"
    and "ds_owner s t = Some (c, tok)" and "ds_conns s c = Some cs" and "rx_live (outq cs)"
    and "sole_request cs tok i" and "frames_since parse t tr = Some fs"
  shows "\<exists>ch. sy_turns (ds_sys s) t = Some ch
    \<and> relayed i (ended (ch_phase ch)) (filter (\<lambda>f. chat_id f = ch_chat ch) fs)
        (filter (to_request i) (directs cs @ queue (outq cs)) @ ds_pending s (c, tok))"
proof -
  from system_trace_views [OF assms(1)]
  have ok: "owners_ok (hd_dbus h) tr s" "requests_ok s" by (simp_all add: views_inv_def)
  obtain ch where ch: "sy_turns (ds_sys s) t = Some ch"
    and srv: "serves (hd_dbus h) cs tok (ds_pending s (c, tok)) ch (said_by t tr)"
    using owners_okD [OF ok(1) assms(2)] assms(3) by (metis option.inject)
  have "request_id (requests cs ! tok) = Some (ch_request ch)"
    using serves_request [OF srv] by auto
  with assms(5) have i: "ch_request ch = i" by (simp add: sole_request_def)
  have "filter (to_request i) (queued cs) @ ds_pending s (c, tok) = said_by t tr"
    using daemon_handler.reply_stream [OF requests_okD(1) [OF ok(2) assms(3)] assms(4,5)] srv
    by (simp add: serves_def)
  moreover have "sys_relay parse tr (ds_sys s)"
    using sys_trace_relay system_trace_bridge [OF assms(1) spawn_only_cases(2)] by blast
  from sys_relayD(1) [OF this ch] assms(6) i
  have "relayed i (ended (ch_phase ch)) (filter (\<lambda>f. chat_id f = ch_chat ch) fs) (said_by t tr)"
    by (simp add: relay_inv_def own_frames_def)
  ultimately show ?thesis using ch by (simp add: queued_def)
qed

section \<open>The running daemon's guarantees\<close>

text \<open>
  C4: the running daemon refines the models its components were verified in: whatever it does, its
  bridge has made a run of the bridge system with the same events, each of its connections is a
  state of the IPC server under this daemon's handler, and what a turn has said is what its request's
  task has queued on the client's connection and what it is still sending. So every guarantee of the components holds in it.
\<close>

theorem daemon_refines_components:
  assumes "system_trace ok parse err h tr s" and "spawn_only ok"
  shows "sys_trace ok parse (hd_dbus h) tr (ds_sys s)
    \<and> (\<forall>c cs. ds_conns s c = Some cs \<longrightarrow> conn_reach daemon_may (ds_log s) cs)
    \<and> (\<forall>t c tok. ds_owner s t = Some (c, tok) \<longrightarrow>
         (\<exists>cs. ds_conns s c = Some cs \<and> sent cs tok @ ds_pending s (c, tok) = said_by t tr))"
proof -
  from system_trace_views [OF assms(1)]
  have "owners_ok (hd_dbus h) tr s" and "requests_ok s" by (simp_all add: views_inv_def)
  then show ?thesis
    using system_trace_bridge [OF assms] requests_okD(1)
    unfolding owners_ok_def serves_def by blast
qed

theorem daemon_refines_components_witness:
  "\<exists>s::system. sys_trace distinct_chats demo_parse True demo_events (ds_sys s)
     \<and> (\<exists>cs. ds_conns s 0 = Some cs \<and> conn_reach daemon_may [] cs
          \<and> sent cs 0 = [daemon_message.Draft ''r'' ''He'', ChatComplete ''r'' ''Hello''])"
proof -
  let ?ms = "[daemon_message.Draft ''r'' ''He'', ChatComplete ''r'' ''Hello'']"
  let ?s = "demo_daemon demo_replied (demo_chat\<lparr>ch_rx := 0, ch_phase := Closing\<rparr>) ?ms"
  note all = daemon_refines_components [OF demo_daemon_run [of "\<lambda>_. []"] spawn_only_cases(2)]
  from all have "sys_trace distinct_chats demo_parse True demo_events (ds_sys ?s)"
    by (simp add: demo_handler_def handler_new_def)
  moreover from all have "conn_reach daemon_may [] (demo_conn ?ms)"
    by (simp add: demo_daemon_def)
  ultimately show ?thesis
    by (intro exI [of _ ?s] conjI exI [of _ "demo_conn ?ms"]) simp_all
qed

text \<open>
  C3: end to end, from the adapter's socket to the client's, in every run in which no two running chats
  share an id: for a chat request whose id no other request of its connection has, whose turn has opened the chat and whose
  connection's writer is still there, the messages to that request written, queued or being sent on the connection are a
  relay of exactly the frames the adapter sent for that chat since it opened, under the request's id.
  (Without the first condition a client can be told that the platform disconnected, which is no relay.)
\<close>

theorem client_reads_the_relay:
  assumes "system_trace distinct_chats parse err h tr s"
    and "ds_owner s t = Some (c, tok)" and "ds_conns s c = Some cs" and "rx_live (outq cs)"
    and "sole_request cs tok i" and "frames_since parse t tr = Some fs"
  shows "\<exists>ch. sy_turns (ds_sys s) t = Some ch
    \<and> relayed i (ended (ch_phase ch)) (filter (\<lambda>f. chat_id f = ch_chat ch) fs)
        (filter (to_request i) (directs cs @ queue (outq cs)) @ ds_pending s (c, tok))"
  using assms by (rule client_relay)

theorem client_reads_the_relay_witness:
  "relayed ''r'' True [from_adapter.Draft ''c'' ''He'', Send ''c'' ''Hello'']
     (filter (to_request ''r'') [daemon_message.Draft ''r'' ''He'', ChatComplete ''r'' ''Hello''])"
proof -
  let ?ms = "[daemon_message.Draft ''r'' ''He'', ChatComplete ''r'' ''Hello'']"
  have fs: "frames_since demo_parse 0 demo_events =
      Some [from_adapter.Draft ''c'' ''He'', Send ''c'' ''Hello'']"
    by (simp add: frames_since_def demo_events_def since_event_def frame_of_def demo_frames)
  have "sole_request (demo_conn ?ms) 0 ''r''" by (simp add: sole_request_def)
  with client_reads_the_relay [OF demo_daemon_run [of "\<lambda>_. []"] _ _ _ _ fs, of 0 0 "demo_conn ?ms" "''r''"]
  show ?thesis by (simp add: demo_state_def ended_def)
qed

text \<open>
  C14: a chat's client is told \<open>cancelled\<close> only if its request's token was cancelled: by a cancel line on
  its own connection or by the daemon's shutdown. A cancel on another connection never ends it.
\<close>

theorem told_cancelled_only_if_cancelled:
  assumes "system_trace ok parse err h tr s"
    and "ds_owner s t = Some (c, tok)" and "ds_conns s c = Some cs"
    and "Error (Some rid) ''cancelled'' \<in> set (sent cs tok)"
  shows "cancelled cs tok"
proof -
  from system_trace_views [OF assms(1)]
  have ok: "owners_ok (hd_dbus h) tr s" by (simp add: views_inv_def)
  have "sent cs tok @ ds_pending s (c, tok) = said_by t tr"
    using owners_okD [OF ok assms(2)] assms(3) unfolding serves_def by (metis option.inject)
  with assms(4) have "Error (Some rid) ''cancelled'' \<in> set (said_by t tr)"
    by (metis UnI1 set_append)
  then have "cancel_told (said_by t tr)" by (auto simp: cancel_told_def)
  then obtain d tk cs1 where "ds_owner s t = Some (d, tk)" "ds_conns s d = Some cs1" "cancelled cs1 tk"
    using cancels_okD [OF system_trace_cancels [OF assms(1)], of t] by blast
  with assms(2,3) show ?thesis by simp
qed

theorem told_cancelled_only_if_cancelled_witness:
  "\<exists>(s::system) cs. ds_conns s 0 = Some cs \<and> sent cs 0 = [Error (Some ''r'') ''cancelled''] \<and> cancelled cs 0"
proof -
  obtain tr s cs where run: "system_trace distinct_chats demo_parse (\<lambda>_. []) demo_handler tr s"
    and own: "ds_owner s 0 = Some (0, 0)" and cs: "ds_conns s 0 = Some cs"
    and told: "sent cs 0 = [Error (Some ''r'') ''cancelled'']"
    using demo_cancel_run by blast
  have "Error (Some ''r'') ''cancelled'' \<in> set (sent cs 0)" by (simp add: told)
  from told_cancelled_only_if_cancelled [OF run own cs this] cs told show ?thesis by blast
qed

end
