(* ===== verification/Daemon_Progress.thy ===== *)
theory Daemon_Progress
  imports Daemon_Relay Bridge_Progress
begin

text \<open>
  The end of a chat turn in the running daemon. The turn's task is one among all others, and what it says
  goes through \<open>Conn::send\<close>, which waits while the connection's queue is full. Once the adapter's final
  reply is in the turn's channel, no run of the daemon can keep the turn from ending: its steps are
  bounded, and it is never stuck but for the room its connection's writer makes.
\<close>

section \<open>Runs of the daemon between two states\<close>

inductive system_run ::
    "(string \<Rightarrow> json option) \<Rightarrow> (string \<Rightarrow> string) \<Rightarrow> system \<Rightarrow> event list \<Rightarrow> system \<Rightarrow> bool"
  for parse err s
where
  system_none: "system_run parse err s [] s"
| system_more: "system_run parse err s es s1 \<Longrightarrow> system_step parse err s1 fs s2 \<Longrightarrow>
    system_run parse err s (es @ fs) s2"

lemma admits_any [simp]: "admits any_client sy es"
  by (auto simp: admits_def any_client_def list_all_iff split: event.split)

lemma system_run_trace:
  assumes "system_run parse err s es s'" and "system_trace any_client parse err h tr s"
  shows "system_trace any_client parse err h (tr @ es) s'"
  using assms
proof (induction rule: system_run.induct)
  case (system_more es s1 fs s2)
  from trace_next [OF system_more.IH [OF system_more.prems] system_more.hyps(2)] show ?case by simp
qed simp

lemma any_client_system: "system_trace ok parse err h tr s \<Longrightarrow> system_trace any_client parse err h tr s"
  by (induction rule: system_trace.induct) (auto intro: system_trace.intros)

lemma system_step_sys_run:
  assumes "system_step parse err s es s'"
  shows "sys_run parse (hd_dbus (ds_handler s)) (ds_sys s) es (ds_sys s')"
  using assms
proof (cases rule: system_step.cases)
  case (ds_begin c cs tok env now rand h' ch t sy')
  then show ?thesis by (simp add: sys_run_one)
next
  case (ds_turn t c tok cs p fs sy')
  let ?dbus = "hd_dbus (ds_handler s)"
  show ?thesis
  proof (cases "cancelled cs tok")
    case True
    obtain d where "sy_turns (ds_sys s) t = Some d"
      using sys_step_turn_exists [OF ds_turn(6)] by blast
    then have "sys_step parse ?dbus (ds_sys s) (CancelFired t) (observe_cancel True t (ds_sys s))"
      unfolding observe_cancel_def by (simp add: sys_cancel)
    from run_more [OF sys_run_one [OF this]] ds_turn(1,2,6) True show ?thesis
      by (simp add: cancel_events_def)
  next
    case False
    with ds_turn(1,2,6) show ?thesis by (simp add: cancel_events_def observe_cancel_def sys_run_one)
  qed
next
  case (ds_bridge e sy')
  then show ?thesis by (simp add: sys_run_one)
qed (simp_all add: run_none)

lemma system_run_finishing:
  assumes "system_run parse err s es s'" and "system_trace any_client parse err h tr s"
    and "finishing t ch pre body [] (ds_sys s)"
  shows "finishing t ch pre body es (ds_sys s')"
  using assms
proof (induction rule: system_run.induct)
  case (system_more es s1 fs s2)
  have "sys_inv (ds_sys s1)"
    using sys_trace_inv system_trace_bridge [OF system_run_trace [OF system_more.hyps(1) system_more.prems(1)]]
    by fastforce
  from finishing_run [OF system_step_sys_run [OF system_more.hyps(2)] this system_more.IH [OF system_more.prems]]
  show ?case .
qed simp

lemma system_step_owner:
  assumes "system_step parse err s es s'" and "views_inv dbus tr s" and "ds_owner s t = Some p"
  shows "ds_owner s' t = Some p"
  using assms(1)
proof (cases rule: system_step.cases)
  case (ds_begin c cs tok env now rand h' ch u sy')
  from assms(2) have "unowned_ok tr s" by (simp add: views_inv_def)
  with spawned_step [OF ds_begin(7)] unowned_okD(1) have "ds_owner s u = None" by blast
  with assms(3) ds_begin(2) show ?thesis by auto
qed (use assms(3) in simp_all)

lemma system_run_owner:
  assumes "system_run parse err s es s'" and "system_trace any_client parse err h tr s"
    and "ds_owner s t = Some p"
  shows "ds_owner s' t = Some p"
  using assms
proof (induction rule: system_run.induct)
  case (system_more es s1 fs s2)
  from system_step_owner [OF system_more.hyps(2) system_trace_views [OF system_run_trace [OF system_more.hyps(1)
      system_more.prems(1)]] system_more.IH [OF system_more.prems]]
  show ?case .
qed simp

section \<open>A task that has not finished runs\<close>

definition tasks_ok :: "system \<Rightarrow> bool" where
  "tasks_ok s =
     (\<forall>c cs tok. ds_conns s c = Some cs \<and> (c, tok) \<in> ds_taken s \<and> \<not> running cs tok \<longrightarrow>
        ds_pending s (c, tok) = []
        \<and> (\<forall>t ch. ds_owner s t = Some (c, tok) \<and> sy_turns (ds_sys s) t = Some ch \<longrightarrow> ch_phase ch = Done))"

lemma tasks_okD:
  assumes "tasks_ok s" and "ds_conns s c = Some cs" and "(c, tok) \<in> ds_taken s" and "\<not> running cs tok"
  shows "ds_pending s (c, tok) = []"
    and "ds_owner s t = Some (c, tok) \<Longrightarrow> sy_turns (ds_sys s) t = Some ch \<Longrightarrow> ch_phase ch = Done"
  using assms unfolding tasks_ok_def by blast+

text \<open>A connection moves; a task that it ends has nothing left to do.\<close>

lemma tasks_conn:
  assumes ok: "tasks_ok s" and c: "ds_conns s c = Some cs"
    and run: "\<And>tok. (c, tok) \<in> ds_taken s \<Longrightarrow> running cs tok \<Longrightarrow> \<not> running cs' tok \<Longrightarrow>
      ds_pending s (c, tok) = []
      \<and> (\<forall>t ch. ds_owner s t = Some (c, tok) \<and> sy_turns (ds_sys s) t = Some ch \<longrightarrow> ch_phase ch = Done)"
    and s': "ds_conns s' = (ds_conns s)(c \<mapsto> cs')" "ds_taken s' = ds_taken s" "ds_owner s' = ds_owner s"
      "ds_sys s' = ds_sys s"
    and pend: "\<And>p. ds_pending s p = [] \<Longrightarrow> ds_pending s' p = []"
  shows "tasks_ok s'"
  unfolding tasks_ok_def
proof (intro allI impI)
  fix d ds tok
  assume "ds_conns s' d = Some ds \<and> (d, tok) \<in> ds_taken s' \<and> \<not> running ds tok"
  then have *: "((ds_conns s)(c \<mapsto> cs')) d = Some ds" "(d, tok) \<in> ds_taken s" "\<not> running ds tok"
    by (simp_all add: s')
  have "ds_pending s (d, tok) = []
      \<and> (\<forall>t ch. ds_owner s t = Some (d, tok) \<and> sy_turns (ds_sys s) t = Some ch \<longrightarrow> ch_phase ch = Done)"
  proof (cases "d = c \<and> running cs tok")
    case True
    with * run [of tok] show ?thesis by simp
  next
    case False
    then obtain cs1 where "ds_conns s d = Some cs1" "\<not> running cs1 tok"
      using * c by (auto split: if_splits)
    with tasks_okD [OF ok _ *(2)] show ?thesis by blast
  qed
  with pend show "ds_pending s' (d, tok) = []
      \<and> (\<forall>t ch. ds_owner s' t = Some (d, tok) \<and> sy_turns (ds_sys s') t = Some ch \<longrightarrow> ch_phase ch = Done)"
    by (simp add: s')
qed

lemma running_line: "on_line parse err line cs = Some cs' \<Longrightarrow> running cs tok \<Longrightarrow> running cs' tok"
  by (erule on_line_cases) (auto simp: cancel_request_def split: option.splits)

lemma running_own:
  assumes "conn_own log cs cs'"
  shows "running cs' = running cs"
proof -
  from assms consider "cs' = reader_stops cs" | "cs' = shutdown_fires cs" | "writer_ends cs = Some cs'"
    | ok where "writer_direct ok cs = Some cs'" | ok closed where "writer_event ok closed broadcast_cap log cs = Some cs'"
    unfolding conn_own_def by blast
  then show ?thesis
  proof cases
    case 4
    then show ?thesis by (rule writer_direct_cases) simp
  qed (auto simp: reader_stops_def shutdown_fires_def writer_ends_def writer_event_def Let_def
      split: if_splits prod.splits bcast_recv.splits)
qed

lemma running_sends: "task_sends tok m cs = Some cs' \<Longrightarrow> running cs tok \<and> running cs' = running cs"
  by (auto simp: task_sends_def dest!: conn_send_Some split: if_splits)

lemma running_ends: "task_ends tok cs = Some cs' \<Longrightarrow> running cs' = (running cs)(tok := False)"
  by (auto simp: task_ends_def split: if_splits)

lemma chat_step_not_done: "chat_step dbus stop c h es c' h' \<Longrightarrow> ch_phase c \<noteq> Done"
  by (erule chat_step_phase_cases) auto

lemma tasks_turn:
  assumes ok: "tasks_ok s" and owner: "ds_owner s t = Some (c, tok)" and c: "ds_conns s c = Some cs"
    and taken: "(c, tok) \<in> ds_taken s"
    and step: "sys_step parse dbus (observe_cancel stop t (ds_sys s)) (Stepped t p es) sy'"
  shows "running cs tok" and "tasks_ok (s\<lparr>ds_sys := sy', ds_pending := (ds_pending s)((c, tok) := ms)\<rparr>)"
proof -
  from stepped_step [OF step] obtain ch ch' where ch: "sy_turns (ds_sys s) t = Some ch" "ch_phase ch \<noteq> Done"
    and sy': "sy_turns sy' = (sy_turns (ds_sys s))(t \<mapsto> ch')"
    using chat_step_not_done by (metis observe_cancel_turns)
  show run: "running cs tok"
    using tasks_okD(2) [OF ok c taken _ owner ch(1)] ch(2) by blast
  show "tasks_ok (s\<lparr>ds_sys := sy', ds_pending := (ds_pending s)((c, tok) := ms)\<rparr>)"
    unfolding tasks_ok_def
  proof (intro allI impI)
    fix d ds tk
    assume "ds_conns (s\<lparr>ds_sys := sy', ds_pending := (ds_pending s)((c, tok) := ms)\<rparr>) d = Some ds
      \<and> (d, tk) \<in> ds_taken (s\<lparr>ds_sys := sy', ds_pending := (ds_pending s)((c, tok) := ms)\<rparr>)
      \<and> \<not> running ds tk"
    then have *: "ds_conns s d = Some ds" "(d, tk) \<in> ds_taken s" "\<not> running ds tk" by simp_all
    with run c have ne: "(d, tk) \<noteq> (c, tok)" by auto
    with owner sy' tasks_okD [OF ok *]
    show "ds_pending (s\<lparr>ds_sys := sy', ds_pending := (ds_pending s)((c, tok) := ms)\<rparr>) (d, tk) = []
      \<and> (\<forall>u ch. ds_owner (s\<lparr>ds_sys := sy', ds_pending := (ds_pending s)((c, tok) := ms)\<rparr>) u = Some (d, tk)
          \<and> sy_turns (ds_sys (s\<lparr>ds_sys := sy', ds_pending := (ds_pending s)((c, tok) := ms)\<rparr>)) u = Some ch
          \<longrightarrow> ch_phase ch = Done)"
      by (auto split: if_splits)
  qed
qed

lemma system_step_tasks:
  assumes "system_step parse err s es s'" and ok: "tasks_ok s" and inv: "views_inv dbus tr s"
  shows "tasks_ok s'"
proof -
  from inv have own: "owners_ok dbus tr s" and req: "requests_ok s" and free: "unowned_ok tr s"
    by (simp_all add: views_inv_def)
  from assms(1) show ?thesis
  proof (cases rule: system_step.cases)
    case (ds_accept c)
    have "(c, tok) \<notin> ds_taken s" for tok
      using requests_okD(2) [OF req, of c tok] ds_accept(3) by auto
    with ok show ?thesis by (auto simp: tasks_ok_def ds_accept(2))
  next
    case (ds_line c cs line cs')
    with running_line [OF ds_line(4)] show ?thesis by (intro tasks_conn [OF ok ds_line(3)]) auto
  next
    case (ds_conn c cs cs')
    with running_own [OF ds_conn(4)] show ?thesis by (intro tasks_conn [OF ok ds_conn(3)]) auto
  next
    case (ds_answer c cs tok env now rand h' ms)
    with ok show ?thesis by (auto simp: tasks_ok_def)
  next
    case (ds_begin c cs tok env now rand h' ch t sy')
    from spawned_step [OF ds_begin(7)] have sy': "sy' = (ds_sys s)\<lparr>sy_turns := (sy_turns (ds_sys s))(t \<mapsto> ch)\<rparr>"
      and "sy_turns (ds_sys s) t = None" by simp_all
    with unowned_okD(1) [OF free] have "ds_owner s t = None" by simp
    with ok ds_begin(3,4) show ?thesis by (auto simp: tasks_ok_def ds_begin(2) sy' split: if_splits)
  next
    case (ds_turn t c tok cs p fs sy')
    from owners_okD [OF own ds_turn(3)] have "(c, tok) \<in> ds_taken s" by blast
    from tasks_turn(2) [OF ok ds_turn(3,4) this ds_turn(6)] ds_turn(2) show ?thesis by simp
  next
    case (ds_send c cs tok m ms cs')
    with running_sends [OF ds_send(5)] show ?thesis by (intro tasks_conn [OF ok ds_send(3)]) auto
  next
    case (ds_end c cs tok cs')
    have "ds_pending s (c, tk) = []
      \<and> (\<forall>t ch. ds_owner s t = Some (c, tk) \<and> sy_turns (ds_sys s) t = Some ch \<longrightarrow> ch_phase ch = Done)"
      if "running cs tk" "\<not> running cs' tk" for tk
    proof -
      from that running_ends [OF ds_end(7)] have "tk = tok" by (auto split: if_splits)
      with ds_end(5,6) show ?thesis by blast
    qed
    with ds_end(2) show ?thesis by (intro tasks_conn [OF ok ds_end(3)]) auto
  next
    case (ds_bridge e sy')
    from ok socket_step_turns [OF ds_bridge(3,4)] show ?thesis by (auto simp: tasks_ok_def ds_bridge(2))
  qed (use ok in \<open>auto simp: tasks_ok_def\<close>)
qed

lemma system_trace_tasks: "system_trace ok parse err h tr s \<Longrightarrow> tasks_ok s"
proof (induction rule: system_trace.induct)
  case trace_init
  show ?case by (simp add: tasks_ok_def system_start_def)
next
  case (trace_next tr s es s')
  from system_step_tasks [OF trace_next.hyps(2) trace_next.IH system_trace_views [OF trace_next.hyps(1)]]
  show ?case .
qed

section \<open>What a turn can do next\<close>

text \<open>The task of an unfinished turn can send what it is sending, at once or after the writer's next write.\<close>

lemma pending_sends:
  assumes "system_trace any_client parse err h tr s" and "ds_conns s c = Some cs"
    and "ds_pending s (c, tok) = m # ms"
  shows "running cs tok"
    and "if rx_live (outq cs) \<longrightarrow> length (queue (outq cs)) < conn_queue then task_sends tok m cs \<noteq> None
      else \<exists>cs1. writer_direct True cs = Some cs1 \<and> task_sends tok m cs1 \<noteq> None"
proof -
  from system_trace_views [OF assms(1)] have req: "requests_ok s" by (simp add: views_inv_def)
  have taken: "(c, tok) \<in> ds_taken s" using requests_okD(5) [OF req, of c tok] assms(3) by force
  show run: "running cs tok"
    using tasks_okD(1) [OF system_trace_tasks [OF assms(1)] assms(2) taken] assms(3) by force
  show "if rx_live (outq cs) \<longrightarrow> length (queue (outq cs)) < conn_queue then task_sends tok m cs \<noteq> None
      else \<exists>cs1. writer_direct True cs = Some cs1 \<and> task_sends tok m cs1 \<noteq> None"
  proof (cases "rx_live (outq cs) \<longrightarrow> length (queue (outq cs)) < conn_queue")
    case True
    with run show ?thesis by (auto simp: task_sends_def conn_send_def)
  next
    case False
    have "length (queue (outq cs)) \<le> conn_queue"
      using conn_reach_inv [OF requests_okD(1) [OF req assms(2)]] by (simp add: conn_inv_def)
    with False obtain x q where q: "queue (outq cs) = x # q" "Suc (length q) = conn_queue" "rx_live (outq cs)"
      by (cases "queue (outq cs)") (auto simp: conn_queue_def)
    then have "writer_direct True cs =
        Some (cs\<lparr>outq := (outq cs)\<lparr>queue := q\<rparr>, wire_out := wire_out cs @ [Direct x]\<rparr>)"
      by (simp add: writer_direct_def chan_recv_def)
    moreover have "task_sends tok m (cs\<lparr>outq := (outq cs)\<lparr>queue := q\<rparr>, wire_out := wire_out cs @ [Direct x]\<rparr>) \<noteq> None"
      using run q(2) by (simp add: task_sends_def conn_send_def)
    ultimately show ?thesis using False by auto
  qed
qed

lemma turn_can_step:
  assumes "ds_owner s t = Some (c, tok)" and "ds_conns s c = Some cs" and "ds_pending s (c, tok) = []"
    and "sy_turns (ds_sys s) t = Some ch" and "ch_phase ch \<noteq> Done"
    and "ch_phase ch = Looping \<Longrightarrow> cancelled cs tok \<or> queue (from_chans (sy_hub (ds_sys s)) (ch_rx ch)) \<noteq> []
      \<or> tx_count (from_chans (sy_hub (ds_sys s)) (ch_rx ch)) = 0"
  shows "\<exists>es s'. system_step parse err s (cancel_events (cancelled cs tok) t @ [Stepped t (ch_phase ch) es]) s'"
proof -
  let ?sy = "observe_cancel (cancelled cs tok) t (ds_sys s)" let ?dbus = "hd_dbus (ds_handler s)"
  have hub: "sy_hub ?sy = sy_hub (ds_sys s)" by (simp add: observe_cancel_def)
  have "cancelled cs tok \<Longrightarrow> t \<in> sy_cancelled ?sy" by (simp add: observe_cancel_def)
  with assms(5,6) obtain es ch' h' where "chat_step ?dbus (t \<in> sy_cancelled ?sy) ch (sy_hub ?sy) es ch' h'"
    using chat_progress [of ?dbus "t \<in> sy_cancelled ?sy" ch "sy_hub ?sy"] hub by auto
  then have "sys_step parse ?dbus ?sy (Stepped t (ch_phase ch) es)
      (?sy\<lparr>sy_hub := h', sy_turns := (sy_turns ?sy)(t \<mapsto> ch')\<rparr>)"
    by (intro sys_turn) (simp_all add: assms(4))
  from ds_turn [OF assms(1-3) this] show ?thesis by blast
qed

section \<open>The daemon's liveness\<close>

text \<open>
  C9: once the adapter's final reply is in the channel of a running turn, every run of the daemon from
  there on, whatever the adapter, the clients and all other tasks do in it, has at most one step of the
  turn for each frame before the reply, one for the reply and one to close. As long as the turn has not
  ended it is never stuck: it can make its next step, or it is sending a message, which it can do at
  once or, when its connection's queue is full, after the writer's next write. So it ends in every run
  in which its task and that writer go on. When it has ended, no route leads to its channel any more, and it has told the
  drafts before the reply and then the reply, unless its own request was cancelled, and then
  some of the drafts and that it was cancelled.
\<close>

theorem turn_finishes:
  assumes "system_trace any_client parse err h tr s"
    and "ds_owner s t = Some (c, tok)" and "sy_turns (ds_sys s) t = Some ch" and "ch_phase ch = Looping"
    and "queue (from_chans (sy_hub (ds_sys s)) (ch_rx ch)) = pre @ Send cid body # post" and "\<not> list_ex is_send pre"
    and "system_run parse err s es s'"
  shows "own_steps t es \<le> length pre + 2
    \<and> (\<exists>ch' cs. sy_turns (ds_sys s') t = Some ch' \<and> ds_conns s' c = Some cs
        \<and> (if ch_phase ch' = Done
           then (\<forall>k. routes (sy_hub (ds_sys s')) k \<noteq> Some (ch_rx ch))
             \<and> (said_by t es = drafts (ch_request ch) pre @ [ChatComplete (ch_request ch) body]
                \<or> cancelled cs tok
                  \<and> (\<exists>p. prefix p pre
                       \<and> said_by t es = drafts (ch_request ch) p @ [Error (Some (ch_request ch)) ''cancelled'']))
           else case ds_pending s' (c, tok) of
                  [] \<Rightarrow> \<exists>es1 p es2 s2. system_step parse err s' (es1 @ [Stepped t p es2]) s2
                | m # ms \<Rightarrow>
                    if rx_live (outq cs) \<longrightarrow> length (queue (outq cs)) < conn_queue then task_sends tok m cs \<noteq> None
                    else \<exists>cs1. writer_direct True cs = Some cs1 \<and> task_sends tok m cs1 \<noteq> None))"
proof -
  note run = system_run_trace [OF assms(7,1)]
  note owner = system_run_owner [OF assms(7,1,2)]
  have fin: "finishing t ch pre body es (ds_sys s')"
    by (rule system_run_finishing [OF assms(7,1) finishing_start [OF assms(3-6)]])
  then obtain d where d: "sy_turns (ds_sys s') t = Some d" and rx: "ch_rx d = ch_rx ch"
    and phase: "ch_phase d \<in> {Looping, Closing, Done}" and bound: "own_steps t es \<le> length pre + 2"
    unfolding finishing_def by auto
  from system_trace_views [OF run] have "owners_ok (hd_dbus h) (tr @ es) s'" by (simp add: views_inv_def)
  from owners_okD [OF this owner] obtain cs where cs: "ds_conns s' c = Some cs" by blast
  have "?thesis" if over: "ch_phase d = Done"
  proof -
    from fin d over have told: "told_end t (ch_request ch) pre body es (ds_sys s')"
      and gone: "\<forall>k. routes (sy_hub (ds_sys s')) k \<noteq> Some (ch_rx ch)"
      unfolding finishing_def by auto
    have "cancelled cs tok" if "t \<in> sy_cancelled (ds_sys s')"
      using cancels_okD [OF system_trace_cancels [OF run], of t] that owner cs by force
    with told gone bound d cs over show ?thesis unfolding told_end_def by auto
  qed
  moreover have "?thesis" if going: "ch_phase d \<noteq> Done"
  proof (cases "ds_pending s' (c, tok)")
    case Nil
    have "queue (from_chans (sy_hub (ds_sys s')) (ch_rx d)) \<noteq> []" if "ch_phase d = Looping"
      using fin d rx that unfolding finishing_def by auto
    from turn_can_step [OF owner cs Nil d going, of parse err] this
    have "\<exists>es1 p es2 s2. system_step parse err s' (es1 @ [Stepped t p es2]) s2" by blast
    with bound d cs going Nil show ?thesis by auto
  next
    case (Cons m ms)
    with pending_sends(2) [OF run cs Cons] bound d cs going show ?thesis by simp
  qed
  ultimately show ?thesis by blast
qed

text \<open>The demonstration run: the draft is told and the reply has arrived; the turn takes it and closes.\<close>

lemma demo_reply_waits:
  "system_trace any_client demo_parse err demo_handler
     [Spawned 0 demo_chat, Connected 0, Stepped 0 Opening [], Stepped 0 Sending [], TextIn 0 ''d'',
      Stepped 0 Looping [ToConn (daemon_message.Draft ''r'' ''He'')], TextIn 0 ''s'']
     (demo_daemon (socket_text demo_parse ''s'' demo_drafted) (demo_chat\<lparr>ch_rx := 0, ch_phase := Looping\<rparr>)
        [daemon_message.Draft ''r'' ''He''])"
proof -
  note steps = demo_chat_steps [where stop = False and dbus = True]
  note taken = trace_next [OF _ demo_text_step]
  from demo_turn_step [OF taken [OF demo_looping, of "''d''"] steps(3)]
  have "system_trace distinct_chats demo_parse err demo_handler
     [Spawned 0 demo_chat, Connected 0, Stepped 0 Opening [], Stepped 0 Sending [], TextIn 0 ''d'',
      Stepped 0 Looping [ToConn (daemon_message.Draft ''r'' ''He'')]]
     (demo_daemon demo_drafted (demo_chat\<lparr>ch_rx := 0, ch_phase := Looping\<rparr>)
        [daemon_message.Draft ''r'' ''He''])"
    by (simp add: conn_queue_def admits_def)
  from any_client_system [OF taken [OF this, of "''s''"]] show ?thesis by (simp add: admits_def)
qed

lemma demo_turn_run:
  assumes "system_run demo_parse err s es (demo_daemon h c ms)" and "chat_step True False c h fs c' h'"
    and "length ms < conn_queue"
  shows "system_run demo_parse err s (es @ [Stepped 0 (ch_phase c) fs]) (demo_daemon h' c' (ms @ said fs))"
proof -
  from demo_turn_moves [OF assms(2,3)] obtain s1 where
    "system_step demo_parse err (demo_daemon h c ms) [Stepped 0 (ch_phase c) fs] s1"
    and 2: "s1 = demo_daemon h' c' (ms @ said fs) \<or> system_step demo_parse err s1 [] (demo_daemon h' c' (ms @ said fs))"
    by blast
  from system_more [OF assms(1) this(1)]
  have run: "system_run demo_parse err s (es @ [Stepped 0 (ch_phase c) fs]) s1" .
  from 2 run system_more [OF run] show ?thesis by force
qed

theorem turn_finishes_witness:
  "\<exists>(s::system) es s'. system_run demo_parse (\<lambda>_. []) s es s'
     \<and> sy_turns (ds_sys s') 0 = Some (demo_chat\<lparr>ch_rx := 0, ch_phase := Done\<rparr>)
     \<and> said_by 0 es = [ChatComplete ''r'' ''Hello''] \<and> own_steps 0 es \<le> 2
     \<and> (\<forall>k. routes (sy_hub (ds_sys s')) k \<noteq> Some 0)"
proof -
  let ?c = "\<lambda>p. demo_chat\<lparr>ch_rx := 0, ch_phase := p\<rparr>"
  let ?d = "daemon_message.Draft ''r'' ''He''" let ?m = "ChatComplete ''r'' ''Hello''"
  let ?s = "demo_daemon (socket_text demo_parse ''s'' demo_drafted) (?c Looping) [?d]"
  let ?es = "[Stepped 0 Looping [ToConn ?m], Stepped 0 Closing []]"
  note steps = demo_chat_steps [where stop = False and dbus = True]
  obtain c' h' where fin: "chat_finish (?c Closing) demo_replied = (c', h')" by force
  then have c': "c' = ?c Done" by (auto simp: chat_finish_def Let_def)
  have "chat_step True False (?c Closing) demo_replied [] c' h'"
    using fin by (intro chat_step.step_finish) simp_all
  moreover have "system_run demo_parse (\<lambda>_. []) ?s [Stepped 0 Looping [ToConn ?m]]
      (demo_daemon demo_replied (?c Closing) [?d, ?m])"
    using demo_turn_run [OF system_none steps(4), of "[?d]"] by (simp add: conn_queue_def)
  ultimately have run: "system_run demo_parse (\<lambda>_. []) ?s ?es (demo_daemon h' c' [?d, ?m])"
    using demo_turn_run by (fastforce simp: conn_queue_def)
  have "\<not> cancelled (demo_conn [?d, ?m]) 0" by simp
  moreover have "queue (from_chans (sy_hub (ds_sys ?s)) (ch_rx (?c Looping))) = [] @ Send ''c'' ''Hello'' # []"
    by (simp add: demo_state_def demo_reply_facts)
  ultimately have "said_by 0 ?es = [?m] \<and> own_steps 0 ?es \<le> 2 \<and> (\<forall>k. routes h' k \<noteq> Some 0)"
    using turn_finishes [OF demo_reply_waits _ _ _ _ _ run, of 0 0 0 "?c Looping" "[]" "''c''" "''Hello''" "[]"] c'
    by (simp add: demo_state_def)
  then show ?thesis using run c'
    by (intro exI [of _ ?s] exI [of _ ?es] exI [of _ "demo_daemon h' c' [?d, ?m]"]) (simp add: demo_state_def)
qed

end
