(* ===== verification/Daemon_Drain.thy ===== *)
theory Daemon_Drain
  imports Daemon_Progress Bridge_Shutdown
begin

text \<open>
  The end of a connection of the running daemon. Once the reader has stopped, because the client closed its
  end, the stream failed or the daemon shuts down, \<open>handle_connection\<close> drops its \<open>Conn\<close> and waits for the
  writer, which ends when the last request task has dropped its own. The tasks are the daemon's: a query
  is answered and done, but a chat turn goes on, and nothing but the adapter or a cancel lets one that
  waits for a frame end.
\<close>

section \<open>The steps that are left\<close>

text \<open>
  The steps of \<open>system_step\<close> that are made by the request tasks of connection \<open>c\<close> and by its writer; no other
  part of the daemon moves. With \<open>reliable\<close> no write fails. Rounds of the writer that change nothing are left out.
\<close>

inductive drain_step ::
    "(string \<Rightarrow> json option) \<Rightarrow> (string \<Rightarrow> string) \<Rightarrow> bool \<Rightarrow> nat \<Rightarrow> system \<Rightarrow> system \<Rightarrow> bool"
  for parse err reliable c
where
  drain_answer: "ds_conns s c = Some cs \<Longrightarrow> running cs tok \<Longrightarrow> (c, tok) \<notin> ds_taken s \<Longrightarrow>
    handle env now rand (ds_handler s) (requests cs ! tok) = (h', Replies ms) \<Longrightarrow>
    drain_step parse err reliable c s
      (s\<lparr>ds_handler := h', ds_taken := insert (c, tok) (ds_taken s),
         ds_pending := (ds_pending s)((c, tok) := ms)\<rparr>)"
| drain_begin: "ds_conns s c = Some cs \<Longrightarrow> running cs tok \<Longrightarrow> (c, tok) \<notin> ds_taken s \<Longrightarrow>
    handle env now rand (ds_handler s) (requests cs ! tok) = (h', Turn ch) \<Longrightarrow>
    sys_step parse (hd_dbus (ds_handler s)) (ds_sys s) (Spawned t ch) sy' \<Longrightarrow>
    drain_step parse err reliable c s
      (s\<lparr>ds_sys := sy', ds_owner := (ds_owner s)(t \<mapsto> (c, tok)),
         ds_taken := insert (c, tok) (ds_taken s)\<rparr>)"
| drain_turn: "ds_owner s t = Some (c, tok) \<Longrightarrow> ds_conns s c = Some cs \<Longrightarrow>
    ds_pending s (c, tok) = [] \<Longrightarrow>
    sys_step parse (hd_dbus (ds_handler s)) (observe_cancel (cancelled cs tok) t (ds_sys s))
      (Stepped t p es) sy' \<Longrightarrow>
    drain_step parse err reliable c s
      (s\<lparr>ds_sys := sy', ds_pending := (ds_pending s)((c, tok) := said es)\<rparr>)"
| drain_send: "ds_conns s c = Some cs \<Longrightarrow> ds_pending s (c, tok) = m # ms \<Longrightarrow>
    task_sends tok m cs = Some cs' \<Longrightarrow>
    drain_step parse err reliable c s
      (s\<lparr>ds_conns := (ds_conns s)(c \<mapsto> cs'), ds_pending := (ds_pending s)((c, tok) := ms)\<rparr>)"
| drain_finish: "ds_conns s c = Some cs \<Longrightarrow> (c, tok) \<in> ds_taken s \<Longrightarrow> ds_pending s (c, tok) = [] \<Longrightarrow>
    (\<And>t ch. ds_owner s t = Some (c, tok) \<Longrightarrow> sy_turns (ds_sys s) t = Some ch \<Longrightarrow> ch_phase ch = Done) \<Longrightarrow>
    task_ends tok cs = Some cs' \<Longrightarrow>
    drain_step parse err reliable c s (s\<lparr>ds_conns := (ds_conns s)(c \<mapsto> cs')\<rparr>)"
| drain_write: "ds_conns s c = Some cs \<Longrightarrow> writer_direct ok cs = Some cs' \<Longrightarrow> reliable \<longrightarrow> ok \<Longrightarrow>
    drain_step parse err reliable c s (s\<lparr>ds_conns := (ds_conns s)(c \<mapsto> cs')\<rparr>)"
| drain_event: "ds_conns s c = Some cs \<Longrightarrow>
    writer_event ok closed broadcast_cap (ds_log s) cs = Some cs' \<Longrightarrow> cs' \<noteq> cs \<Longrightarrow> reliable \<longrightarrow> ok \<Longrightarrow>
    drain_step parse err reliable c s (s\<lparr>ds_conns := (ds_conns s)(c \<mapsto> cs')\<rparr>)"
| drain_end: "ds_conns s c = Some cs \<Longrightarrow> writer_ends cs = Some cs' \<Longrightarrow>
    drain_step parse err reliable c s (s\<lparr>ds_conns := (ds_conns s)(c \<mapsto> cs')\<rparr>)"

lemma drain_system_step: "drain_step parse err reliable c s s' \<Longrightarrow> \<exists>es. system_step parse err s es s'"
proof (induction rule: drain_step.induct)
  case (drain_answer s cs tok env now rand h' ms)
  from ds_answer [OF this] show ?case by blast
next
  case (drain_begin s cs tok env now rand h' ch t sy')
  from ds_begin [OF this] show ?case by blast
next
  case (drain_turn s t tok cs p es sy')
  from ds_turn [OF this] show ?case by blast
next
  case (drain_send s cs tok m ms cs')
  from ds_send [OF this] show ?case by blast
next
  case (drain_finish s cs tok cs')
  from ds_end [OF drain_finish.hyps(1-3) _ drain_finish.hyps(5)] drain_finish.hyps(4) show ?case by blast
next
  case (drain_write s cs ok cs')
  then have "conn_own (ds_log s) cs cs'" unfolding conn_own_def by blast
  from ds_conn [OF drain_write.hyps(1) this] show ?case by blast
next
  case (drain_event s cs ok closed cs')
  then have "conn_own (ds_log s) cs cs'" unfolding conn_own_def by blast
  from ds_conn [OF drain_event.hyps(1) this] show ?case by blast
next
  case (drain_end s cs cs')
  then have "conn_own (ds_log s) cs cs'" unfolding conn_own_def by blast
  from ds_conn [OF drain_end.hyps(1) this] show ?case by blast
qed

text \<open>\<open>reached\<close>: the states the daemon can be in.\<close>

definition reached :: "(string \<Rightarrow> json option) \<Rightarrow> (string \<Rightarrow> string) \<Rightarrow> system \<Rightarrow> bool" where
  "reached parse err s = (\<exists>h tr. system_trace any_client parse err h tr s)"

lemma drain_reached: "drain_step parse err reliable c s s' \<Longrightarrow> reached parse err s \<Longrightarrow> reached parse err s'"
  unfolding reached_def using drain_system_step trace_next admits_any by metis

lemma reachedE:
  assumes "reached parse err s"
  obtains dbus tr where "views_inv dbus tr s" and "tasks_ok s" and "sys_inv (ds_sys s)"
    and "finite (dom (sy_turns (ds_sys s)))"
proof -
  from assms obtain h tr where run: "system_trace any_client parse err h tr s" unfolding reached_def by blast
  note bridge = system_trace_bridge [OF run spawn_only_cases(1)]
  show thesis
    by (rule that [OF system_trace_views [OF run] system_trace_tasks [OF run] sys_trace_inv [OF bridge]
        sys_trace_finite [OF bridge]])
qed

section \<open>How many they are\<close>

text \<open>
  A request the handler has not taken up counts as a whole turn; a turn's step may queue a message, which
  has to be sent and written.
\<close>

definition task_work :: "system \<Rightarrow> nat \<Rightarrow> conn \<Rightarrow> nat \<Rightarrow> nat" where
  "task_work s c cs tok =
     (if \<not> running cs tok then 0
      else if (c, tok) \<notin> ds_taken s then 14
      else Suc (2 * length (ds_pending s (c, tok))))"

definition turns_of :: "nat \<Rightarrow> system \<Rightarrow> nat set" where
  "turns_of c s = {t. \<exists>tok. ds_owner s t = Some (c, tok)}"

definition group_work :: "nat set \<Rightarrow> sys \<Rightarrow> nat" where
  "group_work T sy = (\<Sum>t \<in> T. turn_work (sy_hub sy) (the (sy_turns sy t)))"

definition writer_work :: "daemon_message list \<Rightarrow> conn \<Rightarrow> nat" where
  "writer_work log cs =
     length (queue (outq cs)) + (length log - bpos cs) + (if rx_live (outq cs) then 1 else 0)"

definition drain_work :: "nat \<Rightarrow> system \<Rightarrow> nat" where
  "drain_work c s =
     (case ds_conns s c of
        None \<Rightarrow> 0
      | Some cs \<Rightarrow>
          sum_list (map (task_work s c cs) [0..<length (requests cs)])
          + 3 * group_work (turns_of c s) (ds_sys s) + writer_work (ds_log s) cs)"

lemma sum_list_update:
  assumes "t < n" and "\<And>u. u \<noteq> t \<Longrightarrow> f u = g u" and "f t + (k :: nat) \<le> g t + j"
  shows "sum_list (map f [0..<n]) + k \<le> sum_list (map g [0..<n]) + j"
  using assms(1)
proof (induction n)
  case (Suc n)
  show ?case
  proof (cases "t = n")
    case True
    then have "map f [0..<n] = map g [0..<n]" using assms(2) by (intro map_cong) auto
    with assms(3) True show ?thesis by (simp del: map_eq_conv)
  next
    case False
    with Suc assms(2) [of n] show ?thesis by simp
  qed
qed simp

lemma writer_direct_work: "writer_direct ok cs = Some cs' \<Longrightarrow> writer_work log cs' < writer_work log cs"
  by (erule writer_direct_cases) (auto simp: writer_work_def split: if_splits)

lemma writer_event_work:
  "writer_event ok closed capacity log cs = Some cs' \<Longrightarrow> cs' \<noteq> cs \<Longrightarrow> writer_work log cs' < writer_work log cs"
  by (auto simp: writer_event_def bcast_recv_def Let_def writer_work_def split: if_splits)

lemma writer_ends_work: "writer_ends cs = Some cs' \<Longrightarrow> writer_work log cs' < writer_work log cs"
  by (auto simp: writer_ends_def writer_work_def split: if_splits)

lemma writer_keeps_tasks:
  assumes "writer_direct ok cs = Some cs' \<or> writer_event ok closed capacity log cs = Some cs' \<or> writer_ends cs = Some cs'"
  shows "running cs' = running cs \<and> requests cs' = requests cs \<and> reading cs' = reading cs
    \<and> sent cs' = sent cs \<and> cancelled cs' = cancelled cs"
  using assms
  by (auto simp: writer_direct_def writer_event_def writer_ends_def Let_def
      split: if_splits prod.splits recv.splits bcast_recv.splits)

lemma replies_at_most_one: "handle env now rand st msg = (st', Replies ms) \<Longrightarrow> length ms \<le> 1"
  by (cases msg) (auto split: sum.splits)

lemma turns_of_bound:
  assumes "views_inv dbus tr s"
  shows "turns_of c s \<subseteq> dom (sy_turns (ds_sys s))"
proof
  fix t
  assume "t \<in> turns_of c s"
  moreover from assms have "unowned_ok tr s" by (simp add: views_inv_def)
  ultimately show "t \<in> dom (sy_turns (ds_sys s))"
    using unowned_okD(1) [of tr s t] by (auto simp: turns_of_def)
qed

text \<open>A step of the writer, with the tasks as they were.\<close>

lemma drain_work_writer:
  assumes "ds_conns s c = Some cs" and "running cs' = running cs" "requests cs' = requests cs"
    and "writer_work (ds_log s) cs' < writer_work (ds_log s) cs"
  shows "drain_work c (s\<lparr>ds_conns := (ds_conns s)(c \<mapsto> cs')\<rparr>) < drain_work c s"
proof -
  have "task_work (s\<lparr>ds_conns := (ds_conns s)(c \<mapsto> cs')\<rparr>) c cs' = task_work s c cs"
    by (simp add: task_work_def assms(2) fun_eq_iff)
  with assms(1,3,4) show ?thesis by (simp add: drain_work_def turns_of_def)
qed

lemma drain_decreases:
  assumes step: "drain_step parse err reliable c s s'" and reach: "reached parse err s"
  shows "drain_work c s' < drain_work c s"
proof -
  from reach obtain dbus tr where inv: "views_inv dbus tr s" and "tasks_ok s" and sys: "sys_inv (ds_sys s)"
    and fin: "finite (dom (sy_turns (ds_sys s)))" by (rule reachedE)
  from inv have own: "owners_ok dbus tr s" and req: "requests_ok s" and free: "unowned_ok tr s"
    by (simp_all add: views_inv_def)
  have finT: "finite (turns_of c s)" by (rule finite_subset [OF turns_of_bound [OF inv] fin])
  note bound = running_bound [OF requests_okD(1) [OF req]]
  from step show ?thesis
  proof (cases rule: drain_step.cases)
    case (drain_answer cs tok env now rand h' ms)
    have "sum_list (map (task_work s' c cs) [0..<length (requests cs)]) + 1
        \<le> sum_list (map (task_work s c cs) [0..<length (requests cs)]) + 0"
      by (rule sum_list_update [OF bound [OF drain_answer(2,3)]])
        (use drain_answer(3,4) replies_at_most_one [OF drain_answer(5)] in \<open>auto simp: task_work_def drain_answer(1)\<close>)
    with drain_answer(1,2) show ?thesis by (simp add: drain_work_def turns_of_def)
  next
    case (drain_begin cs tok env now rand h' ch t sy')
    from spawned_step [OF drain_begin(6)] have new: "sy_turns (ds_sys s) t = None"
      and sy': "sy' = (ds_sys s)\<lparr>sy_turns := (sy_turns (ds_sys s))(t \<mapsto> ch)\<rparr>" by simp_all
    from new unowned_okD(1) [OF free] have notin: "ds_owner s t = None" by simp
    have "snd (handle env now rand (ds_handler s) (requests cs ! tok)) = Turn ch" by (simp add: drain_begin(5))
    then have "ch_phase ch = Opening" by (auto simp: handle_turn)
    then have work: "turn_work h ch = 4" for h by (simp add: turn_work_def)
    have T: "turns_of c s' = insert t (turns_of c s)" "t \<notin> turns_of c s"
      using notin by (auto simp: turns_of_def drain_begin(1) split: if_splits)
    have "group_work (turns_of c s) sy' = group_work (turns_of c s) (ds_sys s)"
      unfolding group_work_def by (rule sum.cong) (use T(2) in \<open>auto simp: sy'\<close>)
    moreover have "group_work (insert t (turns_of c s)) sy' = 4 + group_work (turns_of c s) sy'"
      unfolding group_work_def using finT T(2) work by (simp add: sy')
    moreover have "sum_list (map (task_work s' c cs) [0..<length (requests cs)]) + 13
        \<le> sum_list (map (task_work s c cs) [0..<length (requests cs)]) + 0"
      by (rule sum_list_update [OF bound [OF drain_begin(2,3)]])
        (use drain_begin(3,4) requests_okD(5) [OF req drain_begin(4)] in \<open>auto simp: task_work_def drain_begin(1)\<close>)
    ultimately show ?thesis using drain_begin(1,2) T(1) by (simp add: drain_work_def)
  next
    case (drain_turn t tok cs p es sy')
    let ?sy = "observe_cancel (cancelled cs tok) t (ds_sys s)"
    have sys': "sys_inv ?sy" using sys by (simp add: observe_cancel_def sys_inv_def)
    have same: "group_work T ?sy = group_work T (ds_sys s)" for T
      by (simp add: group_work_def observe_cancel_def)
    have T: "turns_of c s \<subseteq> dom (sy_turns ?sy)" "t \<in> turns_of c s"
      using turns_of_bound [OF inv] drain_turn(2) by (auto simp: turns_of_def)
    have "group_work (turns_of c s) sy' < group_work (turns_of c s) (ds_sys s)"
      using group_work_step [OF drain_turn(5) sys' finT T] same unfolding group_work_def by metis
    moreover from drain_turn(5) obtain ch ch' h' where "chat_step (hd_dbus (ds_handler s)) (t \<in> sy_cancelled ?sy) ch (sy_hub ?sy) es ch' h'"
      by (rule stepped_step)
    then have one: "length (said es) \<le> 1" by (rule said_at_most_one)
    from owners_okD [OF own drain_turn(2)] have taken: "(c, tok) \<in> ds_taken s" by blast
    have "running cs tok" by (rule tasks_turn(1) [OF \<open>tasks_ok s\<close> drain_turn(2,3) taken drain_turn(5)])
    then have "sum_list (map (task_work s' c cs) [0..<length (requests cs)]) + 0
        \<le> sum_list (map (task_work s c cs) [0..<length (requests cs)]) + 2"
      by (intro sum_list_update [OF bound [OF drain_turn(3)]])
        (use drain_turn(4) taken one in \<open>auto simp: task_work_def drain_turn(1)\<close>)
    ultimately show ?thesis using drain_turn(1,3) by (simp add: drain_work_def turns_of_def)
  next
    case (drain_send cs tok m ms cs')
    from drain_send(4) have run: "running cs tok"
      and cs': "cs' = cs\<lparr>outq := fst (chan_send m (outq cs)), sent := (sent cs)(tok := sent cs tok @ [m])\<rparr>"
      by (auto simp: task_sends_def dest!: conn_send_Some split: if_splits)
    have taken: "(c, tok) \<in> ds_taken s" using requests_okD(5) [OF req, of c tok] drain_send(3) by force
    have "sum_list (map (task_work s' c cs') [0..<length (requests cs)]) + 2
        \<le> sum_list (map (task_work s c cs) [0..<length (requests cs)]) + 0"
      by (rule sum_list_update [OF bound [OF drain_send(2) run]])
        (use drain_send(3) run taken in \<open>auto simp: task_work_def drain_send(1) cs'\<close>)
    moreover have "writer_work (ds_log s) cs' \<le> Suc (writer_work (ds_log s) cs)"
      by (simp add: writer_work_def cs')
    moreover have "requests cs' = requests cs" by (simp add: cs')
    ultimately show ?thesis using drain_send(1,2) by (simp add: drain_work_def turns_of_def)
  next
    case (drain_finish cs tok cs')
    from drain_finish(6) obtain F where run: "running cs tok"
      and cs': "cs' = cs\<lparr>running := (running cs)(tok := False), in_flight := F\<rparr>"
      by (auto simp: task_ends_def split: if_splits)
    have "sum_list (map (task_work s' c cs') [0..<length (requests cs)]) + 1
        \<le> sum_list (map (task_work s c cs) [0..<length (requests cs)]) + 0"
      by (rule sum_list_update [OF bound [OF drain_finish(2) run]])
        (use run drain_finish(3) in \<open>auto simp: task_work_def drain_finish(1) cs'\<close>)
    moreover have "requests cs' = requests cs" "writer_work (ds_log s) cs' = writer_work (ds_log s) cs"
      by (simp_all add: cs' writer_work_def)
    ultimately show ?thesis using drain_finish(1,2) by (simp add: drain_work_def turns_of_def)
  next
    case (drain_write cs ok cs')
    with writer_keeps_tasks [of ok cs cs'] writer_direct_work show ?thesis by (simp add: drain_work_writer)
  next
    case (drain_event cs ok closed cs')
    have "running cs' = running cs \<and> requests cs' = requests cs"
      using writer_keeps_tasks drain_event(3) by blast
    with drain_event writer_event_work show ?thesis by (simp add: drain_work_writer)
  next
    case (drain_end cs cs')
    with writer_keeps_tasks [of _ cs cs'] writer_ends_work show ?thesis by (simp add: drain_work_writer)
  qed
qed

section \<open>What they keep\<close>

lemma drain_keeps:
  assumes "drain_step parse err reliable c s s'" and "ds_conns s c = Some cs"
  shows "\<exists>cs'. ds_conns s' c = Some cs' \<and> reading cs' = reading cs \<and> cancelled cs' = cancelled cs
    \<and> (\<forall>tok. running cs' tok \<longrightarrow> running cs tok)"
  using assms(1)
proof (cases rule: drain_step.cases)
  case (drain_send cs1 tok m ms cs')
  then show ?thesis using assms(2) by (auto simp: task_sends_def dest!: conn_send_Some split: if_splits)
next
  case (drain_finish cs1 tok cs')
  then show ?thesis using assms(2) by (auto simp: task_ends_def split: if_splits)
next
  case (drain_write cs1 ok cs')
  then show ?thesis using assms(2) writer_keeps_tasks [of ok cs1 cs'] by auto
next
  case (drain_event cs1 ok closed cs')
  then show ?thesis using assms(2) writer_keeps_tasks [of ok cs1 cs' closed broadcast_cap "ds_log s"] by auto
next
  case (drain_end cs1 cs')
  then show ?thesis using assms(2) writer_keeps_tasks [of _ cs1 cs'] by auto
qed (use assms(2) in simp_all)

lemma drain_run_keeps:
  assumes "(drain_step parse err reliable c)\<^sup>*\<^sup>* s s'" and "reached parse err s" and "ds_conns s c = Some cs"
  shows "reached parse err s' \<and> (\<exists>cs'. ds_conns s' c = Some cs' \<and> reading cs' = reading cs
    \<and> cancelled cs' = cancelled cs \<and> (\<forall>tok. running cs' tok \<longrightarrow> running cs tok))"
  using assms
proof (induction rule: rtranclp_induct)
  case (step s1 s2)
  then obtain cs1 where 1: "reached parse err s1" "ds_conns s1 c = Some cs1" "reading cs1 = reading cs"
    "cancelled cs1 = cancelled cs" "\<forall>tok. running cs1 tok \<longrightarrow> running cs tok" by blast
  from drain_keeps [OF step.hyps(2) 1(2)] 1 drain_reached [OF step.hyps(2)] show ?case by auto
qed simp

lemma drain_run_length:
  assumes "(drain_step parse err reliable c ^^ n) s s'" and "reached parse err s"
  shows "reached parse err s' \<and> n + drain_work c s' \<le> drain_work c s"
  using assms
proof (induction n arbitrary: s')
  case (Suc n)
  then obtain s1 where 1: "(drain_step parse err reliable c ^^ n) s s1" and 2: "drain_step parse err reliable c s1 s'"
    by (auto simp: relpowp_Suc_right)
  from Suc.IH [OF 1 Suc.prems(2)] have *: "reached parse err s1" "n + drain_work c s1 \<le> drain_work c s"
    by simp_all
  from drain_decreases [OF 2 *(1)] drain_reached [OF 2 *(1)] *(2) show ?case by simp
qed simp

definition drained :: "(string \<Rightarrow> json option) \<Rightarrow> (string \<Rightarrow> string) \<Rightarrow> bool \<Rightarrow> nat \<Rightarrow> system \<Rightarrow> bool" where
  "drained parse err reliable c s = (\<forall>s'. \<not> drain_step parse err reliable c s s')"

lemma drain_reaches_end:
  "reached parse err s \<Longrightarrow> \<exists>s'. (drain_step parse err reliable c)\<^sup>*\<^sup>* s s' \<and> drained parse err reliable c s'"
proof (induction "drain_work c s" arbitrary: s rule: less_induct)
  case less
  show ?case
  proof (cases "drained parse err reliable c s")
    case False
    then obtain s1 where 1: "drain_step parse err reliable c s s1" by (auto simp: drained_def)
    from less.hyps [OF drain_decreases [OF 1 less.prems] drain_reached [OF 1 less.prems]] 1
    show ?thesis by (meson converse_rtranclp_into_rtranclp)
  qed blast
qed

text \<open>With writes that succeed the writer stays until everything that was queued is on the wire.\<close>

definition ended_in_order :: "conn \<Rightarrow> bool" where
  "ended_in_order cs =
     (\<not> rx_live (outq cs) \<longrightarrow>
        queue (outq cs) = [] \<and> (\<forall>tok. \<not> running cs tok \<and> subseq (sent cs tok) (directs cs)))"

lemma drain_in_order:
  assumes step: "drain_step parse err True c s s'" and reach: "reached parse err s"
    and c: "ds_conns s c = Some cs" "ds_conns s' c = Some cs'" and ord: "ended_in_order cs"
  shows "ended_in_order cs'"
proof -
  from reach obtain dbus tr where "views_inv dbus tr s" by (rule reachedE)
  then have reach: "conn_reach daemon_may (ds_log s) cs"
    using requests_okD(1) [OF _ c(1)] by (simp add: views_inv_def)
  from step show ?thesis
  proof (cases rule: drain_step.cases)
    case (drain_send cs1 tok m ms cs2)
    with c have "task_sends tok m cs = Some cs'" by simp
    with ord show ?thesis
      by (auto simp: ended_in_order_def task_sends_def dest!: conn_send_Some split: if_splits)
  next
    case (drain_finish cs1 tok cs2)
    with c have "task_ends tok cs = Some cs'" by simp
    with ord show ?thesis by (auto simp: ended_in_order_def task_ends_def split: if_splits)
  next
    case (drain_write cs1 ok cs2)
    with c have "writer_direct True cs = Some cs'" by simp
    then show ?thesis by (rule writer_direct_cases) (simp add: ended_in_order_def)
  next
    case (drain_event cs1 ok closed cs2)
    with c have "writer_event True closed broadcast_cap (ds_log s) cs = Some cs'" by simp
    then have "rx_live (outq cs')"
      by (auto simp: writer_event_def Let_def split: if_splits prod.splits bcast_recv.splits)
    then show ?thesis by (simp add: ended_in_order_def)
  next
    case (drain_end cs1 cs2)
    with c have "writer_ends cs = Some cs'" by simp
    moreover from this have "\<not> running cs tok" for tok
      using conn_reach_inv [OF reach] by (auto simp: writer_ends_def conn_inv_def list_all_iff split: if_splits)
    ultimately show ?thesis
      using orderly_written [OF conn_reach_delivery [OF reach]] writer_keeps_tasks [of _ cs cs']
      by (auto simp: ended_in_order_def writer_ends_def split: if_splits)
  qed (use c ord in simp_all)
qed

lemma drain_run_in_order:
  assumes "(drain_step parse err True c)\<^sup>*\<^sup>* s s'" and "reached parse err s" and "ds_conns s c = Some cs"
    and "ended_in_order cs" and "ds_conns s' c = Some cs'"
  shows "ended_in_order cs'"
  using assms
proof (induction arbitrary: cs' rule: rtranclp_induct)
  case (step s1 s2)
  from drain_run_keeps [OF step.hyps(1) step.prems(1,2)] obtain cs1 where
    1: "reached parse err s1" "ds_conns s1 c = Some cs1" by blast
  from drain_in_order [OF step.hyps(2) 1 step.prems(4) step.IH [OF step.prems(1-3) 1(2)]] show ?case .
qed simp

section \<open>Where they end\<close>

text \<open>
  A request whose chat turn waits for a frame that is not there: nobody has cancelled it, and its channel is
  empty and still open.
\<close>

definition waits_for_adapter :: "system \<Rightarrow> nat \<Rightarrow> conn \<Rightarrow> nat \<Rightarrow> bool" where
  "waits_for_adapter s c cs tok =
     (\<exists>t ch. ds_owner s t = Some (c, tok) \<and> sy_turns (ds_sys s) t = Some ch \<and> ch_phase ch = Looping
        \<and> \<not> cancelled cs tok \<and> queue (from_chans (sy_hub (ds_sys s)) (ch_rx ch)) = []
        \<and> tx_count (from_chans (sy_hub (ds_sys s)) (ch_rx ch)) \<noteq> 0)"

lemma drain_takes_up:
  assumes "reached parse err s" and "ds_conns s c = Some cs" and "running cs tok" and "(c, tok) \<notin> ds_taken s"
  shows "\<exists>s'. drain_step parse err reliable c s s'"
proof -
  obtain h' r where h: "handle undefined None (\<lambda>_. 0) (ds_handler s) (requests cs ! tok) = (h', r)" by force
  show ?thesis
  proof (cases r)
    case (Replies ms)
    with drain_answer [OF assms(2-4)] h show ?thesis by blast
  next
    case (Turn ch)
    with h have "snd (handle undefined None (\<lambda>_. 0) (ds_handler s) (requests cs ! tok)) = Turn ch" by simp
    then obtain rid sid msg where ch: "ch = handle_chat None (\<lambda>_. 0) rid sid msg" by (auto simp: handle_turn)
    have "finite (dom (sy_turns (ds_sys s)))" using assms(1) by (rule reachedE)
    then obtain t where "t \<notin> dom (sy_turns (ds_sys s))" using ex_new_if_finite [OF infinite_UNIV_nat] by blast
    then have "sy_turns (ds_sys s) t = None" by blast
    from drain_begin [OF assms(2-4) h [unfolded Turn] sys_spawn [OF this ch]] show ?thesis by blast
  qed
qed

lemma drain_writer_goes:
  assumes "ds_conns s c = Some cs" and "rx_live (outq cs)" and "queue (outq cs) \<noteq> []"
  shows "\<exists>s'. drain_step parse err reliable c s s'"
proof -
  from assms(2,3) obtain cs' where "writer_direct True cs = Some cs'"
    by (auto simp: writer_direct_def chan_recv_def neq_Nil_conv)
  from drain_write [OF assms(1) this] show ?thesis by blast
qed

lemma drained_sends:
  assumes "drained parse err reliable c s" and "reached parse err s" and "ds_conns s c = Some cs"
  shows "ds_pending s (c, tok) = []"
proof (rule ccontr)
  assume "ds_pending s (c, tok) \<noteq> []"
  then obtain m ms where p: "ds_pending s (c, tok) = m # ms" by (cases "ds_pending s (c, tok)") auto
  from assms(2) obtain h tr where "system_trace any_client parse err h tr s" unfolding reached_def by blast
  from pending_sends(2) [OF this assms(3) p]
  consider cs' where "task_sends tok m cs = Some cs'" | cs1 where "writer_direct True cs = Some cs1"
    by (auto split: if_splits)
  then show False
    using drain_send [OF assms(3) p] drain_write [OF assms(3)] assms(1) unfolding drained_def by cases blast+
qed

lemma drained_task_waits:
  assumes rest: "drained parse err reliable c s" and reach: "reached parse err s"
    and c: "ds_conns s c = Some cs" and run: "running cs tok"
  shows "waits_for_adapter s c cs tok"
proof -
  from reach obtain dbus tr where "views_inv dbus tr s" by (rule reachedE)
  then have own: "owners_ok dbus tr s" and free: "unowned_ok tr s" by (simp_all add: views_inv_def)
  have taken: "(c, tok) \<in> ds_taken s"
    using drain_takes_up [OF reach c run] rest unfolding drained_def by blast
  note idle = drained_sends [OF rest reach c, of tok]
  obtain cs' where ends: "task_ends tok cs = Some cs'" using run by (simp add: task_ends_def)
  have "\<exists>t ch. ds_owner s t = Some (c, tok) \<and> sy_turns (ds_sys s) t = Some ch \<and> ch_phase ch \<noteq> Done"
    using drain_finish [OF c taken idle _ ends] rest unfolding drained_def by blast
  then obtain t ch where t: "ds_owner s t = Some (c, tok)" "sy_turns (ds_sys s) t = Some ch" "ch_phase ch \<noteq> Done"
    by blast
  have still: "\<not> sys_step parse (hd_dbus (ds_handler s)) (observe_cancel (cancelled cs tok) t (ds_sys s)) (Stepped t p es) sy'"
    for p es sy'
    using drain_turn [OF t(1) c idle] rest unfolding drained_def by blast
  let ?sy = "observe_cancel (cancelled cs tok) t (ds_sys s)"
  have "\<not> chat_step (hd_dbus (ds_handler s)) (t \<in> sy_cancelled ?sy) ch (sy_hub ?sy) es ch' h'" for es ch' h'
  proof
    assume "chat_step (hd_dbus (ds_handler s)) (t \<in> sy_cancelled ?sy) ch (sy_hub ?sy) es ch' h'"
    moreover have "sy_turns ?sy t = Some ch" by (simp add: t(2))
    ultimately show False using sys_turn [of ?sy t ch _ es ch' h' parse] still by blast
  qed
  with chat_progress [of "hd_dbus (ds_handler s)" "t \<in> sy_cancelled ?sy" ch "sy_hub ?sy"] t(3)
  have "ch_phase ch = Looping" "t \<notin> sy_cancelled ?sy" "queue (from_chans (sy_hub ?sy) (ch_rx ch)) = []"
    "tx_count (from_chans (sy_hub ?sy) (ch_rx ch)) \<noteq> 0" by blast+
  with t show ?thesis
    unfolding waits_for_adapter_def by (auto simp: observe_cancel_def split: if_splits)
qed

lemma drained_writer_over:
  assumes rest: "drained parse err reliable c s" and c: "ds_conns s c = Some cs" and "\<not> reading cs"
  shows "rx_live (outq cs) \<longrightarrow> queue (outq cs) = [] \<and> (\<exists>tok. running cs tok)"
proof
  assume live: "rx_live (outq cs)"
  have empty: "queue (outq cs) = []"
    using drain_writer_goes [OF c live] rest unfolding drained_def by blast
  moreover have "\<exists>tok. running cs tok"
  proof (rule ccontr)
    assume "\<nexists>tok. running cs tok"
    with live empty assms(3) obtain cs' where "writer_ends cs = Some cs'"
      by (auto simp: writer_ends_def list_all_iff)
    from drain_end [OF c this] rest show False unfolding drained_def by blast
  qed
  ultimately show "queue (outq cs) = [] \<and> (\<exists>tok. running cs tok)" by blast
qed

section \<open>The end of a connection\<close>

text \<open>
  C17: a connection of the daemon whose reader has stopped, left to its request tasks and its writer: the
  number of their steps is bounded beforehand, however writes fail, and some run comes to rest.
  Wherever it comes to rest, every request task that still runs is a chat turn that waits for the adapter: not
  cancelled, with nothing in its channel, which is open. So it is not said that every connection ends: the
  end of the client's stream cancels no turn, and only a connection without such a turn comes to its
  end. One whose running requests were all cancelled, as at the daemon's shutdown, has no task
  left; and without a task the writer has ended. If no write failed and the writer was there, nothing waits to be
  sent or written any more, and what each task queued is on the wire, in order. (A query is
  answered in one step: the REST calls it waits for have timeouts.)
\<close>

theorem connection_drains:
  assumes "system_trace any_client parse err h tr s" and "ds_conns s c = Some cs" and "\<not> reading cs"
  shows "(\<forall>n s'. (drain_step parse err reliable c ^^ n) s s' \<longrightarrow> n \<le> drain_work c s)
    \<and> (\<exists>s'. (drain_step parse err reliable c)\<^sup>*\<^sup>* s s' \<and> drained parse err reliable c s')
    \<and> (\<forall>s' cs'. (drain_step parse err reliable c)\<^sup>*\<^sup>* s s' \<and> drained parse err reliable c s'
          \<and> ds_conns s' c = Some cs' \<longrightarrow>
         (\<forall>tok. running cs' tok \<longrightarrow> waits_for_adapter s' c cs' tok)
         \<and> ((\<forall>tok. running cs tok \<longrightarrow> cancelled cs tok) \<longrightarrow> (\<forall>tok. \<not> running cs' tok))
         \<and> ((\<forall>tok. \<not> running cs' tok) \<longrightarrow> \<not> rx_live (outq cs'))
         \<and> (reliable \<and> rx_live (outq cs) \<longrightarrow>
             queue (outq cs') = []
             \<and> (\<forall>tok. ds_pending s' (c, tok) = [] \<and> subseq (sent cs' tok) (directs cs'))))"
proof -
  have reach: "reached parse err s" using assms(1) unfolding reached_def by blast
  have "(\<forall>tok. running cs' tok \<longrightarrow> waits_for_adapter s' c cs' tok)
         \<and> ((\<forall>tok. running cs tok \<longrightarrow> cancelled cs tok) \<longrightarrow> (\<forall>tok. \<not> running cs' tok))
         \<and> ((\<forall>tok. \<not> running cs' tok) \<longrightarrow> \<not> rx_live (outq cs'))
         \<and> (reliable \<and> rx_live (outq cs) \<longrightarrow>
             queue (outq cs') = []
             \<and> (\<forall>tok. ds_pending s' (c, tok) = [] \<and> subseq (sent cs' tok) (directs cs')))"
    if run: "(drain_step parse err reliable c)\<^sup>*\<^sup>* s s'" and rest: "drained parse err reliable c s'"
      and c: "ds_conns s' c = Some cs'" for s' cs'
  proof -
    from drain_run_keeps [OF run reach assms(2)] c assms(3)
    have reach': "reached parse err s'" and stopped: "\<not> reading cs'" and can: "cancelled cs' = cancelled cs"
      and fewer: "\<And>tok. running cs' tok \<Longrightarrow> running cs tok" by auto
    note waits = drained_task_waits [OF rest reach' c]
    note over = drained_writer_over [OF rest c stopped]
    have "queue (outq cs') = [] \<and> subseq (sent cs' tok) (directs cs')"
      if "reliable" and "rx_live (outq cs)" for tok
    proof (cases "rx_live (outq cs')")
      case True
      from reach' obtain dbus tr' where "views_inv dbus tr' s'" by (rule reachedE)
      then have "conn_reach daemon_may (ds_log s') cs'"
        using requests_okD(1) [OF _ c] by (simp add: views_inv_def)
      from conn_reach_delivery [OF this] over True show ?thesis by (simp add: delivery_inv_def)
    next
      case False
      have "ended_in_order cs" using that(2) by (simp add: ended_in_order_def)
      from drain_run_in_order [OF _ reach assms(2) this c] run that(1) have "ended_in_order cs'" by simp
      with False show ?thesis by (simp add: ended_in_order_def)
    qed
    with waits over can fewer drained_sends [OF rest reach' c] show ?thesis
      unfolding waits_for_adapter_def by metis
  qed
  moreover have "n \<le> drain_work c s" if "(drain_step parse err reliable c ^^ n) s s'" for n s'
    using drain_run_length [OF that reach] by simp
  ultimately show ?thesis using drain_reaches_end [OF reach] by blast
qed

text \<open>The demonstration run's connection while its turn waits for the first frame: the reader stops at a shutdown.\<close>

lemma demo_stopped:
  "\<exists>tr s. system_trace any_client demo_parse err demo_handler tr s
     \<and> ds_conns s 0 = Some (shutdown_fires (reader_stops (demo_conn [])))"
proof -
  let ?s = "demo_daemon demo_sent (demo_chat\<lparr>ch_rx := 0, ch_phase := Looping\<rparr>) []"
  let ?cs = "shutdown_fires (reader_stops (demo_conn []))"
  have "conn_own [] (demo_conn []) (reader_stops (demo_conn []))" "conn_own [] (reader_stops (demo_conn [])) ?cs"
    unfolding conn_own_def by blast+
  then have 1: "system_step demo_parse err ?s [] (?s\<lparr>ds_conns := [0 \<mapsto> reader_stops (demo_conn [])]\<rparr>)"
    and 2: "system_step demo_parse err (?s\<lparr>ds_conns := [0 \<mapsto> reader_stops (demo_conn [])]\<rparr>) []
        (?s\<lparr>ds_conns := [0 \<mapsto> ?cs]\<rparr>)"
    using ds_conn [of ?s 0 "demo_conn []" "reader_stops (demo_conn [])" demo_parse err]
      ds_conn [of "?s\<lparr>ds_conns := [0 \<mapsto> reader_stops (demo_conn [])]\<rparr>" 0 "reader_stops (demo_conn [])" ?cs
        demo_parse err]
    by (simp_all add: demo_daemon_def)
  from trace_next [OF trace_next [OF any_client_system [OF demo_looping] 1] 2] show ?thesis by force
qed

theorem connection_drains_witness:
  "\<exists>(s::system) s' cs'. ds_conns s 0 = Some (shutdown_fires (reader_stops (demo_conn [])))
     \<and> (drain_step demo_parse (\<lambda>_. []) True 0)\<^sup>*\<^sup>* s s' \<and> ds_conns s' 0 = Some cs'
     \<and> (\<forall>tok. \<not> running cs' tok) \<and> \<not> rx_live (outq cs') \<and> queue (outq cs') = []"
proof -
  let ?cs = "shutdown_fires (reader_stops (demo_conn []))"
  obtain tr s where run: "system_trace any_client demo_parse (\<lambda>_. []) demo_handler tr s"
    and c: "ds_conns s 0 = Some ?cs"
    using demo_stopped by blast
  have cs: "\<not> reading ?cs" "rx_live (outq ?cs)" "\<forall>tok. running ?cs tok \<longrightarrow> cancelled ?cs tok"
    by (simp_all add: shutdown_fires_def reader_stops_def chan_new_def)
  note ends = connection_drains [OF run c cs(1), of True]
  from ends obtain s' where rest: "(drain_step demo_parse (\<lambda>_. []) True 0)\<^sup>*\<^sup>* s s'"
    "drained demo_parse (\<lambda>_. []) True 0 s'" by blast
  have "reached demo_parse (\<lambda>_. []) s" using run unfolding reached_def by blast
  from drain_run_keeps [OF rest(1) this c] obtain cs' where c': "ds_conns s' 0 = Some cs'" by blast
  from ends rest c' cs(2,3) have "\<forall>tok. \<not> running cs' tok" "\<not> rx_live (outq cs')" "queue (outq cs') = []"
    by blast+
  with c rest(1) c' show ?thesis by blast
qed

end
