(* ===== verification/Daemon_Events.thy ===== *)
theory Daemon_Events
  imports Daemon_Relay Wire_Text
begin

text \<open>
  The events of the running daemon: what a subscribed connection is written of the status changes and
  toasts that were broadcast. Its writer may be told that it lagged, after which events are missing;
  as long as it is never more than the channel's capacity behind, none is.
\<close>

section \<open>A connection that is fed\<close>

text \<open>
  \<open>fed log cs cs'\<close>: from \<open>cs\<close> to \<open>cs'\<close> the writer has taken a stretch of the channel, and a subscriber's
  writer that still lives has written all of it.
\<close>

definition fed :: "daemon_message list \<Rightarrow> conn \<Rightarrow> conn \<Rightarrow> bool" where
  "fed log cs cs' =
     (bpos cs \<le> bpos cs' \<and> (bpos cs \<le> length log \<longrightarrow> bpos cs' \<le> length log)
      \<and> (subscribed cs \<longrightarrow> subscribed cs') \<and> (rx_live (outq cs') \<longrightarrow> rx_live (outq cs))
      \<and> (subscribed cs \<and> rx_live (outq cs') \<longrightarrow>
           events cs' = events cs @ take (bpos cs' - bpos cs) (drop (bpos cs) log)))"

lemma fed_same:
  assumes "bpos cs' = bpos cs" and "wire_out cs' = wire_out cs" and "subscribed cs \<longrightarrow> subscribed cs'"
    and "rx_live (outq cs') \<longrightarrow> rx_live (outq cs)"
  shows "fed log cs cs'"
  using assms by (simp add: fed_def events_def)

lemma fed_trans:
  assumes "fed log cs cs1" and "fed (log @ new) cs1 cs2" and "bpos cs \<le> length log"
  shows "fed (log @ new) cs cs2"
proof -
  from assms(1,3) have p: "bpos cs \<le> bpos cs1" "bpos cs1 \<le> length log" by (simp_all add: fed_def)
  from assms(2) p(2) have q: "bpos cs1 \<le> bpos cs2" "bpos cs2 \<le> length (log @ new)" by (simp_all add: fed_def)
  have "take (bpos cs2 - bpos cs) (drop (bpos cs) (log @ new)) =
      take (bpos cs1 - bpos cs) (drop (bpos cs) log)
      @ take (bpos cs2 - bpos cs1) (drop (bpos cs1) (log @ new))"
  proof -
    let ?xs = "drop (bpos cs) (log @ new)"
    have d: "bpos cs2 - bpos cs = (bpos cs1 - bpos cs) + (bpos cs2 - bpos cs1)" using p q by simp
    have "take (bpos cs2 - bpos cs) ?xs =
        take (bpos cs1 - bpos cs) ?xs @ take (bpos cs2 - bpos cs1) (drop (bpos cs1 - bpos cs) ?xs)"
      unfolding d by (rule take_add)
    moreover have "take (bpos cs1 - bpos cs) ?xs = take (bpos cs1 - bpos cs) (drop (bpos cs) log)"
      using p by simp
    moreover have "drop (bpos cs1 - bpos cs) ?xs = drop (bpos cs1) (log @ new)"
      using p(1) by (simp only: drop_drop le_add_diff_inverse2)
    ultimately show ?thesis by (simp only:)
  qed
  with assms(1,2) p q show ?thesis by (auto simp: fed_def)
qed

text \<open>The writer's rounds.\<close>

lemma fed_direct:
  assumes "writer_direct ok cs = Some cs'"
  shows "fed log cs cs'"
  using assms
  by (rule writer_direct_cases) (auto simp: fed_def events_def map_filter_append List.map_filter_simps)

lemma fed_event:
  assumes w: "writer_event ok closed capacity log cs = Some cs'" and up: "length log \<le> bpos cs + capacity"
  shows "fed log cs cs'"
proof -
  from w up consider "cs' = cs" | "bpos cs < length log" "\<not> subscribed cs" "cs' = cs\<lparr>bpos := Suc (bpos cs)\<rparr>"
    | "bpos cs < length log" "subscribed cs" "rx_live (outq cs)"
      "cs' = cs\<lparr>bpos := Suc (bpos cs), wire_out := wire_out cs @ [Event (log ! bpos cs)]\<rparr>"
    | "bpos cs < length log" "cs' = cs\<lparr>bpos := Suc (bpos cs), outq := chan_drop_rx (outq cs)\<rparr>"
    by (auto simp: writer_event_def bcast_recv_def Let_def split: if_splits)
  then show ?thesis
  proof cases
    case 3
    then have "take 1 (drop (bpos cs) log) = [log ! bpos cs]"
      by (metis Cons_nth_drop_Suc One_nat_def take0 take_Suc_Cons)
    with 3 show ?thesis by (simp add: fed_def events_def map_filter_append List.map_filter_simps)
  qed (simp_all add: fed_def events_def)
qed

lemma fed_own:
  assumes "conn_own log cs cs'" and "length log \<le> bpos cs + broadcast_cap"
  shows "fed log cs cs'"
proof -
  from assms(1) consider "cs' = reader_stops cs" | "cs' = shutdown_fires cs" | "writer_ends cs = Some cs'"
    | ok where "writer_direct ok cs = Some cs'" | ok closed where "writer_event ok closed broadcast_cap log cs = Some cs'"
    unfolding conn_own_def by blast
  then show ?thesis
  proof cases
    case 3
    then have "cs' = cs\<lparr>outq := chan_drop_rx (outq cs)\<rparr>" by (simp add: writer_ends_def split: if_splits)
    then show ?thesis by (intro fed_same) simp_all
  next
    case 5
    with assms(2) show ?thesis by (blast intro: fed_event)
  qed (auto intro: fed_direct fed_same simp: reader_stops_def shutdown_fires_def)
qed

text \<open>The reader and the request tasks leave the events alone.\<close>

lemma fed_line: "on_line parse err line cs = Some cs' \<Longrightarrow> fed log cs cs'"
  by (erule on_line_cases) (auto intro: fed_same)

lemma fed_ends: "task_ends tok cs = Some cs' \<Longrightarrow> fed log cs cs'"
  by (auto simp: task_ends_def intro!: fed_same split: if_splits)

lemma fed_sends: "task_sends tok m cs = Some cs' \<Longrightarrow> fed log cs cs'"
  by (auto simp: task_sends_def intro!: fed_same dest!: conn_send_Some split: if_splits)

section \<open>Steps of the daemon\<close>

text \<open>The connection's writer is not more than the channel's capacity behind.\<close>

definition keeps_up :: "nat \<Rightarrow> system \<Rightarrow> bool" where
  "keeps_up c s = (\<forall>cs. ds_conns s c = Some cs \<longrightarrow> length (ds_log s) \<le> bpos cs + broadcast_cap)"

definition kept_step ::
    "(string \<Rightarrow> json option) \<Rightarrow> (string \<Rightarrow> string) \<Rightarrow> nat \<Rightarrow> system \<Rightarrow> system \<Rightarrow> bool" where
  "kept_step parse err c s s' = (keeps_up c s \<and> (\<exists>es. system_step parse err s es s'))"

lemma kept_step_fed:
  assumes "kept_step parse err c s s'" and c: "ds_conns s c = Some cs"
  shows "\<exists>cs' new. ds_conns s' c = Some cs' \<and> ds_log s' = ds_log s @ new \<and> fed (ds_log s) cs cs'"
proof -
  from assms obtain es where step: "system_step parse err s es s'"
    and up: "length (ds_log s) \<le> bpos cs + broadcast_cap"
    by (auto simp: kept_step_def keeps_up_def)
  have refl: "fed (ds_log s) cs cs" by (rule fed_same) simp_all
  from step show ?thesis
  proof (cases rule: system_step.cases)
    case (ds_line c' cs1 line cs')
    with fed_line [OF ds_line(4)] c refl show ?thesis by (cases "c' = c") auto
  next
    case (ds_conn c' cs1 cs')
    with fed_own [OF ds_conn(4)] c refl up show ?thesis by (cases "c' = c") auto
  next
    case (ds_send c' cs1 tok m ms cs')
    with fed_sends [OF ds_send(5)] c refl show ?thesis by (cases "c' = c") auto
  next
    case (ds_end c' cs1 tok cs')
    with fed_ends [OF ds_end(7)] c refl show ?thesis by (cases "c' = c") auto
  qed (use c refl in auto)
qed

lemma fed_more: "fed log cs cs' \<Longrightarrow> bpos cs \<le> length log \<Longrightarrow> fed (log @ new) cs cs'"
  using fed_trans [of log cs cs' new cs'] fed_same [of cs' cs' "log @ new"] by simp

lemma kept_run_fed:
  assumes "(kept_step parse err c)\<^sup>*\<^sup>* s s'" and "ds_conns s c = Some cs" and pos: "bpos cs \<le> length (ds_log s)"
  shows "\<exists>cs' new. ds_conns s' c = Some cs' \<and> ds_log s' = ds_log s @ new \<and> fed (ds_log s') cs cs'"
  using assms(1)
proof (induction rule: rtranclp_induct)
  case base
  show ?case using assms(2) fed_same [of cs cs "ds_log s"] by simp
next
  case (step s1 s2)
  from step.IH obtain cs1 new1 where 1: "ds_conns s1 c = Some cs1" "ds_log s1 = ds_log s @ new1"
    "fed (ds_log s1) cs cs1" by blast
  from kept_step_fed [OF step.hyps(2) 1(1)] obtain cs2 new2 where 2: "ds_conns s2 c = Some cs2"
    "ds_log s2 = ds_log s1 @ new2" "fed (ds_log s1) cs1 cs2" by blast
  from pos 1(2) have "bpos cs \<le> length (ds_log s1)" by simp
  moreover from this have "fed (ds_log s1) cs cs2" using fed_trans [OF 1(3), of "[]" cs2] 2(3) by simp
  ultimately have "fed (ds_log s2) cs cs2" unfolding 2(2) by (intro fed_more)
  with 1 2 show ?case by simp
qed

lemma conn_position:
  assumes "system_trace ok parse err h tr s" and "ds_conns s c = Some cs"
  shows "bpos cs \<le> length (ds_log s)"
proof -
  from system_trace_views [OF assms(1)] have "requests_ok s" by (simp add: views_inv_def)
  from requests_okD(1) [OF this assms(2)] show ?thesis
    by (auto dest!: conn_reach_delivery simp: delivery_inv_def)
qed

text \<open>A writer with no event left has read the channel to its end.\<close>

lemma nothing_left:
  assumes "writer_event True False capacity log cs = None" and "rx_live (outq cs)" and "bpos cs \<le> length log"
  shows "bpos cs = length log"
  using assms by (auto simp: writer_event_def bcast_recv_def Let_def split: if_splits)

lemma fed_complete:
  assumes "fed log cs cs'" and "subscribed cs" and "rx_live (outq cs')" and "bpos cs \<le> length log"
    and "writer_event True False capacity log cs' = None"
  shows "events cs' = events cs @ drop (bpos cs) log"
proof -
  from assms(1,4) have "bpos cs' \<le> length log" by (simp add: fed_def)
  from nothing_left [OF assms(5,3) this] have "bpos cs' = length log" .
  with assms(1-3) show ?thesis by (simp add: fed_def)
qed

section \<open>A run with a toast\<close>

text \<open>A panel subscribes, Hermes calls the notification tool, and the panel's writer takes the toast.\<close>

definition demo_request :: notify_request where
  "demo_request = \<lparr>nr_title = ''t'', nr_body = ''b'', nr_urgency = None, nr_icon = None\<rparr>"

definition demo_toast :: daemon_message where
  "demo_toast = Toast ''t'' ''b'' None"

definition demo_panel :: "conn \<Rightarrow> daemon_message list \<Rightarrow> system" where
  "demo_panel cs log = (system_start demo_handler)\<lparr>ds_conns := [0 \<mapsto> cs], ds_log := log\<rparr>"

definition panel_conn :: conn where
  "panel_conn = (conn_new 0)\<lparr>subscribed := True\<rparr>"

definition panel_written :: conn where
  "panel_written = panel_conn\<lparr>bpos := 1, wire_out := [Event demo_toast]\<rparr>"

lemma panel_simps [simp]:
  "ds_conns (demo_panel cs log) = [0 \<mapsto> cs]" "ds_log (demo_panel cs log) = log"
  "ds_handler (demo_panel cs log) = demo_handler"
  "subscribed panel_conn" "bpos panel_conn = 0" "outq panel_conn = chan_new" "wire_out panel_conn = []"
  "subscribed panel_written" "bpos panel_written = 1" "outq panel_written = chan_new"
  "wire_out panel_written = [Event demo_toast]"
  by (simp_all add: demo_panel_def panel_conn_def panel_written_def conn_new_def system_start_def)

lemma demo_panel_dbus [simp]: "hd_dbus demo_handler"
  by (simp add: demo_handler_def handler_new_def)

lemma panel_run: "system_trace ok json_read err demo_handler [] (demo_panel panel_conn [])"
proof -
  have 1: "system_step json_read err (system_start demo_handler) [] (demo_panel (conn_new 0) [])"
    using ds_accept [of "system_start demo_handler" 0 json_read err]
    by (simp add: demo_panel_def system_start_def)
  let ?line = "json_text (client_to_json (Subscribe None))"
  have "plain (client_to_json (Subscribe None))" by code_simp
  from text_layer_line(2,3) [OF client_text_layer [OF this]]
  have "on_line json_read err ?line (conn_new 0) = Some panel_conn"
    by (simp add: on_line_def read_request_def client_roundtrip panel_conn_def conn_new_def [of 0]
        del: client_to_json.simps json_text.simps)
  then have 2: "system_step json_read err (demo_panel (conn_new 0) []) [] (demo_panel panel_conn [])"
    using ds_line [of "demo_panel (conn_new 0) []" 0 "conn_new 0" json_read err ?line panel_conn]
    by (simp add: demo_panel_def system_start_def)
  have "system_trace ok json_read err demo_handler (([] @ []) @ []) (demo_panel panel_conn [])"
    by (rule trace_next [OF trace_next [OF trace_init 1] 2]) (simp_all add: admits_def)
  then show ?thesis by simp
qed

lemma panel_tool:
  "call_tool (desktop_server_new (Some (\<lambda>_. Inr 7))) tools ''desktop_notify'' (notify_args demo_request) =
     (Inr (TextContent ''Notification sent (id: 7)''), [demo_toast])"
proof -
  have "read_tool_call ''desktop_notify'' (notify_args demo_request) = Inr (NotifyCall demo_request)"
    by (simp add: read_tool_call_cases notify_args_read)
  moreover have "dec 7 = ''7''" by code_simp
  ultimately show ?thesis
    by (simp add: call_tool_def desktop_server_new_def desktop_notify_def notify_send_def tool_outcome_def
        demo_request_def demo_toast_def Let_def)
qed

lemma panel_steps:
  "system_step json_read err (demo_panel panel_conn []) [] (demo_panel panel_conn [demo_toast])"
  "kept_step json_read err 0 (demo_panel panel_conn [demo_toast]) (demo_panel panel_written [demo_toast])"
proof -
  show "system_step json_read err (demo_panel panel_conn []) [] (demo_panel panel_conn [demo_toast])"
    using ds_tool [OF _ panel_tool, of "demo_panel panel_conn []" json_read err]
    by (simp add: demo_panel_dbus) (simp add: demo_panel_def)
  have "writer_event True False broadcast_cap [demo_toast] panel_conn = Some panel_written"
    by (simp add: writer_event_def bcast_recv_def broadcast_cap_def panel_written_def Let_def)
  then have "conn_own [demo_toast] panel_conn panel_written" unfolding conn_own_def by blast
  then have "system_step json_read err (demo_panel panel_conn [demo_toast]) []
      (demo_panel panel_written [demo_toast])"
    using ds_conn [of "demo_panel panel_conn [demo_toast]" 0 panel_conn panel_written json_read err]
    by (simp add: demo_panel_def system_start_def)
  then show "kept_step json_read err 0 (demo_panel panel_conn [demo_toast]) (demo_panel panel_written [demo_toast])"
    by (auto simp: kept_step_def keeps_up_def broadcast_cap_def)
qed

section \<open>The events' guarantees\<close>

text \<open>
  C13: a subscriber that keeps up is written every event, once and in the order of the channel,
  whatever the other connections, turns and requests do meanwhile: as long as its writer lives it has
  written a contiguous stretch of the channel since it was observed as a subscriber, and when it has
  nothing left to take, all of it.
\<close>

theorem subscriber_gets_every_event:
  assumes "system_trace ok parse err h tr s" and "ds_conns s c = Some cs" and "subscribed cs"
    and "(kept_step parse err c)\<^sup>*\<^sup>* s s'"
  shows "\<exists>cs' new. ds_conns s' c = Some cs' \<and> ds_log s' = ds_log s @ new \<and> subscribed cs'
    \<and> (rx_live (outq cs') \<longrightarrow>
        events cs' = events cs @ take (bpos cs' - bpos cs) (drop (bpos cs) (ds_log s @ new)))
    \<and> (rx_live (outq cs') \<and> writer_event True False broadcast_cap (ds_log s') cs' = None \<longrightarrow>
        events cs' = events cs @ drop (bpos cs) (ds_log s) @ new)"
proof -
  note pos = conn_position [OF assms(1,2)]
  from kept_run_fed [OF assms(4,2) pos] obtain cs' new where
    1: "ds_conns s' c = Some cs'" "ds_log s' = ds_log s @ new" "fed (ds_log s') cs cs'" by blast
  from fed_complete [OF 1(3) assms(3)] 1(2) pos
  have "events cs' = events cs @ drop (bpos cs) (ds_log s) @ new"
    if "rx_live (outq cs')" "writer_event True False broadcast_cap (ds_log s') cs' = None"
    using that by simp
  with 1 assms(3) show ?thesis unfolding fed_def by (intro exI [of _ cs'] exI [of _ new]) simp
qed

theorem subscriber_gets_every_event_witness:
  "\<exists>cs'. ds_conns (demo_panel panel_written [demo_toast]) 0 = Some cs' \<and> events cs' = [demo_toast]"
proof -
  have "(kept_step json_read (\<lambda>_. []) 0)\<^sup>*\<^sup>* (demo_panel panel_conn []) (demo_panel panel_written [demo_toast])"
  proof -
    have "kept_step json_read (\<lambda>_. []) 0 (demo_panel panel_conn []) (demo_panel panel_conn [demo_toast])"
      using panel_steps(1) by (auto simp: kept_step_def keeps_up_def)
    with panel_steps(2) show ?thesis by (meson r_into_rtranclp rtranclp.rtrancl_into_rtrancl)
  qed
  from subscriber_gets_every_event [OF panel_run [of any_client] _ _ this, of panel_conn]
  show ?thesis
    by (simp add: writer_event_def bcast_recv_def events_def List.map_filter_simps)
qed

text \<open>
  C2: a notification that Hermes shows through the MCP tool reaches the panel. When the tool reports
  success, every panel that was subscribed before and keeps up has, once its writer has nothing left
  to take, been written a toast with the title, body and icon of the call, and the stream mode of the
  control client puts exactly the bytes the daemon wrote on its standard output, the toast's line among them, which
  reads back as that toast.
\<close>

theorem panel_shows_toast:
  assumes run: "system_trace ok parse err h tr s" and c: "ds_conns s c = Some cs" "subscribed cs"
    and before: "(kept_step parse err c)\<^sup>*\<^sup>* s s1"
    and tool: "(notifications \<noteq> None) = hd_dbus (ds_handler s1)" "keeps_up c s1"
      "call_tool (desktop_server_new notifications) tools ''desktop_notify'' (notify_args req) = (Inr out, evs)"
    and after: "(kept_step parse err c)\<^sup>*\<^sup>* (s1\<lparr>ds_log := ds_log s1 @ evs\<rparr>) s2"
    and taken: "ds_conns s2 c = Some cs2" "rx_live (outq cs2)"
      "writer_event True False broadcast_cap (ds_log s2) cs2 = None"
    and lines: "\<forall>w \<in> set (wire_out cs2). readable parse enc (written_message w)"
  shows "\<exists>line. line \<in> set (snd (run_stream reliable (Inr ()) (\<lambda>_. Inr (socket_lines (wire_bytes enc (wire_out cs2))))))
      \<and> Option.bind (parse line) daemon_of_json = Some (Toast (nr_title req) (nr_body req) (nr_icon req))
    \<and> concat (snd (run_stream reliable (Inr ()) (\<lambda>_. Inr (socket_lines (wire_bytes enc (wire_out cs2)))))) =
        wire_bytes enc (wire_out cs2)"
proof -
  let ?toast = "Toast (nr_title req) (nr_body req) (nr_icon req)"
  let ?ms = "map written_message (wire_out cs2)"
  let ?line = "\<lambda>m. enc (daemon_to_json m)"
  have "evs = [?toast]"
    using tool(3) desktop_notify_events [of notifications req]
    by (auto simp: call_tool_def read_tool_call_cases notify_args_read desktop_server_new_def tool_outcome_def
        read_tool_call_def tool_table_def apfst_def map_prod_def
        split: sum.splits prod.splits option.splits if_splits)
  moreover have "system_step parse err s1 [] (s1\<lparr>ds_log := ds_log s1 @ evs\<rparr>)"
    by (rule ds_tool [OF tool(1,3)])
  then have "kept_step parse err c s1 (s1\<lparr>ds_log := ds_log s1 @ evs\<rparr>)"
    using tool(2) by (auto simp: kept_step_def)
  with before after have runs: "(kept_step parse err c)\<^sup>*\<^sup>* s s2"
    by (meson rtranclp.rtrancl_into_rtrancl rtranclp_trans)
  from kept_run_fed [OF before c(1) conn_position [OF run c(1)]] obtain cs1 new1
    where 1: "ds_conns s1 c = Some cs1" "ds_log s1 = ds_log s @ new1" "fed (ds_log s1) cs cs1" by blast
  from kept_run_fed [OF after, of cs1] 1 conn_position [OF run c(1)] obtain new2
    where 2: "ds_log s2 = (ds_log s1 @ evs) @ new2" by (auto simp: fed_def)
  from kept_run_fed [OF runs c(1) conn_position [OF run c(1)]] taken(1)
  have "fed (ds_log s2) cs cs2" by auto
  from fed_complete [OF this c(2) taken(2) _ taken(3)] 1(2) 2 conn_position [OF run c(1)]
  have "events cs2 = events cs @ drop (bpos cs) (ds_log s2)" by simp
  with 1(2) 2 \<open>evs = [?toast]\<close> conn_position [OF run c(1)] have "?toast \<in> set (events cs2)" by simp
  then have toast: "?toast \<in> set ?ms"
    by (auto simp: events_def List.map_filter_def elim!: event_of.elims intro: image_eqI [rotated])
  from lines have "list_all (readable parse enc) ?ms" by (simp add: list_all_iff)
  from socket_lines_messages [OF this] have "socket_lines (wire_bytes enc (wire_out cs2)) = map Line (map ?line ?ms)"
    by (simp add: wire_bytes_def comp_def)
  then have out: "snd (run_stream reliable (Inr ()) (\<lambda>_. Inr (socket_lines (wire_bytes enc (wire_out cs2))))) =
      concat (map (\<lambda>l. [l, [newline]]) (map ?line ?ms))"
    by (simp add: run_stream_def stdout_relay_lines del: map_map)
  have verbatim: "concat (concat (map (\<lambda>l. [l, [newline]]) (map ?line ms))) = concat (map (message_line enc) ms)" for ms
    by (induction ms) (simp_all add: message_line_def)
  have bytes: "concat (snd (run_stream reliable (Inr ())
      (\<lambda>_. Inr (socket_lines (wire_bytes enc (wire_out cs2)))))) = wire_bytes enc (wire_out cs2)"
    unfolding out verbatim by (simp add: wire_bytes_def)
  have "parse (?line ?toast) = Some (daemon_to_json ?toast)"
    using \<open>list_all (readable parse enc) ?ms\<close> toast
    by (auto simp: list_all_iff readable_def text_layer_def simp del: daemon_to_json.simps)
  then have "Option.bind (parse (?line ?toast)) daemon_of_json = Some ?toast"
    by (simp add: daemon_roundtrip_finite del: daemon_to_json.simps)
  moreover have "?line m \<in> set (concat (map (\<lambda>l. [l, [newline]]) (map ?line ms)))" if "m \<in> set ms" for m ms
    using that by (induction ms) auto
  then have "?line ?toast \<in> set (snd (run_stream reliable (Inr ())
      (\<lambda>_. Inr (socket_lines (wire_bytes enc (wire_out cs2))))))"
    unfolding out using toast by blast
  ultimately show ?thesis using bytes by blast
qed

theorem panel_shows_toast_witness:
  "\<exists>line. line \<in> set (snd (run_stream reliable (Inr ()) (\<lambda>_. Inr (socket_lines (message_line json_text demo_toast)))))
     \<and> Option.bind (json_read line) daemon_of_json = Some demo_toast"
proof -
  have "plain (daemon_to_json demo_toast)" by code_simp
  then have "\<forall>w \<in> set (wire_out panel_written). readable json_read json_text (written_message w)"
    using readable_plain [of demo_toast] by (simp add: demo_toast_def del: daemon_to_json.simps)
  moreover have "demo_panel panel_conn []\<lparr>ds_log := ds_log (demo_panel panel_conn []) @ [demo_toast]\<rparr> =
      demo_panel panel_conn [demo_toast]"
    by (simp add: demo_panel_def system_start_def)
  then have "(kept_step json_read (\<lambda>_. []) 0)\<^sup>*\<^sup>*
      (demo_panel panel_conn []\<lparr>ds_log := ds_log (demo_panel panel_conn []) @ [demo_toast]\<rparr>)
      (demo_panel panel_written [demo_toast])"
    using panel_steps(2) by auto
  moreover have "wire_bytes json_text (wire_out panel_written) = message_line json_text demo_toast"
    by (simp add: wire_bytes_def)
  moreover have "writer_event True False broadcast_cap [demo_toast] panel_written = None"
    by (simp add: writer_event_def bcast_recv_def)
  moreover have "keeps_up 0 (demo_panel panel_conn [])" by (simp add: keeps_up_def)
  moreover have "Toast (nr_title demo_request) (nr_body demo_request) (nr_icon demo_request) = demo_toast"
    by (simp add: demo_request_def demo_toast_def)
  ultimately show ?thesis
    using panel_shows_toast [OF panel_run [of any_client "\<lambda>_. []"] _ _ rtranclp.rtrancl_refl _ _ panel_tool,
        of 0 panel_conn "demo_panel panel_written [demo_toast]" panel_written json_text]
    by (simp del: daemon_to_json.simps json_text.simps) blast
qed

end
