(* ===== verification/Config_File.thy ===== *)
theory Config_File
  imports Config_Resolve
begin

text \<open>
  The config file: what the derived \<open>Deserialize\<close> of \<open>RawConfig\<close> accepts of a TOML document, and the
  whole way from the file to the configuration. The TOML syntax is a library's; a document is the list
  of its top-level keys with their values, of which only strings matter here.
\<close>

section \<open>Reading the document\<close>

datatype toml_value = TomlString string | TomlOther

type_synonym toml_table = "(string \<times> toml_value) list"

definition raw_fields :: "string list" where
  "raw_fields =
     [''hermes_api_url'', ''hermes_api_key'', ''mcp_listen_addr'', ''socket_path'', ''mcp_auth_token'',
      ''ollama_router_url'', ''ollama_router_token'']"

text \<open>A missing key is \<open>None\<close>; a present one has to be a string.\<close>

definition toml_string :: "toml_table \<Rightarrow> string \<Rightarrow> string option option" where
  "toml_string t k =
     (case map_of t k of
        None \<Rightarrow> Some None
      | Some (TomlString s) \<Rightarrow> Some (Some s)
      | Some TomlOther \<Rightarrow> None)"

text \<open>\<open>deny_unknown_fields\<close>: a key that is not a field refuses the document.\<close>

definition raw_config_of_toml :: "toml_table \<Rightarrow> raw_config option" where
  "raw_config_of_toml t =
     (if list_all (\<lambda>(k, _). k \<in> set raw_fields) t \<and> distinct (map fst t)
      then
        Option.bind (toml_string t ''hermes_api_url'') (\<lambda>url.
        Option.bind (toml_string t ''hermes_api_key'') (\<lambda>key.
        Option.bind (toml_string t ''mcp_listen_addr'') (\<lambda>addr.
        Option.bind (toml_string t ''socket_path'') (\<lambda>sock.
        Option.bind (toml_string t ''mcp_auth_token'') (\<lambda>auth.
        Option.bind (toml_string t ''ollama_router_url'') (\<lambda>router.
        Option.bind (toml_string t ''ollama_router_token'') (\<lambda>tok.
          Some \<lparr>raw_hermes_api_url = url, raw_hermes_api_key = key, raw_mcp_listen_addr = addr,
                raw_socket_path = sock, raw_mcp_auth_token = auth, raw_ollama_router_url = router,
                raw_ollama_router_token = tok\<rparr>)))))))
      else None)"

text \<open>\<open>toml::from_str::<RawConfig>\<close>: \<open>refuse\<close> is the text of the error for a document of another shape.\<close>

definition parse_raw ::
    "(string \<Rightarrow> string + toml_table) \<Rightarrow> (toml_table \<Rightarrow> string) \<Rightarrow> string \<Rightarrow> string + raw_config" where
  "parse_raw read_toml refuse txt =
     (case read_toml txt of
        Inl e \<Rightarrow> Inl e
      | Inr t \<Rightarrow> (case raw_config_of_toml t of None \<Rightarrow> Inl (refuse t) | Some raw \<Rightarrow> Inr raw))"

section \<open>What is accepted\<close>

definition config_table :: "toml_table \<Rightarrow> bool" where
  "config_table t =
     (distinct (map fst t) \<and> (\<forall>(k, v) \<in> set t. k \<in> set raw_fields \<and> (\<exists>s. v = TomlString s)))"

definition setting :: "toml_table \<Rightarrow> string \<Rightarrow> string option" where
  "setting t k = (case map_of t k of Some (TomlString s) \<Rightarrow> Some s | _ \<Rightarrow> None)"

lemma toml_string_ok:
  assumes "\<forall>(k, v) \<in> set t. \<exists>s. v = TomlString s"
  shows "toml_string t k = Some (setting t k)"
proof (cases "map_of t k")
  case (Some v)
  then have "(k, v) \<in> set t" by (rule map_of_SomeD)
  with assms Some show ?thesis by (auto simp: toml_string_def setting_def)
qed (simp add: toml_string_def setting_def)

lemma toml_string_other: "map_of t k = Some v \<Longrightarrow> toml_string t k = Some x \<Longrightarrow> \<exists>s. v = TomlString s"
  by (auto simp: toml_string_def split: toml_value.splits)

lemma raw_config_Some_iff:
  "raw_config_of_toml t = Some raw \<longleftrightarrow>
     config_table t
     \<and> raw = \<lparr>raw_hermes_api_url = setting t ''hermes_api_url'', raw_hermes_api_key = setting t ''hermes_api_key'',
              raw_mcp_listen_addr = setting t ''mcp_listen_addr'', raw_socket_path = setting t ''socket_path'',
              raw_mcp_auth_token = setting t ''mcp_auth_token'',
              raw_ollama_router_url = setting t ''ollama_router_url'',
              raw_ollama_router_token = setting t ''ollama_router_token''\<rparr>"
    (is "_ \<longleftrightarrow> _ \<and> raw = ?raw")
proof (cases "config_table t")
  case True
  then have "list_all (\<lambda>(k, _). k \<in> set raw_fields) t" "distinct (map fst t)"
    and "\<forall>(k, v) \<in> set t. \<exists>s. v = TomlString s"
    by (auto simp: config_table_def list_all_iff)
  with True show ?thesis by (auto simp: raw_config_of_toml_def toml_string_ok)
next
  case False
  have "config_table t" if some: "raw_config_of_toml t = Some raw"
  proof -
    from some have accepted: "list_all (\<lambda>(k, _). k \<in> set raw_fields) t" and d: "distinct (map fst t)"
      by (simp_all add: raw_config_of_toml_def split: if_splits)
    from accepted have known: "k \<in> set raw_fields" if "(k, v) \<in> set t" for k v
      using that unfolding list_all_iff by blast
    obtain u k a p m r o' where "toml_string t ''hermes_api_url'' = Some u" "toml_string t ''hermes_api_key'' = Some k"
      "toml_string t ''mcp_listen_addr'' = Some a" "toml_string t ''socket_path'' = Some p"
      "toml_string t ''mcp_auth_token'' = Some m" "toml_string t ''ollama_router_url'' = Some r"
      "toml_string t ''ollama_router_token'' = Some o'"
      using some accepted d unfolding raw_config_of_toml_def by (simp only: bind_eq_Some_conv simp_thms if_True) blast
    then have read: "\<forall>k \<in> set raw_fields. \<exists>x. toml_string t k = Some x"
      by (simp add: raw_fields_def)
    have "\<exists>s. v = TomlString s" if "(k, v) \<in> set t" for k v
    proof -
      from d that have "map_of t k = Some v" by simp
      with read known [OF that] toml_string_other show ?thesis by blast
    qed
    with d known show ?thesis by (auto simp: config_table_def)
  qed
  with False show ?thesis by blast
qed

section \<open>The file's guarantee\<close>

text \<open>
  C29: a configuration is loaded exactly if the file can be read, is TOML, has only known keys with
  string values, a nonempty API key is in the environment or the file, and the listen address, the
  file's or the default, can be read. A misspelt key is never ignored: it is a parse error, as is a
  value that is not a string, before anything else is looked at.
\<close>

theorem config_loads_iff:
  "((\<exists>cfg. load read (parse_raw read_toml refuse) parse_addr env path = Inr cfg) \<longleftrightarrow>
     (\<exists>txt t. read path = Inr txt \<and> read_toml txt = Inr t \<and> config_table t
        \<and> (\<exists>key. key \<noteq> [] \<and> (env ''HERMES_API_KEY'' = Some key \<or> setting t ''hermes_api_key'' = Some key))
        \<and> (\<exists>a. parse_addr (unwrap_or ''127.0.0.1:9721'' (setting t ''mcp_listen_addr'')) = Inr a)))
   \<and> (\<forall>txt t. read path = Inr txt \<and> read_toml txt = Inr t \<longrightarrow>
        (load read (parse_raw read_toml refuse) parse_addr env path = Inl (ParseError path (refuse t)) \<longleftrightarrow>
           \<not> config_table t))
   \<and> (\<forall>e. load read (parse_raw read_toml refuse) parse_addr env path = Inl (ReadError path e) \<longleftrightarrow> read path = Inl e)"
proof -
  have parsed: "(\<exists>cfg. resolve parse_addr env raw (env ''HERMES_API_KEY'') = Inr cfg) \<longleftrightarrow>
      (\<exists>key. key \<noteq> [] \<and> (env ''HERMES_API_KEY'' = Some key \<or> raw_hermes_api_key raw = Some key))
      \<and> (\<exists>a. parse_addr (unwrap_or ''127.0.0.1:9721'' (raw_mcp_listen_addr raw)) = Inr a)" for raw
    unfolding resolve_Inr_iff
    by (cases "env ''HERMES_API_KEY''"; cases "raw_hermes_api_key raw")
      (auto simp: secret_None_iff default_mcp_listen_addr_def)
  have none: "raw_config_of_toml t = None \<longleftrightarrow> \<not> config_table t" for t
    using raw_config_Some_iff [of t] by (cases "raw_config_of_toml t") auto
  have no_resolve: "resolve parse_addr env raw k \<noteq> Inl (ParseError p e)"
    "resolve parse_addr env raw k \<noteq> Inl (ReadError p e)" for raw k p e
    by (simp_all add: resolve_Inl Let_def)
  show ?thesis
  proof (cases "read path")
    case (Inl e)
    then show ?thesis by (simp add: load_def)
  next
    case read_ok: (Inr doc)
    show ?thesis
    proof (cases "read_toml doc")
      case (Inl e)
      with read_ok show ?thesis by (simp add: load_def parse_raw_def)
    next
      case toml_ok: (Inr t)
      show ?thesis
      proof (cases "raw_config_of_toml t")
        case None
        then have "\<not> config_table t" by (simp add: none [symmetric])
        moreover from None read_ok toml_ok have
          "load read (parse_raw read_toml refuse) parse_addr env path = Inl (ParseError path (refuse t))"
          by (simp add: load_def parse_raw_def)
        ultimately show ?thesis using read_ok toml_ok by simp
      next
        case (Some raw)
        then have "load read (parse_raw read_toml refuse) parse_addr env path =
            resolve parse_addr env raw (env ''HERMES_API_KEY'')"
          using read_ok toml_ok by (simp add: load_def parse_raw_def)
        with Some [unfolded raw_config_Some_iff] read_ok toml_ok parsed [of raw] no_resolve
        show ?thesis by simp
      qed
    qed
  qed
qed

theorem config_loads_iff_witness:
  "load (\<lambda>_. Inr ''t'') (parse_raw (\<lambda>_. Inr [(''hermes_api_key'', TomlString ''k''), (''bogus_field'', TomlOther)])
       (\<lambda>_. ''unknown field'')) (\<lambda>_. Inr ()) (\<lambda>_. None) ''p'' = Inl (ParseError ''p'' ''unknown field'')"
  using config_loads_iff [of "\<lambda>_. Inr ''t''"
      "\<lambda>_. Inr [(''hermes_api_key'', TomlString ''k''), (''bogus_field'', TomlOther)]"
      "\<lambda>_. ''unknown field''" "\<lambda>_. Inr ()" "\<lambda>_. None" "''p''"]
  by (simp add: config_table_def)

end
