(* ===== verification/Unit_Tests.thy ===== *)
theory Unit_Tests
  imports Rest_Clients Config_File Mcp_Tools Bridge
begin

text \<open>
  The repository's own unit tests, on the model. Each \<open>ut_\<close> definition is one test function of a
  \<open>mod tests\<close> with its inputs and assertions; the lemma after it shows that the model passes. Where a
  test reads the environment, the clock or random bytes, they are arguments and the test passes for all
  of them. A test's mock server is the \<open>http\<close> argument of the clients.
\<close>

section \<open>\<open>src/config.rs\<close>\<close>

definition raw_with_key :: raw_config where
  "raw_with_key = raw_default\<lparr>raw_hermes_api_key := Some ''filekey''\<rparr>"

lemmas config_ut = raw_with_key_def raw_default_def resolve_def or_else_def Let_def

definition ut_defaults_applied :: "(string \<Rightarrow> string + 'a) \<Rightarrow> env \<Rightarrow> bool" where
  "ut_defaults_applied parse_addr env =
     (case resolve parse_addr env raw_with_key None of
        Inl _ \<Rightarrow> False
      | Inr cfg \<Rightarrow>
          hermes_api_url cfg = default_hermes_api_url
          \<and> Inr (mcp_listen_addr cfg) = parse_addr default_mcp_listen_addr
          \<and> suffix ''hermes-dms.sock'' (socket_path cfg))"

lemma suffix_path_join: "\<not> starts_with ''/'' p \<Longrightarrow> suffix p (path_join base p)"
  by (auto simp: path_join_def suffix_def)

lemma ut_defaults_applied: "parse_addr default_mcp_listen_addr = Inr a \<Longrightarrow> ut_defaults_applied parse_addr env"
  by (simp add: ut_defaults_applied_def config_ut default_socket_path_def suffix_path_join starts_with_def)

definition ut_env_key_overrides_file :: "(string \<Rightarrow> string + 'a) \<Rightarrow> env \<Rightarrow> bool" where
  "ut_env_key_overrides_file parse_addr env =
     (case resolve parse_addr env raw_with_key (Some ''envkey'') of
        Inl _ \<Rightarrow> False | Inr cfg \<Rightarrow> hermes_api_key cfg = ''envkey'')"

definition ut_empty_env_key_falls_back :: "(string \<Rightarrow> string + 'a) \<Rightarrow> env \<Rightarrow> bool" where
  "ut_empty_env_key_falls_back parse_addr env =
     (case resolve parse_addr env raw_with_key (Some []) of
        Inl _ \<Rightarrow> False | Inr cfg \<Rightarrow> hermes_api_key cfg = ''filekey'')"

definition ut_missing_key_errors :: "(string \<Rightarrow> string + 'a) \<Rightarrow> env \<Rightarrow> bool" where
  "ut_missing_key_errors parse_addr env = (resolve parse_addr env raw_default None = Inl MissingKey)"

definition ut_bad_addr_errors :: "(string \<Rightarrow> string + 'a) \<Rightarrow> env \<Rightarrow> bool" where
  "ut_bad_addr_errors parse_addr env =
     (case resolve parse_addr env (raw_with_key\<lparr>raw_mcp_listen_addr := Some ''not-an-addr''\<rparr>) None of
        Inl (BadAddr _ _) \<Rightarrow> True | _ \<Rightarrow> False)"

lemma ut_config_keys:
  assumes "parse_addr default_mcp_listen_addr = Inr a" and "parse_addr ''not-an-addr'' = Inl e"
  shows "ut_env_key_overrides_file parse_addr env" and "ut_empty_env_key_falls_back parse_addr env"
    and "ut_missing_key_errors parse_addr env" and "ut_bad_addr_errors parse_addr env"
  using assms
  by (simp_all add: ut_env_key_overrides_file_def ut_empty_env_key_falls_back_def
      ut_missing_key_errors_def ut_bad_addr_errors_def config_ut)

text \<open>The two tests of the file's shape, from the keys and values of their documents.\<close>

definition ut_full_toml :: toml_table where
  "ut_full_toml =
     [(''hermes_api_url'', TomlString ''http://127.0.0.1:8642''), (''hermes_api_key'', TomlString ''abc123''),
      (''mcp_listen_addr'', TomlString ''127.0.0.1:9721''),
      (''socket_path'', TomlString ''/run/user/1000/hermes-dms.sock'')]"

definition ut_full_toml_parses :: "(string \<Rightarrow> string + 'a) \<Rightarrow> env \<Rightarrow> bool" where
  "ut_full_toml_parses parse_addr env =
     (case raw_config_of_toml ut_full_toml of
        None \<Rightarrow> False
      | Some raw \<Rightarrow>
          (case resolve parse_addr env raw None of
             Inl _ \<Rightarrow> False
           | Inr cfg \<Rightarrow>
               hermes_api_url cfg = ''http://127.0.0.1:8642'' \<and> hermes_api_key cfg = ''abc123''
               \<and> socket_path cfg = ''/run/user/1000/hermes-dms.sock''))"

definition ut_unknown_key_rejected :: bool where
  "ut_unknown_key_rejected =
     (raw_config_of_toml [(''hermes_api_key'', TomlString ''x''), (''bogus_field'', TomlOther)] = None)"

lemma ut_config_file:
  assumes "parse_addr ''127.0.0.1:9721'' = Inr a"
  shows "ut_full_toml_parses parse_addr env" and "ut_unknown_key_rejected"
proof -
  have "raw_config_of_toml ut_full_toml =
      Some \<lparr>raw_hermes_api_url = Some ''http://127.0.0.1:8642'', raw_hermes_api_key = Some ''abc123'',
            raw_mcp_listen_addr = Some ''127.0.0.1:9721'',
            raw_socket_path = Some ''/run/user/1000/hermes-dms.sock'', raw_mcp_auth_token = None,
            raw_ollama_router_url = None, raw_ollama_router_token = None\<rparr>"
    by code_simp
  with assms show "ut_full_toml_parses parse_addr env"
    by (simp add: ut_full_toml_parses_def resolve_def)
  show "ut_unknown_key_rejected" by code_simp
qed

section \<open>\<open>src/ipc/protocol.rs\<close>\<close>

definition ut_client_messages :: "client_message list" where
  "ut_client_messages =
     [Chat ''abc'' (Some ''desktop_1'') ''open firefox'', Chat ''abc2'' None ''hi'',
      SessionCreate ''def'' (Some ''[Desktop] notes''), SessionList ''ghi'',
      SessionResume ''jkl'' ''desktop_1'', Cancel ''mno'', client_message.Status ''pqr'', Subscribe None]"

definition ut_client_message_roundtrip :: bool where
  "ut_client_message_roundtrip =
     list_all (\<lambda>m. client_of_json (client_to_json m) = Some m) ut_client_messages"

definition ut_chat_without_session_omits_field :: bool where
  "ut_chat_without_session_omits_field =
     (''session_id'' \<notin> member_keys (client_to_json (Chat ''x'' None ''hi'')))"

definition ut_bare_subscribe_parses :: bool where
  "ut_bare_subscribe_parses =
     (client_of_json (JObj [(''type'', JStr ''subscribe'')]) = Some (Subscribe None))"

definition ut_daemon_messages :: "daemon_message list" where
  "ut_daemon_messages =
     [Delta ''abc'' ''Sure'', ToolProgress ''abc'' ''desktop_launch_app'' ''running'',
      ChatComplete ''abc'' ''Done.'', Toast ''Roci via Telegram'' ''Focused Firefox'' None,
      Status status_connected status_ready None, Error None ''Hermes unreachable'']"

definition ut_daemon_message_roundtrip :: bool where
  "ut_daemon_message_roundtrip =
     list_all (\<lambda>m. daemon_of_json (daemon_to_json m) = Some m) ut_daemon_messages"

definition ut_toast_is_broadcast :: bool where
  "ut_toast_is_broadcast = (''request_id'' \<notin> member_keys (daemon_to_json (Toast ''t'' ''b'' None)))"

lemma ut_roundtrips: "ut_client_message_roundtrip" "ut_daemon_message_roundtrip"
proof -
  show ut_client_message_roundtrip
    unfolding ut_client_message_roundtrip_def list_all_iff by (simp only: client_roundtrip ball_simps) simp
  have "list_all daemon_finite ut_daemon_messages" by (simp add: ut_daemon_messages_def)
  then show ut_daemon_message_roundtrip
    by (auto simp: ut_daemon_message_roundtrip_def list_all_iff daemon_roundtrip_finite)
qed

lemma ut_wire_forms:
  "ut_chat_without_session_omits_field" "ut_bare_subscribe_parses" "ut_toast_is_broadcast"
  by code_simp+

section \<open>\<open>src/hermes/client.rs\<close> and \<open>src/hermes/session.rs\<close>\<close>

text \<open>A mock server that answers one path, and everything else with 404.\<close>

definition mock :: "(string \<times> u16 \<times> json) list \<Rightarrow> http" where
  "mock routes_of =
     \<lparr>http_send = (\<lambda>rq. case map_of routes_of (rq_url rq) of
                      Some (status, _) \<Rightarrow> Inr \<lparr>rs_status = status, rs_body = Some (rq_url rq)\<rparr>
                    | None \<Rightarrow> Inr \<lparr>rs_status = 404, rs_body = Some []\<rparr>),
      http_parse = (\<lambda>url. map_option snd (map_of routes_of url)), http_body_error = ''error decoding response body''\<rparr>"

definition mock_client :: "string \<Rightarrow> hermes_client" where
  "mock_client key = \<lparr>hc_base_url = [], hc_api_key = key\<rparr>"

definition ut_health :: bool where
  "ut_health =
     (health (mock [(''/health'', 200, JNull)]) (mock_client ''k'')
      \<and> \<not> health (mock [(''/health'', 500, JNull)]) (mock_client ''k''))"

definition ut_auth_failure :: bool where
  "ut_auth_failure =
     (list_sessions
        (mock [(''/api/sessions'', 401, JObj [(''error'', JObj [(''message'', JStr ''Invalid API key'')])])])
        (mock_client ''bad'') = Inl HermesAuth)"

definition ut_list_sessions :: bool where
  "ut_list_sessions =
     (case list_sessions
        (mock [(''/api/sessions'', 200, JObj
           [(''object'', JStr ''list''),
            (''data'', JArr
              [JObj [(''id'', JStr ''desktop_1_aaaa''), (''title'', JStr ''[Desktop] a''),
                     (''source'', JStr ''api_server'')],
               JObj [(''id'', JStr ''telegram_9''), (''source'', JStr ''telegram'')]])])])
        (mock_client ''k'') of
        Inl _ \<Rightarrow> False
      | Inr sessions \<Rightarrow> length sessions = 2 \<and> si_id (sessions ! 0) = ''desktop_1_aaaa'')"

definition ut_get_messages :: bool where
  "ut_get_messages =
     (case get_messages
        (mock [(''/api/sessions/desktop_1/messages'', 200, JObj
           [(''object'', JStr ''list''), (''session_id'', JStr ''desktop_1''),
            (''data'', JArr
              [JObj [(''role'', JStr ''user''), (''content'', JStr ''Hi'')],
               JObj [(''role'', JStr ''assistant''), (''content'', JStr ''Hey. What's up?'')],
               JObj [(''role'', JStr ''tool''), (''content'', JNull),
                     (''tool_name'', JStr ''desktop_launch_app'')],
               JObj [(''role'', JStr ''assistant''), (''content'', JStr ''   '')],
               JObj [(''role'', JStr ''user''), (''content'', JStr ''bye'')]])])])
        (mock_client ''k'') ''desktop_1'' of
        Inl _ \<Rightarrow> False
      | Inr msgs \<Rightarrow>
          map (\<lambda>m. (cm_role m, cm_content m)) msgs =
            [(''user'', ''Hi''), (''assistant'', ''Hey. What's up?''), (''user'', ''bye'')])"

lemmas mock_ut =
  mock_def mock_client_def health_def hermes_url_def is_success_def list_sessions_def get_messages_def
  hermes_get_def check_status_def json_body_def de_data_def de_vec_def struct_fields_def req_field_def
  opt_field_def de_str_def de_opt_def session_info_of_json_def session_fields_def raw_msg_of_json_def
  chat_rows_def keep_text_def is_chat_role_def List.map_filter_simps Let_def

lemma ut_trims:
  "trim ''Hi'' = ''Hi''" "trim ''Hey. What's up?'' = ''Hey. What's up?''" "trim ''bye'' = ''bye''"
  "trim ''   '' = []"
  by (rule trim_visible; simp add: white_space_eval)+
    (simp add: trim_def trim_start_blank trim_nil)

lemma ut_hermes: "ut_health" "ut_auth_failure" "ut_list_sessions"
  by (simp_all add: ut_health_def ut_auth_failure_def ut_list_sessions_def mock_ut)

lemma ut_get_messages: "ut_get_messages"
  by (simp add: ut_get_messages_def mock_ut ut_trims)

text \<open>\<open>a\<close> and \<open>b\<close> are the clock and the random bytes at the two calls.\<close>

definition ut_id_shape :: "u64 option \<Rightarrow> (nat \<Rightarrow> u8) \<Rightarrow> bool" where
  "ut_id_shape now rand =
     (case strip_prefix desktop_session_prefix (new_desktop_session_id now rand) of
        None \<Rightarrow> False
      | Some rest \<Rightarrow>
          let ts = takeWhile (\<lambda>c. c \<noteq> CHR ''_'') rest; hx = tl (dropWhile (\<lambda>c. c \<noteq> CHR ''_'') rest)
          in CHR ''_'' \<in> set rest \<and> list_all is_digit ts \<and> length hx = 8 \<and> list_all is_hex_digit hx)"

lemma ut_id_shape: "ut_id_shape now rand"
proof -
  let ?hx = "hex02 (rand 0) @ hex02 (rand 1) @ hex02 (rand 2) @ hex02 (rand 3)"
  let ?ts = "dec (unat (unwrap_or 0 now))"
  have id: "new_desktop_session_id now rand = desktop_session_prefix @ ?ts @ CHR ''_'' # ?hx"
    by (simp add: new_desktop_session_id_def Let_def)
  have free: "\<And>c. c \<in> set ?ts \<Longrightarrow> c \<noteq> CHR ''_''" using underscore_not_digit by blast
  have "takeWhile (\<lambda>c. c \<noteq> CHR ''_'') (?ts @ CHR ''_'' # ?hx) = ?ts"
    and "dropWhile (\<lambda>c. c \<noteq> CHR ''_'') (?ts @ CHR ''_'' # ?hx) = CHR ''_'' # ?hx"
    by (simp_all add: takeWhile_append2 dropWhile_append2 free)
  then show ?thesis
    unfolding ut_id_shape_def id
    by (auto simp: strip_prefix_def starts_with_def list_all_iff dec_digits hex02_digits Let_def)
qed

definition ut_ids_are_unique :: "u64 option \<Rightarrow> (nat \<Rightarrow> u8) \<Rightarrow> u64 option \<Rightarrow> (nat \<Rightarrow> u8) \<Rightarrow> bool" where
  "ut_ids_are_unique now rand now' rand' =
     (new_desktop_session_id now rand \<noteq> new_desktop_session_id now' rand')"

text \<open>It passes for two draws that differ in one of the bytes used.\<close>

lemma ut_ids_are_unique: "i \<in> {0, 1, 2, 3} \<Longrightarrow> rand i \<noteq> rand' i \<Longrightarrow> ut_ids_are_unique now rand now' rand'"
  by (auto simp: ut_ids_are_unique_def session_id_inject)

section \<open>\<open>src/ollama.rs\<close>\<close>

definition mock_ollama :: "string option \<Rightarrow> ollama_client" where
  "mock_ollama token = \<lparr>oc_base_url = [], oc_token = token\<rparr>"

definition ut_merges_catalog :: bool where
  "ut_merges_catalog =
     (case list_models
        (mock [(''/v1/models'', 200, JObj
                 [(''object'', JStr ''list''),
                  (''data'', JArr [JObj [(''id'', JStr ''qwen3.6-medium'')], JObj [(''id'', JStr ''gpt-oss'')],
                                 JObj [(''id'', JStr ''gemma4:e4b'')]])]),
               (''/api/ps'', 200, JObj
                 [(''models'', JArr [JObj [(''name'', JStr ''qwen3.6-medium''),
                                         (''model'', JStr ''qwen3.6-medium'')]])])])
        (mock_ollama (Some ''t'')) of
        Inl _ \<Rightarrow> False
      | Inr models \<Rightarrow>
          length models = 3 \<and> map mi_id (filter mi_loaded models) = [''qwen3.6-medium'']
          \<and> list_all (\<lambda>m. \<not> mi_active m) models)"

definition ut_probe_failure_degrades :: bool where
  "ut_probe_failure_degrades =
     (case list_models
        (mock [(''/v1/models'', 200, JObj [(''data'', JArr [JObj [(''id'', JStr ''gpt-oss'')]])])])
        (mock_ollama None) of
        Inl _ \<Rightarrow> False
      | Inr models \<Rightarrow> length models = 1 \<and> \<not> mi_loaded (models ! 0))"

lemma ut_ollama: "ut_merges_catalog" "ut_probe_failure_degrades"
  by (simp_all add: ut_merges_catalog_def ut_probe_failure_degrades_def mock_ollama_def list_models_def
      ollama_get_def ollama_request_def loaded_set_def v1_model_of_json_def ps_model_of_json_def
      api_ps_of_json_def mock_ut)

section \<open>\<open>src/desktop/\<close>\<close>

definition ut_target_from_opt :: bool where
  "ut_target_from_opt =
     (target_from_opt (Some ''window'') = Window \<and> target_from_opt (Some ''full'') = Screen
      \<and> target_from_opt (Some ''screen'') = Screen \<and> target_from_opt None = Screen)"

definition ut_urgency_mapping :: bool where
  "ut_urgency_mapping =
     (urgency_from_opt (Some ''low'') = Low \<and> urgency_from_opt (Some ''LOW'') = Low
      \<and> urgency_from_opt (Some ''critical'') = Critical \<and> urgency_from_opt (Some ''normal'') = Normal
      \<and> urgency_from_opt None = Normal \<and> urgency_from_opt (Some ''bogus'') = Normal)"

definition ut_urgency_hints :: bool where
  "ut_urgency_hints = (hint Low = 0 \<and> hint Normal = 1 \<and> hint Critical = 2)"

lemma ut_desktop: "ut_target_from_opt" "ut_urgency_mapping" "ut_urgency_hints"
  by code_simp+

text \<open>\<open>temp_dir\<close> is absolute, and so is the runtime directory where it is set.\<close>

definition ut_temp_path_is_absolute_png :: "(string \<Rightarrow> string option) \<Rightarrow> string \<Rightarrow> string \<Rightarrow> bool" where
  "ut_temp_path_is_absolute_png env temp_dir uuid =
     (starts_with ''/'' (temp_path env temp_dir uuid) \<and> suffix ''.png'' (temp_path env temp_dir uuid))"

definition ut_temp_paths_are_unique :: "(string \<Rightarrow> string option) \<Rightarrow> string \<Rightarrow> string \<Rightarrow> string \<Rightarrow> bool" where
  "ut_temp_paths_are_unique env temp_dir uuid uuid' = (temp_path env temp_dir uuid \<noteq> temp_path env temp_dir uuid')"

lemma temp_path_parts:
  "temp_path env temp_dir uuid =
     (let base = unwrap_or temp_dir (env ''XDG_RUNTIME_DIR'')
      in (if base = [] \<or> last base = CHR ''/'' then base else base @ ''/'') @ ''hermes-dms-shot-'' @ uuid @ ''.png'')"
  by (simp add: temp_path_def path_join_def Let_def)

lemma ut_temp_path:
  assumes "starts_with ''/'' temp_dir" and "\<And>d. env ''XDG_RUNTIME_DIR'' = Some d \<Longrightarrow> starts_with ''/'' d"
  shows "ut_temp_path_is_absolute_png env temp_dir uuid"
    and "uuid \<noteq> uuid' \<Longrightarrow> ut_temp_paths_are_unique env temp_dir uuid uuid'"
proof -
  have "starts_with ''/'' (unwrap_or temp_dir (env ''XDG_RUNTIME_DIR''))"
    using assms by (cases "env ''XDG_RUNTIME_DIR''") auto
  then obtain r where r: "unwrap_or temp_dir (env ''XDG_RUNTIME_DIR'') = CHR ''/'' # r"
    by (auto simp: starts_with_iff_prefix prefix_def)
  show "ut_temp_path_is_absolute_png env temp_dir uuid"
    unfolding ut_temp_path_is_absolute_png_def temp_path_parts r Let_def
    by (simp add: starts_with_def suffix_def)
  show "uuid \<noteq> uuid' \<Longrightarrow> ut_temp_paths_are_unique env temp_dir uuid uuid'"
    by (simp add: ut_temp_paths_are_unique_def temp_path_parts Let_def)
qed

text \<open>\<open>spawn\<close> is the system's answer to the spawn of each test's command.\<close>

definition ut_launch_ok :: "(spawn_spec \<Rightarrow> string + u32 option) \<Rightarrow> string \<Rightarrow> string list \<Rightarrow> bool" where
  "ut_launch_ok spawn command args =
     (case launch_detached spawn command args of Inl _ \<Rightarrow> False | Inr pid \<Rightarrow> 0 < pid)"

definition ut_launches_real_process :: "(spawn_spec \<Rightarrow> string + u32 option) \<Rightarrow> bool" where
  "ut_launches_real_process spawn = ut_launch_ok spawn ''/bin/true'' []"

definition ut_passes_args_as_argv :: "(spawn_spec \<Rightarrow> string + u32 option) \<Rightarrow> bool" where
  "ut_passes_args_as_argv spawn = ut_launch_ok spawn ''/bin/echo'' [''hello'', ''world'']"

definition ut_nonexistent_command_errors :: "(spawn_spec \<Rightarrow> string + u32 option) \<Rightarrow> bool" where
  "ut_nonexistent_command_errors spawn =
     (case launch_detached spawn ''/nonexistent/binary/xyzzy'' [] of Inl _ \<Rightarrow> True | Inr _ \<Rightarrow> False)"

lemma ut_launch:
  assumes "\<And>sp. sp_program sp \<in> {''/bin/true'', ''/bin/echo''} \<Longrightarrow> \<exists>pid > 0. spawn sp = Inr (Some pid)"
    and "\<And>sp. sp_program sp = ''/nonexistent/binary/xyzzy'' \<Longrightarrow> \<exists>e. spawn sp = Inl e"
  shows "ut_launches_real_process spawn" "ut_passes_args_as_argv spawn" "ut_nonexistent_command_errors spawn"
proof -
  let ?spec = "\<lambda>p args. \<lparr>sp_program = p, sp_args = args, sp_stdin = StdioNull, sp_stdout = StdioNull,
      sp_stderr = StdioNull, sp_process_group = Some 0\<rparr>"
  obtain p1 p2 e where "0 < p1" "spawn (?spec ''/bin/true'' []) = Inr (Some p1)"
    and "0 < p2" "spawn (?spec ''/bin/echo'' [''hello'', ''world'']) = Inr (Some p2)"
    and "spawn (?spec ''/nonexistent/binary/xyzzy'' []) = Inl e"
    using assms(1) [of "?spec ''/bin/true'' []"] assms(1) [of "?spec ''/bin/echo'' [''hello'', ''world'']"]
      assms(2) [of "?spec ''/nonexistent/binary/xyzzy'' []"] by auto
  then show "ut_launches_real_process spawn" "ut_passes_args_as_argv spawn" "ut_nonexistent_command_errors spawn"
    by (simp_all add: ut_launches_real_process_def ut_passes_args_as_argv_def ut_launch_ok_def
        ut_nonexistent_command_errors_def launch_detached_def)
qed

section \<open>\<open>src/mcp/\<close>\<close>

definition ut_request :: "string list \<Rightarrow> web_request" where
  "ut_request auth = \<lparr>wr_path = ''/mcp'', wr_authorization = auth\<rparr>"

definition ut_bearer_gates_requests :: bool where
  "ut_bearer_gates_requests =
     (require_bearer ''secret'' (\<lambda>_. ''ok'') (ut_request []) = Unauthorized
      \<and> require_bearer ''secret'' (\<lambda>_. ''ok'') (ut_request [''Bearer nope'']) = Unauthorized
      \<and> require_bearer ''secret'' (\<lambda>_. ''ok'') (ut_request [''Bearer secret'']) = Passed ''ok'')"

definition ut_notify_without_dbus :: bool where
  "ut_notify_without_dbus =
     (case fst (desktop_notify None \<lparr>nr_title = ''t'', nr_body = ''b'', nr_urgency = None, nr_icon = None\<rparr>) of
        Inl _ \<Rightarrow> True | Inr _ \<Rightarrow> False)"

lemma ut_mcp: "ut_bearer_gates_requests" "ut_notify_without_dbus"
  by code_simp+

definition ut_three_tools :: bool where
  "ut_three_tools =
     (let names = map fst tool_table in
      length names = 3 \<and> ''desktop_notify'' \<in> set names \<and> ''desktop_launch_app'' \<in> set names
      \<and> ''desktop_screenshot'' \<in> set names)"

lemma ut_three_tools: "ut_three_tools"
  by (simp add: ut_three_tools_def tool_table_def)

definition ut_launch_tool :: "(spawn_spec \<Rightarrow> string + u32 option) \<Rightarrow> bool" where
  "ut_launch_tool spawn =
     (case desktop_launch_app spawn \<lparr>lr_command = ''/bin/true'', lr_args = None\<rparr> of
        Inl _ \<Rightarrow> False | Inr _ \<Rightarrow> True)"

lemma ut_launch_tool: "ut_launches_real_process spawn \<Longrightarrow> ut_launch_tool spawn"
  by (auto simp: ut_launch_tool_def ut_launches_real_process_def ut_launch_ok_def desktop_launch_app_def
      Let_def split: sum.splits)

section \<open>\<open>src/bridge.rs\<close>\<close>

text \<open>The test's adapter: a fresh channel registered as the adapter's; its receiver is the channel.\<close>

definition inject_adapter :: "hub \<Rightarrow> nat \<times> hub" where
  "inject_adapter h =
     (let c = next_to h in (c, set_adapter c (h\<lparr>to_chans := (to_chans h)(c := chan_new), next_to := Suc c\<rparr>)))"

definition test_dispatch :: "from_adapter \<Rightarrow> hub \<Rightarrow> hub" where
  "test_dispatch frame h = dispatch frame h"

definition ut_send_without_adapter :: bool where
  "ut_send_without_adapter =
     (\<not> is_connected hub_new \<and> \<not> snd (send_inbound ''desktop:1'' ''hi'' ''m1'' hub_new))"

definition ut_inbound_and_responses :: bool where
  "ut_inbound_and_responses =
     (let (arx, h1) = inject_adapter hub_new;
          (chat, h2) = open_chat ''desktop:1'' h1;
          (h3, ok) = send_inbound ''desktop:1'' ''hello'' ''m1'' h2;
          inbound = snd (chan_recv (to_chans h3 arx));
          h4 = dispatch (Send ''desktop:1'' ''Hello there'') (dispatch (Draft ''desktop:1'' ''He'') h3);
          (h5, first) = recv_frame chat h4;
          (h6, second) = recv_frame chat h5;
          h7 = dispatch (Typing ''desktop:other'') h6
      in is_connected h1 \<and> ok \<and> inbound = Item (Inbound ''desktop:1'' ''hello'' ''m1'')
         \<and> first = Item (Draft ''desktop:1'' ''He'') \<and> second = Item (Send ''desktop:1'' ''Hello there'')
         \<and> h7 = h6 \<and> routes (close_chat ''desktop:1'' h7) = Map.empty)"

lemma ut_bridge: "ut_send_without_adapter" "ut_inbound_and_responses"
  by (simp_all add: ut_send_without_adapter_def ut_inbound_and_responses_def is_connected_def
      inject_adapter_def set_adapter_def hub_new_def send_inbound_def open_chat_def dispatch_def
      recv_frame_def chan_recv_def chan_send_def chan_new_def drop_sender_def Let_def close_chat_def)

end
