(* ===== verification/Echo_Server.thy ===== *)
theory Echo_Server
  imports Daemon_System Unit_Tests
begin

text \<open>
  The second \<open>MessageHandler\<close> of the repository: the stub \<open>Echo\<close> of the tests in \<open>src/ipc/server.rs\<close>. The
  server's contract \<open>message_handler\<close> is interpreted on it as it is on the daemon's handler, and the
  server's and the daemon's socket tests are run on the model, step by step.
\<close>

section \<open>The stub handler\<close>

text \<open>What \<open>Echo::handle\<close> sends; \<open>None\<close> while it waits for its cancel token.\<close>

fun echo_handle :: "client_message \<Rightarrow> bool \<Rightarrow> daemon_message list option" where
  "echo_handle (Chat rid _ message) stop = Some [Delta rid message, ChatComplete rid message]"
| "echo_handle (client_message.Status rid) stop = Some [Status status_connected status_ready (Some rid)]"
| "echo_handle (SessionList rid) stop = (if stop then Some [Error (Some rid) ''cancelled''] else None)"
| "echo_handle _ stop = Some []"

definition echo_may :: "client_message \<Rightarrow> daemon_message list \<Rightarrow> bool" where
  "echo_may msg out = (\<exists>stop ms. echo_handle msg stop = Some ms \<and> prefix out ms)"

lemma echo_addressed:
  assumes "echo_may msg out" and "m \<in> set out"
  shows "\<exists>i. request_id msg = Some i \<and> addressed_to m = Some i"
proof -
  from assms obtain stop ms where "echo_handle msg stop = Some ms" and "m \<in> set ms"
    unfolding echo_may_def by (auto dest: set_mono_prefix)
  then show ?thesis by (cases "(msg, stop)" rule: echo_handle.cases) (auto split: if_splits)
qed

interpretation echo: message_handler echo_may
  by unfold_locales (rule echo_addressed)

text \<open>Messages queued one after the other; the task waits where the queue is full.\<close>

fun task_sends_all :: "nat \<Rightarrow> daemon_message list \<Rightarrow> conn \<Rightarrow> conn option" where
  "task_sends_all token [] cs = Some cs"
| "task_sends_all token (m # ms) cs =
     Option.bind (task_sends token m cs) (task_sends_all token ms)"

text \<open>The request task of a token: what the stub sends, and its end.\<close>

definition echo_task :: "nat \<Rightarrow> conn \<Rightarrow> conn option" where
  "echo_task tok cs =
     Option.bind (echo_handle (requests cs ! tok) (cancelled cs tok)) (\<lambda>ms.
       Option.bind (task_sends_all tok ms cs) (task_ends tok))"

section \<open>The server's tests\<close>

text \<open>\<open>send_msg\<close>: the line of a message, read by the server; \<open>read_msg\<close>: what the writer wrote, in turn.\<close>

definition send_msg :: "client_message \<Rightarrow> conn \<Rightarrow> conn option" where
  "send_msg msg cs = on_line (\<lambda>_. Some (client_to_json msg)) (\<lambda>_. []) ''line'' cs"

definition read_msg :: "nat \<Rightarrow> conn \<Rightarrow> daemon_message option" where
  "read_msg n cs =
     (if n < length (wire_out cs) then
        (case wire_out cs ! n of Direct m \<Rightarrow> Some m | Event m \<Rightarrow> Some m)
      else None)"

lemma send_msg_simp [simp]: "reading cs \<Longrightarrow> send_msg msg cs = Some (on_message msg cs)"
  by (simp add: send_msg_def on_line_def read_request_def client_roundtrip)

lemmas server_ut =
  bind_eq_Some_conv echo_task_def task_sends_def conn_send_def conn_queue_def chan_send_def
  task_ends_def writer_direct_def chan_recv_def spawn_request_def conn_new_def chan_new_def read_msg_def Let_def

definition ut_chat_round_trip :: bool where
  "ut_chat_round_trip =
     (case Option.bind (send_msg (Chat ''r1'' None ''hello'') (conn_new 0)) (\<lambda>cs.
             Option.bind (echo_task 0 cs) (\<lambda>cs.
               Option.bind (writer_direct True cs) (writer_direct True))) of
        None \<Rightarrow> False
      | Some cs \<Rightarrow>
          read_msg 0 cs = Some (Delta ''r1'' ''hello'') \<and> read_msg 1 cs = Some (ChatComplete ''r1'' ''hello''))"

lemma ut_chat_round_trip: ut_chat_round_trip
  by (simp add: ut_chat_round_trip_def server_ut)

definition ut_malformed_gets_error :: bool where
  "ut_malformed_gets_error =
     (case Option.bind (on_line (\<lambda>_. None) (\<lambda>_. ''key must be a string'') ''{not json}'' (conn_new 0)) (\<lambda>cs.
             Option.bind (writer_direct True cs) (\<lambda>cs.
               Option.bind (send_msg (client_message.Status ''s1'') cs) (\<lambda>cs.
                 Option.bind (echo_task 0 cs) (writer_direct True)))) of
        None \<Rightarrow> False
      | Some cs \<Rightarrow>
          (case read_msg 0 cs of Some (Error _ _) \<Rightarrow> True | _ \<Rightarrow> False)
          \<and> (case read_msg 1 cs of Some (Status _ _ _) \<Rightarrow> True | _ \<Rightarrow> False))"

lemma trim_not_json: "trim ''{not json}'' = ''{not json}''"
  by code_simp

lemma ut_malformed_gets_error: ut_malformed_gets_error
  by (simp add: ut_malformed_gets_error_def on_line_def read_request_def trim_not_json server_ut)

text \<open>Two connections of one broadcast channel, of which the first subscribes.\<close>

definition ut_only_subscribers :: bool where
  "ut_only_subscribers =
     (let log = [Toast ''t'' ''b'' None];
          sub = Option.bind (send_msg (Subscribe None) (conn_new 0)) (writer_event True False 16 log);
          plain = Option.bind (writer_event True False 16 log (conn_new 0)) (\<lambda>cs.
                    Option.bind (send_msg (client_message.Status ''s'') cs) (\<lambda>cs.
                      Option.bind (echo_task 0 cs) (writer_direct True)))
      in (case Option.bind sub (read_msg 0) of Some (Toast _ _ _) \<Rightarrow> True | _ \<Rightarrow> False)
         \<and> (case Option.bind plain (read_msg 0) of Some (Status _ _ _) \<Rightarrow> True | _ \<Rightarrow> False))"

lemma ut_only_subscribers: ut_only_subscribers
  by (simp add: ut_only_subscribers_def server_ut writer_event_def bcast_recv_def)

definition ut_cancel_interrupts :: bool where
  "ut_cancel_interrupts =
     (case send_msg (SessionList ''blk'') (conn_new 0) of
        None \<Rightarrow> False
      | Some cs \<Rightarrow>
          echo_task 0 cs = None
          \<and> Option.bind (Option.bind (send_msg (Cancel ''blk'') cs) (\<lambda>cs.
                Option.bind (echo_task 0 cs) (writer_direct True))) (read_msg 0)
              = Some (Error (Some ''blk'') ''cancelled''))"

lemma ut_cancel_interrupts: ut_cancel_interrupts
  by (simp add: ut_cancel_interrupts_def server_ut cancel_request_def)

definition ut_stale_socket_is_replaced :: bool where
  "ut_stale_socket_is_replaced =
     (prepare_socket_path (Inr ()) ''/tmp/hermes-dms-stale.sock'' Leftover = (Inr (), [RemoveFile]))"

lemma ut_stale_socket_is_replaced: ut_stale_socket_is_replaced
  by (simp add: ut_stale_socket_is_replaced_def prepare_socket_path_def)

section \<open>The daemon's tests\<close>

text \<open>A turn that takes \<open>n\<close> frames, each written to the client before the next is taken.\<close>

fun turn_reads :: "nat \<Rightarrow> chat \<Rightarrow> hub \<Rightarrow> conn \<Rightarrow> conn option" where
  "turn_reads 0 c h cs = Some cs"
| "turn_reads (Suc n) c h cs =
     (case chat_frame False c h of
        None \<Rightarrow> None
      | Some (es, c', h') \<Rightarrow>
          Option.bind (task_sends_all 0 (said es) cs) (\<lambda>cs.
            Option.bind (writer_direct True cs) (turn_reads n c' h')))"

text \<open>
  A chat over the daemon's handler with an injected adapter: the client's request, the turn up to its
  first frame, the frames the test dispatches for the chat id the adapter was told, and the turn's
  steps for them. The result is what the adapter received and the connection at the end.
\<close>

definition bridge_chat ::
    "http \<Rightarrow> u64 option \<Rightarrow> (nat \<Rightarrow> u8) \<Rightarrow> client_message \<Rightarrow> (string \<Rightarrow> from_adapter list)
     \<Rightarrow> (to_adapter recv \<times> conn) option" where
  "bridge_chat env now rand msg frames =
     (let hermes = \<lparr>hc_base_url = ''http://127.0.0.1:1'', hc_api_key = ''k''\<rparr>;
          (arx, h0) = inject_adapter hub_new
      in case snd (handle env now rand (handler_new hermes True False None) msg) of
           Replies _ \<Rightarrow> None
         | Turn c0 \<Rightarrow>
             let (c1, h1) = chat_open c0 h0; (c2, h2) = chat_push c1 h1;
                 sent_frames = frames (ch_chat c0)
             in Option.bind (send_msg msg (conn_new 0)) (\<lambda>cs.
                  map_option (Pair (snd (chan_recv (to_chans h2 arx))))
                    (turn_reads (length sent_frames) c2 (fold test_dispatch sent_frames h2) cs)))"

lemmas bridge_ut =
  bridge_chat_def inject_adapter_def test_dispatch_def set_adapter_def hub_new_def handle_chat_def
  chat_open_def open_chat_def chat_push_def send_inbound_def dispatch_def drop_sender_def chat_frame_def
  recv_frame_def frame_arm_def

definition ut_panel_chat :: "http \<Rightarrow> u64 option \<Rightarrow> (nat \<Rightarrow> u8) \<Rightarrow> bool" where
  "ut_panel_chat env now rand =
     (case bridge_chat env now rand (Chat ''r1'' (Some ''desktop:1'') ''hi'')
             (\<lambda>_. [Bridge.Draft ''desktop:1'' ''He'', Send ''desktop:1'' ''Hello there'']) of
        None \<Rightarrow> False
      | Some (inbound, cs) \<Rightarrow>
          inbound = Item (Inbound ''desktop:1'' ''hi'' ''r1'')
          \<and> read_msg 0 cs = Some (daemon_message.Draft ''r1'' ''He'')
          \<and> read_msg 1 cs = Some (ChatComplete ''r1'' ''Hello there''))"

lemma ut_panel_chat: "ut_panel_chat env now rand"
  by (simp add: ut_panel_chat_def bridge_ut server_ut)

definition ut_launcher_chat :: "http \<Rightarrow> u64 option \<Rightarrow> (nat \<Rightarrow> u8) \<Rightarrow> bool" where
  "ut_launcher_chat env now rand =
     (case bridge_chat env now rand (Chat ''r1'' None ''hi'') (\<lambda>cid. [Send cid ''Hello there'']) of
        None \<Rightarrow> False
      | Some (inbound, cs) \<Rightarrow>
          (case inbound of
             Item (Inbound cid txt _) \<Rightarrow> txt = ''hi'' \<and> starts_with ''desktop_'' cid
           | _ \<Rightarrow> False)
          \<and> read_msg 0 cs = Some (ChatComplete ''r1'' ''Hello there''))"

lemma minted_prefix: "starts_with ''desktop_'' (new_desktop_session_id now rand)"
  by (simp add: new_desktop_session_id_def desktop_session_prefix_def starts_with_def Let_def)

lemma ut_launcher_chat: "ut_launcher_chat env now rand"
  by (simp add: ut_launcher_chat_def bridge_ut server_ut minted_prefix notify_launcher_def)

end
