(* ===== verification/Spec2Isabelle.thy ===== *)
theory Spec2Isabelle
  imports Protocol Bridge Rest_Clients Config_Resolve Desktop Daemon Mcp_Server Ctl
    Daemon_Process Wire_Text Request_Types Bridge_Session Bridge_Progress Bridge_Inbound
    Bridge_Shutdown Daemon_Relay Daemon_Progress Daemon_Drain Daemon_Events Unit_Tests Echo_Server
begin

text \<open>
  Hermes-dms: a daemon that connects a desktop shell to a Hermes agent (repository
  \<open>kryptt/hermes-dms\<close>, crate under \<open>src/\<close>, sources under \<open>src/src/\<close>; the file names below are relative to
  that directory).

  The program. One process serves three interfaces. Local clients (the shell's panel and launcher, and
  \<open>hermes-dms-ctl\<close>) talk JSON lines over a Unix socket: \<open>ipc/server.rs\<close> reads requests, spawns one task
  per request, routes cancels and writes replies and broadcast events; \<open>daemon.rs\<close> is its handler. A
  chat goes over the bridge (\<open>bridge.rs\<close>): the adapter, a plugin in the Hermes pod, holds one WebSocket;
  the hub pushes inbound messages to it and routes its draft, send and typing frames to the chat of
  their id. Sessions, history, health and the model list come from REST servers (\<open>hermes/client.rs\<close>,
  \<open>ollama.rs\<close>). Hermes in turn calls desktop tools over MCP (\<open>mcp/\<close>, \<open>desktop/\<close>) behind a Bearer check.

  The theories, in the order in which they build on each other.
  \<^item> \<open>Hermes_Prelude\<close>: widths, byte strings (UTF-8 bytes as characters), the parts of the Rust standard
    library the code uses (\<open>trim\<close>, \<open>chars().take\<close>, \<open>strip_prefix\<close>, formatting, \<open>Path::join\<close>) and the
    collections of simplification rules.
  \<^item> \<open>Json_Model\<close>: JSON values and what the serde attributes mean. \<open>Protocol\<close>: \<open>ipc/protocol.rs\<close> with the
    derived readers and writers of every message. \<open>Request_Types\<close>: a table of request types, against
    which the reader of requests is proved sound and complete.
  \<^item> \<open>Mpsc\<close>, \<open>Broadcast\<close>: the documented contracts of tokio's channels, the first as the locale
    \<open>fifo_channel\<close> interpreted on the channel state the model uses.
  \<^item> \<open>Bridge\<close>: \<open>bridge.rs\<close>. The hub's two mutex-guarded fields and its channels are the record \<open>hub\<close>,
    every method one function on it. The locale \<open>chat_routing\<close> is what a chat relies on; \<open>mailboxes\<close> is
    the abstract hub.
  \<^item> \<open>Rest_Clients\<close>, \<open>Config_Resolve\<close>, \<open>Config_File\<close>, \<open>Desktop\<close>, \<open>Mcp_Server\<close>, \<open>Mcp_Tools\<close>: \<open>hermes/\<close> and \<open>ollama.rs\<close>;
    \<open>config.rs\<close>; \<open>desktop/\<close>; \<open>mcp/\<close> with the Bearer layer, and its tools as they are called by name. These are functions of what the libraries and the system answer.
  \<^item> \<open>Daemon_Chat\<close>: \<open>handle_chat\<close> and \<open>chat_via_bridge\<close> of \<open>daemon.rs\<close>, a state machine whose steps are
    the turn's accesses to the hub. \<open>Daemon\<close>: \<open>DaemonHandler::handle\<close>, the health loop and \<open>run\<close>'s
    construction of the handler. \<open>Daemon_Process\<close>: \<open>run\<close> down to the IPC server, the signal task and the
    exit code of \<open>main.rs\<close>.
  \<^item> \<open>Ipc_Server\<close>, \<open>Ipc_Delivery\<close>: \<open>ipc/server.rs\<close>. A connection is the record \<open>conn\<close> with the step
    relation \<open>conn_step\<close>, generic in the handler through the locale \<open>message_handler\<close>, which \<open>Daemon\<close>
    interprets with what \<open>handle\<close> may send.
  \<^item> \<open>Bridge_System\<close>, \<open>Bridge_Relay\<close>: all turns and adapter sockets interleaved over the one hub
    (\<open>sys_step\<close>, \<open>sys_trace\<close>), its invariants, and what a chat's client hears as a function of what the
    adapter sent. \<open>Bridge_Inbound\<close>: what is written to the adapters. \<open>Bridge_Session\<close>: \<open>handle_socket\<close> as a whole against those steps. \<open>Bridge_Progress\<close>: a
    turn whose reply has arrived, under all interleavings. \<open>Bridge_Shutdown\<close>: all turns end once they are cancelled.
  \<^item> \<open>Daemon_System\<close>, \<open>Daemon_Views\<close>, \<open>Daemon_Relay\<close>: the whole running daemon. The record \<open>system\<close> holds
    the handler, the bridge, every connection and the broadcast channel, \<open>system_step\<close> is a step of one
    of them with its effect on the others; it refines the bridge system and the IPC server, from which
    the properties that need both follow. \<open>Daemon_Progress\<close>: a turn whose reply has arrived ends in every
    run of the daemon in which its task and its connection's writer go on. \<open>Daemon_Drain\<close>: what is left of a
    connection whose reader has stopped. \<open>Daemon_Events\<close>: the events a subscriber is written, from the
    tool that causes a toast to the panel's standard output.
  \<^item> \<open>Ctl\<close>: \<open>ipc/client.rs\<close> and \<open>bin/ctl.rs\<close>. \<open>Socket_Lines\<close>: the line readers of both ends and the contract
    of the JSON text layer. \<open>Json_Text\<close>: a printer and a reader of JSON text that keep that contract for
    every value without floats. \<open>Wire_Text\<close>: the writer with \<open>write_line\<close>, its failing writes, and the
    bytes on the Unix socket (\<open>bytes_reach\<close>). This theory: properties from the adapter and the daemon to
    the terminal.
  \<^item> \<open>Unit_Tests\<close>, \<open>Echo_Server\<close>: the repository's unit tests evaluated on the model, with the stub
    handler of the server tests as the second interpretation of \<open>message_handler\<close>.

  What is shown. The body of the first final reply the adapter sends for a chat is what
  \<open>hermes-dms-ctl\<close> prints, through the bridge, the turn, the connection and the bytes on the socket. The
  hub refines a table of mailboxes and keeps its invariant under every operation;
  over all interleavings no route outlives its turn and a turn ends once, and with distinct chat ids it
  relays exactly its own frames. Once its reply has arrived, its steps are bounded in every run of the
  daemon and it is stuck in none, but for the room its connection's writer makes. Every accepted chat
  message is written to one adapter, once and in order. On a connection, replies reach their requester only, in order, through
  a bounded queue; cancels reach their request, and a chat is told of a cancel only if it was cancelled.
  A subscriber that keeps up misses no event, and a toast of the notification tool comes out of
  \<open>hermes-dms-ctl stream\<close>. When all turns are cancelled, as at a shutdown, every turn ends with one final message. A
  connection without a reader comes to rest with all its replies written, and the only tasks it can still have are
  chat turns that nobody cancelled and the adapter does not answer; without one its writer has ended. Every query is answered once. The wire forms round trip, as values and as lines of bytes, and a
  request is accepted exactly if it is well typed. The clients, the configuration, the tools and the Bearer check have their outcomes on every
  branch. Some theorems state what the code does where that is not what its comments say: a second
  chat under a running chat's id, an adapter lost during a turn, a stale socket, a reused request id.

  Effects and errors. A fallible function returns a sum with the error on the left, a function that
  may have to wait returns an option, effects are lists. Reading \<open>None\<close> from a channel function means
  that the task waits. Standard output that fails is an argument of the \<open>Ctl\<close> definitions; \<open>println\<close> of
  the status mode is taken to succeed.

  Bounds. Fuel is used by the reader of \<open>Json_Text\<close> only, where twice the length of the text is enough.
  The liveness theorems give the number of steps that are left as a function of the state
  (\<open>drain_work\<close>, \<open>turns_work\<close>) or of the frames before the reply. Loops over a stream recurse on the list of its items; the readers of \<open>Ctl\<close>
  terminate by the lines left. The only loop that may not end is the polling of \<open>desktop/screenshot.rs\<close>,
  a \<open>partial_function\<close> whose termination within 101 rounds is proved from the 50 ms sleep and the 5 s
  deadline.

  Parameters, and why. The JSON text layer (\<open>serde_json\<close>), TOML, \<open>SocketAddr\<close> parsing, HTTP (\<open>reqwest\<close>),
  D-Bus, niri, \<open>loginctl\<close>, process spawning, the clock, random bytes and base64 are code outside the
  repository; they are arguments. What the JSON text layer is relied on for is \<open>text_layer\<close>: one line of
  UTF-8 between braces that is read back as the value; \<open>Json_Text\<close> shows that this can be had, the model
  does not use it. A locked mutex region is one atomic step, as the guards never live
  across an \<open>await\<close> in \<open>bridge.rs\<close>.

  In \<open>system_step\<close> what a turn or a query says is first pending and then queued, one message a step, when
  the connection's queue has room; a task with pending messages does nothing else, as it is inside
  \<open>Conn::send\<close>. The health loop's swap and its broadcast are one step.

  Where a step is coarser than the code. \<open>chat_step\<close> has a message said in one step: the wait for room in the
  connection's queue is not in \<open>sys_step\<close>, so what \<open>Bridge_Shutdown\<close> shows is about the turns' own
  code, and \<open>Daemon_Progress\<close> and \<open>Daemon_Drain\<close> have the wait. The call of a REST server or of D-Bus that a
  task makes is one step with its answer. \<open>socket_close\<close> is \<open>clear_adapter\<close> and the abort of the write task in one
  step. \<open>shutdown_fires\<close> may happen on a connection at any time, which only adds runs. What the
  process does with its tasks after \<open>IpcServer::run\<close> has returned is not modelled: it does not wait for
  them (\<open>main.rs\<close>), so what is shown of a shutdown holds as long as the tasks still run.

  Not modelled: the QML and JavaScript plugins and the Python adapter (other languages, other
  processes), argument parsing and logging of the two binaries, the matching of routes in axum and rmcp,
  texts of \<open>ConfigError\<close>. Of the unit tests, those of the schemas of the tools and of a real port.
\<close>

section \<open>From the socket to the terminal\<close>

text \<open>
  \<open>hermes-dms-ctl chat\<close> on a daemon connection that carries a finished turn prints the complete
  reply and one newline and nothing of the drafts, or fails with the turn's error and prints nothing;
  it does not wait for anything after the turn's end.
\<close>

theorem ctl_chat_prints_reply:
  assumes "chat_trace dbus (handle_chat now rand rid session_id message) es c'"
    and "ended (ch_phase c')" and "carries parse ls (said es)"
  shows "(\<exists>content. last (said es) = ChatComplete rid content
      \<and> run_chat parse err reliable (Inr ()) (\<lambda>_. Inr (ls @ rest)) rid message session_id =
          (Inr (), (if content = [] then [] else [content]) @ [[newline]]))
    \<or> (\<exists>e. last (said es) = Error (Some rid) e
      \<and> run_chat parse err reliable (Inr ()) (\<lambda>_. Inr (ls @ rest)) rid message session_id = (Inl e, []))"
proof -
  from chat_trace_turn [OF assms(1)] assms(2) obtain texts m where
    said: "said es = map (daemon_message.Draft rid) texts @ [m]"
    and m: "is_terminal m" "addressed_to m = Some rid"
    by (auto simp: turn_shape_def Let_def)
  have "\<exists>ls'. carries parse ls' [m] \<and> run_chat_loop parse err reliable rid (ls @ rest) [] =
      run_chat_loop parse err reliable rid (ls' @ rest) []"
    by (rule run_chat_loop_skips [where ms = "map (daemon_message.Draft rid) texts"])
      (use assms(3) said in \<open>auto simp: chat_step_draft\<close>)
  then obtain ls' where ls': "carries parse ls' [m]"
    and loop: "run_chat_loop parse err reliable rid (ls @ rest) [] =
      run_chat_loop parse err reliable rid (ls' @ rest) []"
    by blast
  have run: "run_chat parse err reliable (Inr ()) (\<lambda>_. Inr (ls @ rest)) rid message session_id =
      run_chat_loop parse err reliable rid (ls' @ rest) []"
    by (simp add: run_chat_def loop)
  from m consider (reply) content where "m = ChatComplete rid content" | (err) e where "m = Error (Some rid) e"
    by (cases m) auto
  then show ?thesis
  proof cases
    case reply
    with run_chat_loop_return [OF ls', of reliable rid "[]"] show ?thesis
      by (simp add: run said chat_message_step_def)
  next
    case err
    with run_chat_loop_return [OF ls', of reliable rid "[]" "Inl e" "[]"] show ?thesis
      by (simp add: run said chat_message_step_def)
  qed
qed

theorem ctl_chat_prints_reply_witness:
  "run_chat (\<lambda>_. Some (daemon_to_json (Error (Some ''r'') ''desktop platform offline''))) (\<lambda>_. [])
     reliable (Inr ()) (\<lambda>_. Inr [Line ''line'']) ''r'' ''hi'' None = (Inl ''desktop platform offline'', [])"
proof -
  let ?m = "Error (Some ''r'') ''desktop platform offline''"
  obtain c' where tr: "chat_trace True (handle_chat None (\<lambda>_. 0) ''r'' None ''hi'') (offline_effects ''r'') c'"
    and d: "ended (ch_phase c')"
    using offline_trace [of "handle_chat None (\<lambda>_. 0) ''r'' None ''hi''" True]
    by (auto simp: handle_chat_fields ended_def)
  have said: "said (offline_effects ''r'') = [?m]"
    by (simp add: offline_effects_def send_error_def)
  have "carries (\<lambda>_. Some (daemon_to_json ?m)) [Line ''line''] (said (offline_effects ''r''))"
    unfolding said by (rule carries_line) simp
  from ctl_chat_prints_reply [OF tr d this, of "\<lambda>_. []" "[]"] show ?thesis
    by (simp add: said del: daemon_to_json.simps)
qed

section \<open>From the adapter to the terminal\<close>

text \<open>What a finished relay ends with.\<close>

lemma relayed_outcome:
  assumes "relayed rid True fs out"
  shows "(\<exists>taken cid body later. fs = taken @ Send cid body # later \<and> \<not> list_ex is_send taken
        \<and> last out = ChatComplete rid body)
    \<or> (\<exists>e \<in> {''cancelled'', ''desktop platform offline''}. last out = Error (Some rid) e)"
proof -
  from assms obtain taken rest where fs: "fs = taken @ rest" "\<not> list_ex is_send taken"
    and out: "(\<exists>cid body later. rest = Send cid body # later \<and> out = drafts rid taken @ [ChatComplete rid body])
      \<or> out = drafts rid taken @ [Error (Some rid) ''cancelled'']
      \<or> out = [Error (Some rid) ''desktop platform offline'']"
    unfolding relayed_def by auto
  from out show ?thesis
  proof (elim disjE exE conjE)
    fix cid body later
    assume "rest = Send cid body # later" and "out = drafts rid taken @ [ChatComplete rid body]"
    with fs have "fs = taken @ Send cid body # later \<and> \<not> list_ex is_send taken
        \<and> last out = ChatComplete rid body" by simp
    then show ?thesis by blast
  qed simp_all
qed

lemma all_direct:
  "(\<And>w. w \<in> set ws \<Longrightarrow> \<exists>m. w = Direct m) \<Longrightarrow> ws = map Direct (List.map_filter direct_of ws)"
proof (induction ws)
  case (Cons w ws)
  from Cons.prems obtain m where "w = Direct m" by force
  with Cons show ?case by (simp add: List.map_filter_simps)
qed (simp add: List.map_filter_def)

text \<open>What is on the wire of a connection that made one chat request and subscribed to nothing.\<close>

lemma sole_chat_wire:
  assumes reach: "conn_reach daemon_may log cs" and live: "rx_live (outq cs)" "queue (outq cs) = []"
    and req: "requests cs = [Chat rid session_id message]" and sub: "\<not> subscribed cs"
    and ok: "\<forall>m \<in> set (directs cs). \<not> malformed_reply m"
  shows "wire_out cs = map Direct (sent cs 0)"
proof -
  have "\<exists>m. w = Direct m" if "w \<in> set (wire_out cs)" for w
    using daemon_handler.wire_sources [OF reach that] sub by blast
  then have wire: "wire_out cs = map Direct (directs cs)"
    unfolding directs_def by (rule all_direct)
  have "to_request rid m" if "m \<in> set (directs cs)" for m
  proof -
    from that have "Direct m \<in> set (wire_out cs)" by (simp add: wire)
    from daemon_handler.wire_sources [OF reach this] ok that req show ?thesis
      by (auto simp: answers_def to_request_def)
  qed
  then have "filter (to_request rid) (queued cs) = directs cs"
    by (simp add: queued_def live(2) filter_id_conv)
  moreover have "sole_request cs 0 rid" by (simp add: sole_request_def req)
  ultimately show ?thesis
    using daemon_handler.reply_stream [OF reach live(1)] wire by metis
qed

text \<open>
  C1: the whole way, in every run of the daemon in which no two running chats share an id. Let
  \<open>hermes-dms-ctl chat\<close> have made the one request of its connection, not subscribed, and been sent no
  complaint about a malformed line; let its turn have been opened and have ended, and all it was told have been
  sent and written by a writer that is still there, each message as a readable line. Then the program prints exactly
  the body of the first final reply the adapter sent for the chat since it opened, and one newline, and
  succeeds; or it prints nothing and fails with one of two reasons: the chat was cancelled, or no adapter was
  connected. (When two running chats share an id the client can also be told that the
  platform disconnected, which is not so.)
\<close>

theorem terminal_shows_adapter_reply:
  assumes run: "system_trace distinct_chats parse err h tr s"
    and turn: "ds_owner s t = Some (c, 0)" "ds_conns s c = Some cs" "sy_turns (ds_sys s) t = Some ch"
      "ended (ch_phase ch)" "frames_since parse t tr = Some fs"
    and client: "requests cs = [Chat rid session_id message]" "\<not> subscribed cs"
      "\<forall>m \<in> set (directs cs). \<not> malformed_reply m"
    and written: "ds_pending s (c, 0) = []" "rx_live (outq cs)" "queue (outq cs) = []"
      "\<forall>w \<in> set (wire_out cs). readable parse enc (written_message w)"
  shows "(\<exists>taken cid body later. filter (\<lambda>f. chat_id f = ch_chat ch) fs = taken @ Send cid body # later
      \<and> \<not> list_ex is_send taken
      \<and> run_chat parse err reliable (Inr ())
          (\<lambda>_. Inr (socket_lines (wire_bytes enc (wire_out cs) @ rest))) rid message session_id =
          (Inr (), (if body = [] then [] else [body]) @ [[newline]]))
    \<or> (\<exists>e \<in> {''cancelled'', ''desktop platform offline''}.
        run_chat parse err reliable (Inr ())
          (\<lambda>_. Inr (socket_lines (wire_bytes enc (wire_out cs) @ rest))) rid message session_id = (Inl e, []))"
proof -
  from system_trace_views [OF run]
  have ok: "owners_ok (hd_dbus h) tr s" "requests_ok s" by (simp_all add: views_inv_def)
  obtain cs' ch' where "ds_conns s c = Some cs'" "sy_turns (ds_sys s) t = Some ch'"
    "serves (hd_dbus h) cs' 0 (ds_pending s (c, 0)) ch' (said_by t tr)"
    by (rule owners_okD [OF ok(1) turn(1)])
  with turn written(1) have srv: "serves (hd_dbus h) cs 0 [] ch (said_by t tr)" by simp
  with client(1) obtain now rand es where snt: "sent cs 0 = said_by t tr"
    and tr: "chat_trace (hd_dbus h) (handle_chat now rand rid session_id message) es ch"
    and es: "said es = said_by t tr"
    unfolding serves_def by auto
  have rid: "ch_request ch = rid"
    using serves_request [OF srv] client(1) by simp
  have "sys_relay parse tr (ds_sys s)"
    using sys_trace_relay system_trace_bridge [OF run spawn_only_cases(2)] by blast
  from sys_relayD(1) [OF this turn(3)] turn(4,5) rid es
  have rel: "relayed rid True (filter (\<lambda>f. chat_id f = ch_chat ch) fs) (said es)"
    by (simp add: relay_inv_def own_frames_def)
  have wire: "wire_out cs = map Direct (said es)"
    using sole_chat_wire [OF requests_okD(1) [OF ok(2) turn(2)] written(2,3) client] snt es by simp
  with written(4) have "list_all (readable parse enc) (said es)" by (auto simp: list_all_iff)
  from carries_bytes [OF this] obtain ls where ls: "carries parse ls (said es)"
    and bytes: "socket_lines (wire_bytes enc (wire_out cs) @ rest) = ls @ socket_lines rest"
    by (auto simp: wire wire_bytes_def comp_def)
  note prints = ctl_chat_prints_reply [OF tr turn(4) ls, of err "socket_lines rest"]
  from relayed_outcome [OF rel] show ?thesis
  proof (elim disjE exE conjE bexE)
    fix taken cid body later
    assume "last (said es) = ChatComplete rid body"
      and split: "filter (\<lambda>f. chat_id f = ch_chat ch) fs = taken @ Send cid body # later" "\<not> list_ex is_send taken"
    with prints have "run_chat parse err reliable (Inr ()) (\<lambda>_. Inr (ls @ socket_lines rest)) rid message
        session_id = (Inr (), (if body = [] then [] else [body]) @ [[newline]])" by auto
    with split show ?thesis unfolding bytes by blast
  next
    fix e
    assume "last (said es) = Error (Some rid) e" and e: "e \<in> {''cancelled'', ''desktop platform offline''}"
    with prints have "run_chat parse err reliable (Inr ()) (\<lambda>_. Inr (ls @ socket_lines rest)) rid message
        session_id = (Inl e, [])" by auto
    with e show ?thesis unfolding bytes by blast
  qed
qed

text \<open>The demonstration run's connection, once its writer has written both messages.\<close>

definition demo_written :: conn where
  "demo_written =
     (demo_conn [daemon_message.Draft ''r'' ''He'', ChatComplete ''r'' ''Hello''])
       \<lparr>outq := chan_new,
        wire_out := [Direct (daemon_message.Draft ''r'' ''He''), Direct (ChatComplete ''r'' ''Hello'')]\<rparr>"

lemma demo_written_run:
  "\<exists>s. system_trace distinct_chats demo_parse err demo_handler demo_events s
     \<and> ds_owner s 0 = Some (0, 0) \<and> ds_conns s 0 = Some demo_written \<and> ds_pending s (0, 0) = []
     \<and> sy_turns (ds_sys s) 0 = Some (demo_chat\<lparr>ch_rx := 0, ch_phase := Closing\<rparr>)"
proof -
  let ?d = "daemon_message.Draft ''r'' ''He''" let ?m = "ChatComplete ''r'' ''Hello''"
  let ?s = "demo_daemon demo_replied (demo_chat\<lparr>ch_rx := 0, ch_phase := Closing\<rparr>) [?d, ?m]"
  let ?cs1 = "(demo_conn [?d, ?m])\<lparr>outq := chan_new\<lparr>queue := [?m]\<rparr>, wire_out := [Direct ?d]\<rparr>"
  have new: "wire_out (demo_conn ms) = []" for ms by (simp add: demo_conn_def conn_new_def)
  have "writer_direct True (demo_conn [?d, ?m]) = Some ?cs1"
    by (simp add: writer_direct_def chan_recv_def chan_new_def new)
  then have "conn_own (ds_log ?s) (demo_conn [?d, ?m]) ?cs1" unfolding conn_own_def by blast
  then have 1: "system_step demo_parse err ?s [] (?s\<lparr>ds_conns := [0 \<mapsto> ?cs1]\<rparr>)"
    using ds_conn [of ?s 0 "demo_conn [?d, ?m]" ?cs1 demo_parse err] by simp
  have "writer_direct True ?cs1 = Some demo_written"
    by (simp add: writer_direct_def chan_recv_def chan_new_def demo_written_def)
  then have "conn_own (ds_log ?s) ?cs1 demo_written" unfolding conn_own_def by blast
  then have 2: "system_step demo_parse err (?s\<lparr>ds_conns := [0 \<mapsto> ?cs1]\<rparr>) [] (?s\<lparr>ds_conns := [0 \<mapsto> demo_written]\<rparr>)"
    using ds_conn [of "?s\<lparr>ds_conns := [0 \<mapsto> ?cs1]\<rparr>" 0 ?cs1 demo_written demo_parse err] by simp
  from trace_next [OF trace_next [OF demo_daemon_run 1] 2] show ?thesis
    by (intro exI [of _ "?s\<lparr>ds_conns := [0 \<mapsto> demo_written]\<rparr>"]) (simp add: admits_def demo_state_def)
qed

lemma demo_body:
  "[from_adapter.Draft ''c'' ''He'', Send ''c'' ''Hello''] = taken @ Send cid body # later \<Longrightarrow>
     body = ''Hello''"
  by (auto simp: Cons_eq_append_conv)

theorem terminal_shows_adapter_reply_witness:
  "run_chat demo_parse (\<lambda>_. []) reliable (Inr ())
      (\<lambda>_. Inr (socket_lines (''{d}'' @ newline # ''{c}'' @ [newline]))) ''r'' ''hi'' (Some ''c'') =
     (Inr (), [''Hello'', [newline]])
   \<or> (\<exists>e \<in> {''cancelled'', ''desktop platform offline''}.
        run_chat demo_parse (\<lambda>_. []) reliable (Inr ())
          (\<lambda>_. Inr (socket_lines (''{d}'' @ newline # ''{c}'' @ [newline]))) ''r'' ''hi'' (Some ''c'') = (Inl e, []))"
proof -
  let ?d = "daemon_message.Draft ''r'' ''He''" let ?m = "ChatComplete ''r'' ''Hello''"
  let ?enc = "\<lambda>v. if v = daemon_to_json ?d then ''{d}'' else ''{c}''"
  obtain s where run: "system_trace distinct_chats demo_parse (\<lambda>_. []) demo_handler demo_events s"
    and s: "ds_owner s 0 = Some (0, 0)" "ds_conns s 0 = Some demo_written"
      "sy_turns (ds_sys s) 0 = Some (demo_chat\<lparr>ch_rx := 0, ch_phase := Closing\<rparr>)"
      "ds_pending s (0, 0) = []"
    using demo_written_run by blast
  have fs: "frames_since demo_parse 0 demo_events =
      Some [from_adapter.Draft ''c'' ''He'', Send ''c'' ''Hello'']"
    by (simp add: frames_since_def demo_events_def since_event_def frame_of_def demo_frames)
  have client: "requests demo_written = [Chat ''r'' (Some ''c'') ''hi'']" "\<not> subscribed demo_written"
      "\<forall>m \<in> set (directs demo_written). \<not> malformed_reply m"
    by (simp_all add: demo_written_def demo_conn_def conn_new_def spawn_request_def directs_def
        malformed_reply_def List.map_filter_simps)
  have "utf8 ''{d}''" "utf8 ''{c}''" by code_simp+
  moreover have "''{d}'' = ''{'' @ ''d'' @ ''}''" "''{c}'' = ''{'' @ ''c'' @ ''}''" by simp_all
  then have "\<exists>mid. ''{d}'' = ''{'' @ mid @ ''}''" "\<exists>mid. ''{c}'' = ''{'' @ mid @ ''}''" by blast+
  ultimately have "\<forall>w \<in> set (wire_out demo_written). readable demo_parse ?enc (written_message w)"
    by (simp add: demo_written_def readable_def text_layer_def demo_parse_def ser_variant_def
        del: append_Cons)
  moreover have "rx_live (outq demo_written)" "queue (outq demo_written) = []"
    by (simp_all add: demo_written_def chan_new_def)
  moreover have "wire_bytes ?enc (wire_out demo_written) = ''{d}'' @ newline # ''{c}'' @ [newline]"
    by (simp add: wire_bytes_def message_line_def demo_written_def ser_variant_def)
  moreover have "filter (\<lambda>f. chat_id f = ch_chat (demo_chat\<lparr>ch_rx := 0, ch_phase := Closing\<rparr>))
      [from_adapter.Draft ''c'' ''He'', Send ''c'' ''Hello''] =
      [from_adapter.Draft ''c'' ''He'', Send ''c'' ''Hello'']" by simp
  ultimately show ?thesis
    using terminal_shows_adapter_reply [OF run s(1-3) _ fs client s(4), of ?enc "[]"] demo_body
    by (fastforce simp: ended_def)
qed

end
